(* ===== verification/Prelude.thy ===== *)
theory Prelude
  imports Main "HOL-Library.Word"
begin

text \<open>
  Shared vocabulary of the development: the machine types the C and C++ sources use, the
  collections of rewrite rules the component theories fill, and the generic facts on lists and
  words that their proofs share.
\<close>

unbundle bit_operations_syntax

section \<open>Machine types\<close>

text \<open>
  A \<open>char\<close> or \<open>uint8_t\<close> of a buffer is a \<open>byte\<close>; \<open>size_t\<close> and \<open>uint64_t\<close> are 64 bits wide
  (the LP64 targets the build names). A \<open>std::string\<close> or \<open>std::vector<char>\<close> is a list.
\<close>

type_synonym byte = "8 word"
type_synonym u16 = "16 word"
type_synonym u32 = "32 word"
type_synonym u64 = "64 word"
type_synonym size_t = "64 word"
type_synonym bytes = "8 word list"

section \<open>Rule collections\<close>

named_theorems ws_step_defs "unfolding rules of the WebSocket parser's transitions"
named_theorems session_defs "unfolding rules of the session operations"
named_theorems http_step_defs "unfolding rules of the HTTP parser's transitions"
named_theorems reader_defs "unfolding rules of the file reader's callbacks"

section \<open>Lists\<close>

lemma drop_length_append [simp]: "drop (length xs) (xs @ ys) = ys"
  by simp

lemma take_min_length [simp]: "take (min (length xs) n) xs = take n xs"
  by (simp add: min_def)

lemma drop_min_length [simp]: "drop (min (length xs) n) xs = drop n xs"
  by (simp add: min_def)

lemma length_drop_le: "length (drop n xs) \<le> length xs"
  by simp

lemma fold_append_concat:
  "fold (\<lambda>x acc. acc @ g x) xs acc = acc @ concat (map g xs)"
  by (induction xs arbitrary: acc) auto

section \<open>Words\<close>

lemma unat_sub_of_nat:
  fixes w :: "'a::len word"
  assumes "n \<le> unat w"
  shows "unat (w - of_nat n) = unat w - n"
proof -
  have "unat (of_nat n :: 'a word) = n"
    using assms by (metis le_unat_uoi)
  moreover from this have "(of_nat n :: 'a word) \<le> w"
    using assms by (simp add: word_le_nat_alt)
  ultimately show ?thesis
    by (simp add: unat_sub)
qed

lemma unat_of_nat_le:
  fixes w :: "'a::len word"
  assumes "n \<le> unat w"
  shows "unat (of_nat n :: 'a word) = n"
  using assms by (metis le_unat_uoi)

lemma word_sub_unat_zero_iff:
  fixes w :: "'a::len word"
  assumes "n \<le> unat w"
  shows "w - of_nat n = 0 \<longleftrightarrow> unat w = n"
  using unat_sub_of_nat [OF assms] assms by (metis diff_is_0_eq le_antisym unat_eq_zero)

lemma of_nat_u64_eq_0_iff:
  assumes "n < 2 ^ 64"
  shows "(of_nat n :: u64) = 0 \<longleftrightarrow> n = 0"
proof
  assume "(of_nat n :: u64) = 0"
  then have "2 ^ 64 dvd n" by (simp add: word_of_nat_eq_0_iff)
  with assms show "n = 0" by (auto dest: dvd_imp_le)
qed simp

lemma byte_top_bit: "(x :: byte) AND 0x80 \<noteq> 0 \<longleftrightarrow> bit x 7"
  using and_exp_eq_0_iff_not_bit [of x 7] by simp

lemma not_bit_of_less:
  fixes x :: "'a::len word"
  assumes "x < 2 ^ k" "k \<le> n"
  shows "\<not> bit x n"
proof -
  have "x AND mask k = x" using assms(1) by (rule less_mask_eq)
  then show ?thesis using assms(2) by (metis bit_and_iff bit_mask_iff leD)
qed

lemma unat_of_nat_u64: "n < 2 ^ 64 \<Longrightarrow> unat (of_nat n :: u64) = n"
  by (simp add: unat_of_nat take_bit_nat_eq_self)

lemma bit_0x80:
  "bit (0x80 :: int) n \<longleftrightarrow> n = 7"
  "bit (0x80 :: byte) n \<longleftrightarrow> n = 7"
  using bit_exp_iff [of 7 n, where ?'a = int] bit_exp_iff [of 7 n, where ?'a = "byte"] by auto

end
