(* ===== verification/Hp_Types.thy ===== *)
theory Hp_Types
  imports Prelude
begin

text \<open>
  The data of \<open>third-party/http-parser\<close>: the enumerations, the parser struct, the character tables
  and the small classification macros of \<open>http_parser.h\<close> and \<open>http_parser.c\<close>, for the build this
  repository makes (\<open>HTTP_PARSER_STRICT\<close> is 1, the default). A C string constant is the list of its
  bytes; the table entries a C initialiser leaves out are zero.
\<close>

unbundle bit_operations_syntax

abbreviation B :: "char \<Rightarrow> byte" where "B c \<equiv> of_char c"
abbreviation bstr :: "string \<Rightarrow> bytes" where "bstr s \<equiv> map of_char s"
abbreviation CR :: byte where "CR \<equiv> 13"
abbreviation LF :: byte where "LF \<equiv> 10"

section \<open>Enumerations\<close>

text \<open>\<open>enum http_method\<close>, from \<open>HTTP_METHOD_MAP\<close>.\<close>

datatype (plugins only: code) http_method =
    HTTP_DELETE
  | HTTP_GET
  | HTTP_HEAD
  | HTTP_POST
  | HTTP_PUT
  | HTTP_CONNECT
  | HTTP_OPTIONS
  | HTTP_TRACE
  | HTTP_COPY
  | HTTP_LOCK
  | HTTP_MKCOL
  | HTTP_MOVE
  | HTTP_PROPFIND
  | HTTP_PROPPATCH
  | HTTP_SEARCH
  | HTTP_UNLOCK
  | HTTP_BIND
  | HTTP_REBIND
  | HTTP_UNBIND
  | HTTP_ACL
  | HTTP_REPORT
  | HTTP_MKACTIVITY
  | HTTP_CHECKOUT
  | HTTP_MERGE
  | HTTP_MSEARCH
  | HTTP_NOTIFY
  | HTTP_SUBSCRIBE
  | HTTP_UNSUBSCRIBE
  | HTTP_PATCH
  | HTTP_PURGE
  | HTTP_MKCALENDAR
  | HTTP_LINK
  | HTTP_UNLINK
  | HTTP_SOURCE

datatype http_parser_type = HTTP_REQUEST | HTTP_RESPONSE | HTTP_BOTH

text \<open>\<open>enum http_errno\<close>, from \<open>HTTP_ERRNO_MAP\<close>.\<close>

datatype (plugins only: code) http_errno =
    HPE_OK
  | HPE_CB_message_begin
  | HPE_CB_url
  | HPE_CB_header_field
  | HPE_CB_header_value
  | HPE_CB_headers_complete
  | HPE_CB_body
  | HPE_CB_message_complete
  | HPE_CB_status
  | HPE_CB_chunk_header
  | HPE_CB_chunk_complete
  | HPE_INVALID_EOF_STATE
  | HPE_HEADER_OVERFLOW
  | HPE_CLOSED_CONNECTION
  | HPE_INVALID_VERSION
  | HPE_INVALID_STATUS
  | HPE_INVALID_METHOD
  | HPE_INVALID_URL
  | HPE_INVALID_HOST
  | HPE_INVALID_PORT
  | HPE_INVALID_PATH
  | HPE_INVALID_QUERY_STRING
  | HPE_INVALID_FRAGMENT
  | HPE_LF_EXPECTED
  | HPE_INVALID_HEADER_TOKEN
  | HPE_INVALID_CONTENT_LENGTH
  | HPE_UNEXPECTED_CONTENT_LENGTH
  | HPE_INVALID_CHUNK_SIZE
  | HPE_INVALID_CONSTANT
  | HPE_INVALID_INTERNAL_STATE
  | HPE_STRICT
  | HPE_PAUSED
  | HPE_UNKNOWN
  | HPE_INVALID_TRANSFER_ENCODING

text \<open>\<open>enum state\<close>.\<close>

datatype (plugins only: code) hstate =
    s_dead
  | s_start_req_or_res
  | s_res_or_resp_H
  | s_start_res
  | s_res_H
  | s_res_HT
  | s_res_HTT
  | s_res_HTTP
  | s_res_http_major
  | s_res_http_dot
  | s_res_http_minor
  | s_res_http_end
  | s_res_first_status_code
  | s_res_status_code
  | s_res_status_start
  | s_res_status
  | s_res_line_almost_done
  | s_start_req
  | s_req_method
  | s_req_spaces_before_url
  | s_req_schema
  | s_req_schema_slash
  | s_req_schema_slash_slash
  | s_req_server_start
  | s_req_server
  | s_req_server_with_at
  | s_req_path
  | s_req_query_string_start
  | s_req_query_string
  | s_req_fragment_start
  | s_req_fragment
  | s_req_http_start
  | s_req_http_H
  | s_req_http_HT
  | s_req_http_HTT
  | s_req_http_HTTP
  | s_req_http_I
  | s_req_http_IC
  | s_req_http_major
  | s_req_http_dot
  | s_req_http_minor
  | s_req_http_end
  | s_req_line_almost_done
  | s_header_field_start
  | s_header_field
  | s_header_value_discard_ws
  | s_header_value_discard_ws_almost_done
  | s_header_value_discard_lws
  | s_header_value_start
  | s_header_value
  | s_header_value_lws
  | s_header_almost_done
  | s_chunk_size_start
  | s_chunk_size
  | s_chunk_parameters
  | s_chunk_size_almost_done
  | s_headers_almost_done
  | s_headers_done
  | s_chunk_data
  | s_chunk_data_almost_done
  | s_chunk_data_done
  | s_body_identity
  | s_body_identity_eof
  | s_message_done

text \<open>\<open>enum header_states\<close>.\<close>

datatype (plugins only: code) header_states =
    h_general
  | h_C
  | h_CO
  | h_CON
  | h_matching_connection
  | h_matching_proxy_connection
  | h_matching_content_length
  | h_matching_transfer_encoding
  | h_matching_upgrade
  | h_connection
  | h_content_length
  | h_content_length_num
  | h_content_length_ws
  | h_transfer_encoding
  | h_upgrade
  | h_matching_transfer_encoding_token_start
  | h_matching_transfer_encoding_chunked
  | h_matching_transfer_encoding_token
  | h_matching_connection_token_start
  | h_matching_connection_keep_alive
  | h_matching_connection_close
  | h_matching_connection_upgrade
  | h_matching_connection_token
  | h_transfer_encoding_chunked
  | h_connection_keep_alive
  | h_connection_close
  | h_connection_upgrade

text \<open>\<open>enum http_host_state\<close>.\<close>

datatype (plugins only: code) http_host_state =
    s_http_host_dead
  | s_http_userinfo_start
  | s_http_userinfo
  | s_http_host_start
  | s_http_host_v6_start
  | s_http_host
  | s_http_host_v6
  | s_http_host_v6_end
  | s_http_host_v6_zone_start
  | s_http_host_v6_zone
  | s_http_host_port_start
  | s_http_host_port

text \<open>\<open>enum flags\<close>: one bit each.\<close>

definition F_CHUNKED :: byte where "F_CHUNKED = push_bit 0 1"
definition F_CONNECTION_KEEP_ALIVE :: byte where "F_CONNECTION_KEEP_ALIVE = push_bit 1 1"
definition F_CONNECTION_CLOSE :: byte where "F_CONNECTION_CLOSE = push_bit 2 1"
definition F_CONNECTION_UPGRADE :: byte where "F_CONNECTION_UPGRADE = push_bit 3 1"
definition F_TRAILING :: byte where "F_TRAILING = push_bit 4 1"
definition F_UPGRADE :: byte where "F_UPGRADE = push_bit 5 1"
definition F_SKIPBODY :: byte where "F_SKIPBODY = push_bit 6 1"
definition F_CONTENTLENGTH :: byte where "F_CONTENTLENGTH = push_bit 7 1"

lemmas F_defs = F_CHUNKED_def F_CONNECTION_KEEP_ALIVE_def F_CONNECTION_CLOSE_def
  F_CONNECTION_UPGRADE_def F_TRAILING_def F_UPGRADE_def F_SKIPBODY_def F_CONTENTLENGTH_def

section \<open>The parser struct\<close>

text \<open>
  \<open>struct http_parser\<close> without the application pointer \<open>data\<close>, which the model passes as the state
  of the application. \<open>index\<close> is a 5 bit field; the other counters have their C widths.
\<close>

record http_parser =
  ptype :: http_parser_type
  flags :: byte
  state :: hstate
  header_state :: header_states
  index :: "5 word"
  uses_transfer_encoding :: bool
  allow_chunked_length :: bool
  lenient_http_headers :: bool
  nread :: u32
  content_length :: u64
  http_major :: u16
  http_minor :: u16
  status_code :: u16
  pmethod :: http_method
  http_errno :: http_errno
  upgrade :: bool

definition ULLONG_MAX :: u64 where "ULLONG_MAX = - 1"

definition HTTP_MAX_HEADER_SIZE :: u32 where "HTTP_MAX_HEADER_SIZE = 80 * 1024"

definition has_flag :: "http_parser \<Rightarrow> byte \<Rightarrow> bool" where
  "has_flag h f \<longleftrightarrow> flags h AND f \<noteq> 0"

definition set_flag :: "byte \<Rightarrow> http_parser \<Rightarrow> http_parser" where
  "set_flag f h = h\<lparr>flags := flags h OR f\<rparr>"

section \<open>Tables and strings\<close>

primrec method_strings :: "http_method \<Rightarrow> bytes" where
  "method_strings HTTP_DELETE = bstr ''DELETE''"
| "method_strings HTTP_GET = bstr ''GET''"
| "method_strings HTTP_HEAD = bstr ''HEAD''"
| "method_strings HTTP_POST = bstr ''POST''"
| "method_strings HTTP_PUT = bstr ''PUT''"
| "method_strings HTTP_CONNECT = bstr ''CONNECT''"
| "method_strings HTTP_OPTIONS = bstr ''OPTIONS''"
| "method_strings HTTP_TRACE = bstr ''TRACE''"
| "method_strings HTTP_COPY = bstr ''COPY''"
| "method_strings HTTP_LOCK = bstr ''LOCK''"
| "method_strings HTTP_MKCOL = bstr ''MKCOL''"
| "method_strings HTTP_MOVE = bstr ''MOVE''"
| "method_strings HTTP_PROPFIND = bstr ''PROPFIND''"
| "method_strings HTTP_PROPPATCH = bstr ''PROPPATCH''"
| "method_strings HTTP_SEARCH = bstr ''SEARCH''"
| "method_strings HTTP_UNLOCK = bstr ''UNLOCK''"
| "method_strings HTTP_BIND = bstr ''BIND''"
| "method_strings HTTP_REBIND = bstr ''REBIND''"
| "method_strings HTTP_UNBIND = bstr ''UNBIND''"
| "method_strings HTTP_ACL = bstr ''ACL''"
| "method_strings HTTP_REPORT = bstr ''REPORT''"
| "method_strings HTTP_MKACTIVITY = bstr ''MKACTIVITY''"
| "method_strings HTTP_CHECKOUT = bstr ''CHECKOUT''"
| "method_strings HTTP_MERGE = bstr ''MERGE''"
| "method_strings HTTP_MSEARCH = bstr ''M-SEARCH''"
| "method_strings HTTP_NOTIFY = bstr ''NOTIFY''"
| "method_strings HTTP_SUBSCRIBE = bstr ''SUBSCRIBE''"
| "method_strings HTTP_UNSUBSCRIBE = bstr ''UNSUBSCRIBE''"
| "method_strings HTTP_PATCH = bstr ''PATCH''"
| "method_strings HTTP_PURGE = bstr ''PURGE''"
| "method_strings HTTP_MKCALENDAR = bstr ''MKCALENDAR''"
| "method_strings HTTP_LINK = bstr ''LINK''"
| "method_strings HTTP_UNLINK = bstr ''UNLINK''"
| "method_strings HTTP_SOURCE = bstr ''SOURCE''"

text \<open>Reading a C string constant at an index, its terminating NUL included.\<close>

definition cstr_at :: "bytes \<Rightarrow> nat \<Rightarrow> byte" where
  "cstr_at s i = (if i < length s then s ! i else 0)"

definition CONNECTION :: bytes where "CONNECTION = bstr ''connection''"
definition PROXY_CONNECTION :: bytes where "PROXY_CONNECTION = bstr ''proxy-connection''"
definition CONTENT_LENGTH :: bytes where "CONTENT_LENGTH = bstr ''content-length''"
definition TRANSFER_ENCODING :: bytes where "TRANSFER_ENCODING = bstr ''transfer-encoding''"
definition UPGRADE :: bytes where "UPGRADE = bstr ''upgrade''"
definition CHUNKED :: bytes where "CHUNKED = bstr ''chunked''"
definition KEEP_ALIVE :: bytes where "KEEP_ALIVE = bstr ''keep-alive''"
definition CLOSE :: bytes where "CLOSE = bstr ''close''"

definition tokens :: "byte list" where
  "tokens =
    [0, 0, 0, 0, 0, 0, 0, 0, 0, 0, 0, 0, 0, 0, 0, 0,
     0, 0, 0, 0, 0, 0, 0, 0, 0, 0, 0, 0, 0, 0, 0, 0,
     32, 33, 0, 35, 36, 37, 38, 39, 0, 0, 42, 43, 0, 45, 46, 0,
     48, 49, 50, 51, 52, 53, 54, 55, 56, 57, 0, 0, 0, 0, 0, 0,
     0, 97, 98, 99, 100, 101, 102, 103, 104, 105, 106, 107, 108, 109, 110, 111,
     112, 113, 114, 115, 116, 117, 118, 119, 120, 121, 122, 0, 0, 0, 94, 95,
     96, 97, 98, 99, 100, 101, 102, 103, 104, 105, 106, 107, 108, 109, 110, 111,
     112, 113, 114, 115, 116, 117, 118, 119, 120, 121, 122, 0, 124, 0, 126, 0]
    @ replicate 128 0"

definition unhex :: "int list" where
  "unhex =
    [-1, -1, -1, -1, -1, -1, -1, -1, -1, -1, -1, -1, -1, -1, -1, -1,
     -1, -1, -1, -1, -1, -1, -1, -1, -1, -1, -1, -1, -1, -1, -1, -1,
     -1, -1, -1, -1, -1, -1, -1, -1, -1, -1, -1, -1, -1, -1, -1, -1,
     0, 1, 2, 3, 4, 5, 6, 7, 8, 9, -1, -1, -1, -1, -1, -1,
     -1, 10, 11, 12, 13, 14, 15, -1, -1, -1, -1, -1, -1, -1, -1, -1,
     -1, -1, -1, -1, -1, -1, -1, -1, -1, -1, -1, -1, -1, -1, -1, -1,
     -1, 10, 11, 12, 13, 14, 15, -1, -1, -1, -1, -1, -1, -1, -1, -1,
     -1, -1, -1, -1, -1, -1, -1, -1, -1, -1, -1, -1, -1, -1, -1, -1]
    @ replicate 128 0"

definition normal_url_char :: "byte list" where
  "normal_url_char =
    [0, 0, 0, 0, 246, 255, 255, 127, 255, 255, 255, 255, 255, 255, 255, 127]
    @ replicate 16 0"

text \<open>\<open>BIT_AT\<close>\<close>

definition BIT_AT :: "byte list \<Rightarrow> nat \<Rightarrow> bool" where
  "BIT_AT a i \<longleftrightarrow> (a ! (i div 8)) AND push_bit (i mod 8) 1 \<noteq> 0"

section \<open>Character classes\<close>

definition LOWER :: "byte \<Rightarrow> byte" where "LOWER c = c OR 0x20"

definition IS_ALPHA :: "byte \<Rightarrow> bool" where
  "IS_ALPHA c \<longleftrightarrow> B CHR ''a'' \<le> LOWER c \<and> LOWER c \<le> B CHR ''z''"

text \<open>\<open>char\<close> is signed: a byte of 128 and above is negative and below \<open>'0'\<close>.\<close>

definition IS_NUM :: "byte \<Rightarrow> bool" where
  "IS_NUM c \<longleftrightarrow> sint (B CHR ''0'') \<le> sint c \<and> sint c \<le> sint (B CHR ''9'')"

definition IS_ALPHANUM :: "byte \<Rightarrow> bool" where
  "IS_ALPHANUM c \<longleftrightarrow> IS_ALPHA c \<or> IS_NUM c"

definition IS_HEX :: "byte \<Rightarrow> bool" where
  "IS_HEX c \<longleftrightarrow> IS_NUM c \<or> (B CHR ''a'' \<le> LOWER c \<and> LOWER c \<le> B CHR ''f'')"

definition IS_MARK :: "byte \<Rightarrow> bool" where
  "IS_MARK c \<longleftrightarrow> c \<in> set (bstr ''-_.!~*'' @ [39] @ bstr ''()'')"

definition IS_USERINFO_CHAR :: "byte \<Rightarrow> bool" where
  "IS_USERINFO_CHAR c \<longleftrightarrow> IS_ALPHANUM c \<or> IS_MARK c \<or> c \<in> set (bstr ''%;:&=+$,'')"

definition STRICT_TOKEN :: "byte \<Rightarrow> byte" where
  "STRICT_TOKEN c = (if c = B CHR '' '' then 0 else tokens ! unat c)"

definition TOKEN :: "byte \<Rightarrow> byte" where "TOKEN c = STRICT_TOKEN c"

definition IS_URL_CHAR :: "byte \<Rightarrow> bool" where
  "IS_URL_CHAR c \<longleftrightarrow> BIT_AT normal_url_char (unat c)"

definition IS_HOST_CHAR :: "byte \<Rightarrow> bool" where
  "IS_HOST_CHAR c \<longleftrightarrow> IS_ALPHANUM c \<or> c = B CHR ''.'' \<or> c = B CHR ''-''"

definition IS_HEADER_CHAR :: "byte \<Rightarrow> bool" where
  "IS_HEADER_CHAR ch \<longleftrightarrow> ch = CR \<or> ch = LF \<or> ch = 9 \<or> (31 < ch \<and> ch \<noteq> 127)"

text \<open>\<open>PARSING_HEADER\<close>: the states up to \<open>s_headers_done\<close>.\<close>

definition PARSING_HEADER :: "hstate \<Rightarrow> bool" where
  "PARSING_HEADER s \<longleftrightarrow> s \<notin> {s_chunk_data, s_chunk_data_almost_done, s_chunk_data_done,
     s_body_identity, s_body_identity_eof, s_message_done}"

section \<open>Names\<close>

definition http_method_str :: "http_method \<Rightarrow> bytes" where
  "http_method_str m = method_strings m"

text \<open>\<open>http_status_str\<close>, the table \<open>HTTP_STATUS_MAP\<close> searched by number.\<close>

definition HTTP_STATUS_MAP :: "(nat \<times> string) list" where
  "HTTP_STATUS_MAP =
    [(100, ''Continue''),
     (101, ''Switching Protocols''),
     (102, ''Processing''),
     (200, ''OK''),
     (201, ''Created''),
     (202, ''Accepted''),
     (203, ''Non-Authoritative Information''),
     (204, ''No Content''),
     (205, ''Reset Content''),
     (206, ''Partial Content''),
     (207, ''Multi-Status''),
     (208, ''Already Reported''),
     (226, ''IM Used''),
     (300, ''Multiple Choices''),
     (301, ''Moved Permanently''),
     (302, ''Found''),
     (303, ''See Other''),
     (304, ''Not Modified''),
     (305, ''Use Proxy''),
     (307, ''Temporary Redirect''),
     (308, ''Permanent Redirect''),
     (400, ''Bad Request''),
     (401, ''Unauthorized''),
     (402, ''Payment Required''),
     (403, ''Forbidden''),
     (404, ''Not Found''),
     (405, ''Method Not Allowed''),
     (406, ''Not Acceptable''),
     (407, ''Proxy Authentication Required''),
     (408, ''Request Timeout''),
     (409, ''Conflict''),
     (410, ''Gone''),
     (411, ''Length Required''),
     (412, ''Precondition Failed''),
     (413, ''Payload Too Large''),
     (414, ''URI Too Long''),
     (415, ''Unsupported Media Type''),
     (416, ''Range Not Satisfiable''),
     (417, ''Expectation Failed''),
     (421, ''Misdirected Request''),
     (422, ''Unprocessable Entity''),
     (423, ''Locked''),
     (424, ''Failed Dependency''),
     (426, ''Upgrade Required''),
     (428, ''Precondition Required''),
     (429, ''Too Many Requests''),
     (431, ''Request Header Fields Too Large''),
     (451, ''Unavailable For Legal Reasons''),
     (500, ''Internal Server Error''),
     (501, ''Not Implemented''),
     (502, ''Bad Gateway''),
     (503, ''Service Unavailable''),
     (504, ''Gateway Timeout''),
     (505, ''HTTP Version Not Supported''),
     (506, ''Variant Also Negotiates''),
     (507, ''Insufficient Storage''),
     (508, ''Loop Detected''),
     (510, ''Not Extended''),
     (511, ''Network Authentication Required'')]"

definition http_status_str :: "nat \<Rightarrow> string" where
  "http_status_str s = (case map_of HTTP_STATUS_MAP s of None \<Rightarrow> ''<unknown>'' | Some n \<Rightarrow> n)"

text \<open>\<open>http_strerror_tab\<close> with \<open>http_errno_name\<close> and \<open>http_errno_description\<close>.\<close>

primrec http_strerror_tab :: "http_errno \<Rightarrow> string \<times> string" where
  "http_strerror_tab HPE_OK = (''HPE_OK'', ''success'')"
| "http_strerror_tab HPE_CB_message_begin = (''HPE_CB_message_begin'', ''the on_message_begin callback failed'')"
| "http_strerror_tab HPE_CB_url = (''HPE_CB_url'', ''the on_url callback failed'')"
| "http_strerror_tab HPE_CB_header_field = (''HPE_CB_header_field'', ''the on_header_field callback failed'')"
| "http_strerror_tab HPE_CB_header_value = (''HPE_CB_header_value'', ''the on_header_value callback failed'')"
| "http_strerror_tab HPE_CB_headers_complete = (''HPE_CB_headers_complete'', ''the on_headers_complete callback failed'')"
| "http_strerror_tab HPE_CB_body = (''HPE_CB_body'', ''the on_body callback failed'')"
| "http_strerror_tab HPE_CB_message_complete = (''HPE_CB_message_complete'', ''the on_message_complete callback failed'')"
| "http_strerror_tab HPE_CB_status = (''HPE_CB_status'', ''the on_status callback failed'')"
| "http_strerror_tab HPE_CB_chunk_header = (''HPE_CB_chunk_header'', ''the on_chunk_header callback failed'')"
| "http_strerror_tab HPE_CB_chunk_complete = (''HPE_CB_chunk_complete'', ''the on_chunk_complete callback failed'')"
| "http_strerror_tab HPE_INVALID_EOF_STATE = (''HPE_INVALID_EOF_STATE'', ''stream ended at an unexpected time'')"
| "http_strerror_tab HPE_HEADER_OVERFLOW = (''HPE_HEADER_OVERFLOW'', ''too many header bytes seen; overflow detected'')"
| "http_strerror_tab HPE_CLOSED_CONNECTION = (''HPE_CLOSED_CONNECTION'', ''data received after completed connection: close message'')"
| "http_strerror_tab HPE_INVALID_VERSION = (''HPE_INVALID_VERSION'', ''invalid HTTP version'')"
| "http_strerror_tab HPE_INVALID_STATUS = (''HPE_INVALID_STATUS'', ''invalid HTTP status code'')"
| "http_strerror_tab HPE_INVALID_METHOD = (''HPE_INVALID_METHOD'', ''invalid HTTP method'')"
| "http_strerror_tab HPE_INVALID_URL = (''HPE_INVALID_URL'', ''invalid URL'')"
| "http_strerror_tab HPE_INVALID_HOST = (''HPE_INVALID_HOST'', ''invalid host'')"
| "http_strerror_tab HPE_INVALID_PORT = (''HPE_INVALID_PORT'', ''invalid port'')"
| "http_strerror_tab HPE_INVALID_PATH = (''HPE_INVALID_PATH'', ''invalid path'')"
| "http_strerror_tab HPE_INVALID_QUERY_STRING = (''HPE_INVALID_QUERY_STRING'', ''invalid query string'')"
| "http_strerror_tab HPE_INVALID_FRAGMENT = (''HPE_INVALID_FRAGMENT'', ''invalid fragment'')"
| "http_strerror_tab HPE_LF_EXPECTED = (''HPE_LF_EXPECTED'', ''LF character expected'')"
| "http_strerror_tab HPE_INVALID_HEADER_TOKEN = (''HPE_INVALID_HEADER_TOKEN'', ''invalid character in header'')"
| "http_strerror_tab HPE_INVALID_CONTENT_LENGTH = (''HPE_INVALID_CONTENT_LENGTH'', ''invalid character in content-length header'')"
| "http_strerror_tab HPE_UNEXPECTED_CONTENT_LENGTH = (''HPE_UNEXPECTED_CONTENT_LENGTH'', ''unexpected content-length header'')"
| "http_strerror_tab HPE_INVALID_CHUNK_SIZE = (''HPE_INVALID_CHUNK_SIZE'', ''invalid character in chunk size header'')"
| "http_strerror_tab HPE_INVALID_CONSTANT = (''HPE_INVALID_CONSTANT'', ''invalid constant string'')"
| "http_strerror_tab HPE_INVALID_INTERNAL_STATE = (''HPE_INVALID_INTERNAL_STATE'', ''encountered unexpected internal state'')"
| "http_strerror_tab HPE_STRICT = (''HPE_STRICT'', ''strict mode assertion failed'')"
| "http_strerror_tab HPE_PAUSED = (''HPE_PAUSED'', ''parser is paused'')"
| "http_strerror_tab HPE_UNKNOWN = (''HPE_UNKNOWN'', ''an unknown error occurred'')"
| "http_strerror_tab HPE_INVALID_TRANSFER_ENCODING = (''HPE_INVALID_TRANSFER_ENCODING'', ''request has invalid transfer-encoding'')"

definition http_errno_name :: "http_errno \<Rightarrow> string" where
  "http_errno_name e = fst (http_strerror_tab e)"

definition http_errno_description :: "http_errno \<Rightarrow> string" where
  "http_errno_description e = snd (http_strerror_tab e)"

end
