(* ===== verification/Hp_Url.thy ===== *)
theory Hp_Url
  imports Hp_Types
begin

text \<open>
  The URL parser of \<open>http_parser.c\<close>: the character automaton \<open>parse_url_char\<close> that
  \<open>http_parser_execute\<close> also uses for the request target, the authority automaton
  \<open>http_parse_host_char\<close>, and \<open>http_parser_parse_url\<close>, which turns their transitions into fields.
  Offsets and lengths are the 16 bit fields of \<open>struct http_parser_url\<close>.
\<close>

section \<open>The URL automaton\<close>

definition url_server_char :: "byte \<Rightarrow> hstate" where
  "url_server_char ch =
     (if ch = B CHR ''/'' then s_req_path
      else if ch = B CHR ''?'' then s_req_query_string_start
      else if ch = B CHR ''@'' then s_req_server_with_at
      else if IS_USERINFO_CHAR ch \<or> ch = B CHR ''['' \<or> ch = B CHR '']'' then s_req_server
      else s_dead)"

definition parse_url_char :: "hstate \<Rightarrow> byte \<Rightarrow> hstate" where
  "parse_url_char s ch =
     (if ch = B CHR '' '' \<or> ch = CR \<or> ch = LF then s_dead
      else if ch = 9 \<or> ch = 12 then s_dead
      else if s = s_req_spaces_before_url then
        (if ch = B CHR ''/'' \<or> ch = B CHR ''*'' then s_req_path
         else if IS_ALPHA ch then s_req_schema else s_dead)
      else if s = s_req_schema then
        (if IS_ALPHA ch then s else if ch = B CHR '':'' then s_req_schema_slash else s_dead)
      else if s = s_req_schema_slash then
        (if ch = B CHR ''/'' then s_req_schema_slash_slash else s_dead)
      else if s = s_req_schema_slash_slash then
        (if ch = B CHR ''/'' then s_req_server_start else s_dead)
      else if s = s_req_server_with_at then
        (if ch = B CHR ''@'' then s_dead else url_server_char ch)
      else if s = s_req_server_start \<or> s = s_req_server then url_server_char ch
      else if s = s_req_path then
        (if IS_URL_CHAR ch then s
         else if ch = B CHR ''?'' then s_req_query_string_start
         else if ch = B CHR ''#'' then s_req_fragment_start else s_dead)
      else if s = s_req_query_string_start \<or> s = s_req_query_string then
        (if IS_URL_CHAR ch then s_req_query_string
         else if ch = B CHR ''?'' then s_req_query_string
         else if ch = B CHR ''#'' then s_req_fragment_start else s_dead)
      else if s = s_req_fragment_start then
        (if IS_URL_CHAR ch then s_req_fragment
         else if ch = B CHR ''?'' then s_req_fragment
         else if ch = B CHR ''#'' then s else s_dead)
      else if s = s_req_fragment then
        (if IS_URL_CHAR ch then s
         else if ch = B CHR ''?'' \<or> ch = B CHR ''#'' then s else s_dead)
      else s_dead)"

section \<open>The authority automaton\<close>

definition http_parse_host_char :: "http_host_state \<Rightarrow> byte \<Rightarrow> http_host_state" where
  "http_parse_host_char s ch =
     (let port = (if ch = B CHR '':'' then s_http_host_port_start else s_http_host_dead);
          v6 = (if IS_HEX ch \<or> ch = B CHR '':'' \<or> ch = B CHR ''.'' then s_http_host_v6
                else if s = s_http_host_v6 \<and> ch = B CHR ''%'' then s_http_host_v6_zone_start
                else s_http_host_dead);
          zone = (if IS_ALPHANUM ch \<or> ch \<in> set (bstr ''%.-_~'') then s_http_host_v6_zone
                  else s_http_host_dead)
      in if s = s_http_userinfo \<or> s = s_http_userinfo_start then
           (if ch = B CHR ''@'' then s_http_host_start
            else if IS_USERINFO_CHAR ch then s_http_userinfo else s_http_host_dead)
         else if s = s_http_host_start then
           (if ch = B CHR ''['' then s_http_host_v6_start
            else if IS_HOST_CHAR ch then s_http_host else s_http_host_dead)
         else if s = s_http_host then (if IS_HOST_CHAR ch then s_http_host else port)
         else if s = s_http_host_v6_end then port
         else if s = s_http_host_v6 then (if ch = B CHR '']'' then s_http_host_v6_end else v6)
         else if s = s_http_host_v6_start then v6
         else if s = s_http_host_v6_zone then (if ch = B CHR '']'' then s_http_host_v6_end else zone)
         else if s = s_http_host_v6_zone_start then zone
         else if s = s_http_host_port \<or> s = s_http_host_port_start then
           (if IS_NUM ch then s_http_host_port else s_http_host_dead)
         else s_http_host_dead)"

section \<open>Fields\<close>

datatype http_parser_url_fields =
  UF_SCHEMA | UF_HOST | UF_PORT | UF_PATH | UF_QUERY | UF_FRAGMENT | UF_USERINFO | UF_MAX

text \<open>\<open>struct http_parser_url\<close>; \<open>field_set\<close> is the set of fields whose bit is set.\<close>

record http_parser_url =
  field_set :: "http_parser_url_fields list"
  uport :: u16
  field_data :: "http_parser_url_fields \<Rightarrow> u16 \<times> u16"

definition http_parser_url_init :: http_parser_url where
  "http_parser_url_init = \<lparr>field_set = [], uport = 0, field_data = (\<lambda>_. (0, 0))\<rparr>"

definition field_off :: "http_parser_url_fields \<Rightarrow> http_parser_url \<Rightarrow> u16" where
  "field_off uf u = fst (field_data u uf)"

definition field_len :: "http_parser_url_fields \<Rightarrow> http_parser_url \<Rightarrow> u16" where
  "field_len uf u = snd (field_data u uf)"

definition set_field :: "http_parser_url_fields \<Rightarrow> u16 \<Rightarrow> u16 \<Rightarrow> http_parser_url \<Rightarrow> http_parser_url" where
  "set_field uf off len u = u\<lparr>field_data := (field_data u)(uf := (off, len))\<rparr>"

definition mark_field :: "http_parser_url_fields \<Rightarrow> http_parser_url \<Rightarrow> http_parser_url" where
  "mark_field uf u = u\<lparr>field_set := List.insert uf (field_set u)\<rparr>"

definition incr_len :: "http_parser_url_fields \<Rightarrow> http_parser_url \<Rightarrow> http_parser_url" where
  "incr_len uf u = set_field uf (field_off uf u) (field_len uf u + 1) u"

section \<open>http\_parse\_host\<close>

definition host_field :: "http_host_state \<Rightarrow> http_host_state \<Rightarrow> nat \<Rightarrow> http_parser_url \<Rightarrow> http_parser_url" where
  "host_field s new_s p u =
     (if new_s = s_http_host then
        incr_len UF_HOST (if s \<noteq> s_http_host then set_field UF_HOST (of_nat p) (field_len UF_HOST u) u else u)
      else if new_s = s_http_host_v6 then
        incr_len UF_HOST (if s \<noteq> s_http_host_v6 then set_field UF_HOST (of_nat p) (field_len UF_HOST u) u else u)
      else if new_s = s_http_host_v6_zone_start \<or> new_s = s_http_host_v6_zone then incr_len UF_HOST u
      else if new_s = s_http_host_port then
        incr_len UF_PORT (if s \<noteq> s_http_host_port
                          then mark_field UF_PORT (set_field UF_PORT (of_nat p) 0 u) else u)
      else if new_s = s_http_userinfo then
        incr_len UF_USERINFO (if s \<noteq> s_http_userinfo
                              then mark_field UF_USERINFO (set_field UF_USERINFO (of_nat p) 0 u) else u)
      else u)"

text \<open>The loop, over the bytes that are left and the offset of the first of them.\<close>

fun host_loop :: "bytes \<Rightarrow> nat \<Rightarrow> http_host_state \<Rightarrow> http_parser_url \<Rightarrow> (http_host_state \<times> http_parser_url) option" where
  "host_loop [] p s u = Some (s, u)"
| "host_loop (ch # rest) p s u =
     (let new_s = http_parse_host_char s ch
      in if new_s = s_http_host_dead then None
         else host_loop rest (Suc p) new_s (host_field s new_s p u))"

definition http_parse_host :: "bytes \<Rightarrow> bool \<Rightarrow> http_parser_url \<Rightarrow> http_parser_url option" where
  "http_parse_host buf found_at u =
     (let off = unat (field_off UF_HOST u); len = unat (field_len UF_HOST u)
      in case host_loop (take len (drop off buf)) off
                (if found_at then s_http_userinfo_start else s_http_host_start)
                (set_field UF_HOST (field_off UF_HOST u) 0 u) of
           None \<Rightarrow> None
         | Some (s, u) \<Rightarrow>
             if s \<in> {s_http_host_start, s_http_host_v6_start, s_http_host_v6, s_http_host_v6_zone_start,
                     s_http_host_v6_zone, s_http_host_port_start, s_http_userinfo, s_http_userinfo_start}
             then None else Some u)"

section \<open>http\_parser\_parse\_url\<close>

text \<open>The field a state belongs to; \<open>None\<close> for the states that are delimiters.\<close>

definition url_field_of :: "hstate \<Rightarrow> http_parser_url_fields option" where
  "url_field_of s =
     (if s = s_req_schema then Some UF_SCHEMA
      else if s = s_req_server_with_at \<or> s = s_req_server then Some UF_HOST
      else if s = s_req_path then Some UF_PATH
      else if s = s_req_query_string then Some UF_QUERY
      else if s = s_req_fragment then Some UF_FRAGMENT
      else None)"

fun url_loop ::
  "bytes \<Rightarrow> nat \<Rightarrow> hstate \<Rightarrow> http_parser_url_fields \<Rightarrow> bool \<Rightarrow> http_parser_url
   \<Rightarrow> (bool \<times> http_parser_url) option" where
  "url_loop [] p s old_uf found_at u = Some (found_at, u)"
| "url_loop (ch # rest) p s old_uf found_at u =
     (let s = parse_url_char s ch
      in if s = s_dead then None
         else case url_field_of s of
           None \<Rightarrow> url_loop rest (Suc p) s old_uf found_at u
         | Some uf \<Rightarrow>
             (let found_at = (found_at \<or> s = s_req_server_with_at)
              in if uf = old_uf then url_loop rest (Suc p) s old_uf found_at (incr_len uf u)
                 else url_loop rest (Suc p) s uf found_at
                        (mark_field uf (set_field uf (of_nat p) 1 u))))"

text \<open>The decimal loop over the port, with its upper bound.\<close>

fun port_loop :: "bytes \<Rightarrow> nat \<Rightarrow> nat option" where
  "port_loop [] v = Some v"
| "port_loop (c # rest) v =
     (let v = v * 10 + (unat c - 48) in if v > 0xffff then None else port_loop rest v)"

definition http_parser_parse_url :: "bytes \<Rightarrow> bool \<Rightarrow> http_parser_url \<Rightarrow> http_parser_url option" where
  "http_parser_parse_url buf is_connect u =
     (if buf = [] then None
      else case url_loop buf 0 (if is_connect then s_req_server_start else s_req_spaces_before_url)
                  UF_MAX False (u\<lparr>uport := 0, field_set := []\<rparr>) of
        None \<Rightarrow> None
      | Some (found_at, u) \<Rightarrow>
          if UF_SCHEMA \<in> set (field_set u) \<and> UF_HOST \<notin> set (field_set u) then None
          else case (if UF_HOST \<in> set (field_set u) then http_parse_host buf found_at u else Some u) of
            None \<Rightarrow> None
          | Some u \<Rightarrow>
              if is_connect \<and> set (field_set u) \<noteq> {UF_HOST, UF_PORT} then None
              else if UF_PORT \<in> set (field_set u) then
                (case port_loop (take (unat (field_len UF_PORT u)) (drop (unat (field_off UF_PORT u)) buf)) 0 of
                   None \<Rightarrow> None
                 | Some v \<Rightarrow> Some (u\<lparr>uport := of_nat v\<rparr>))
              else Some u)"

end
