(* ===== verification/Hp_Machine.thy ===== *)
theory Hp_Machine
  imports Hp_Types
begin

text \<open>
  The machinery of \<open>http_parser_execute\<close>: its local variables and parameters, the callback table,
  the macros its \<open>switch\<close> is written in, and the small functions on the parser struct
  (\<open>http_parser_init\<close>, \<open>http_message_needs_eof\<close>, \<open>http_should_keep_alive\<close>, \<open>http_parser_pause\<close>).

  A callback reads the parser and may pause it (\<open>http_parser_pause\<close>), the one change the interface
  documents: it returns its \<open>int\<close>, whether it paused, and the application state. A failed \<open>assert\<close>, or a read past the end of a string constant,
  is the outcome \<open>Abort\<close>.
\<close>

section \<open>Parameters and locals\<close>

type_synonym 's notify_cb = "http_parser \<Rightarrow> 's \<Rightarrow> int \<times> bool \<times> 's"
type_synonym 's data_cb = "http_parser \<Rightarrow> bytes \<Rightarrow> 's \<Rightarrow> int \<times> bool \<times> 's"

record 's http_parser_settings =
  on_message_begin :: "'s notify_cb option"
  on_url :: "'s data_cb option"
  on_status :: "'s data_cb option"
  on_header_field :: "'s data_cb option"
  on_header_value :: "'s data_cb option"
  on_headers_complete :: "'s notify_cb option"
  on_body :: "'s data_cb option"
  on_message_complete :: "'s notify_cb option"
  on_chunk_header :: "'s notify_cb option"
  on_chunk_complete :: "'s notify_cb option"

definition http_parser_settings_init :: "'s http_parser_settings" where
  "http_parser_settings_init =
     \<lparr>on_message_begin = None, on_url = None, on_status = None, on_header_field = None,
      on_header_value = None, on_headers_complete = None, on_body = None,
      on_message_complete = None, on_chunk_header = None, on_chunk_complete = None\<rparr>"

text \<open>The five mark pointers, one per data callback; a mark is an offset into the buffer or null.\<close>

datatype mark = header_field_mark | header_value_mark | url_mark | body_mark | status_mark

primrec data_cb_of :: "mark \<Rightarrow> 's http_parser_settings \<Rightarrow> 's data_cb option" where
  "data_cb_of header_field_mark st = on_header_field st"
| "data_cb_of header_value_mark st = on_header_value st"
| "data_cb_of url_mark st = on_url st"
| "data_cb_of body_mark st = on_body st"
| "data_cb_of status_mark st = on_status st"

primrec data_cb_errno :: "mark \<Rightarrow> http_errno" where
  "data_cb_errno header_field_mark = HPE_CB_header_field"
| "data_cb_errno header_value_mark = HPE_CB_header_value"
| "data_cb_errno url_mark = HPE_CB_url"
| "data_cb_errno body_mark = HPE_CB_body"
| "data_cb_errno status_mark = HPE_CB_status"

text \<open>What does not change during a call: the arguments, the global limit and the \<open>const\<close> locals.\<close>

record 's exec_env =
  settings :: "'s http_parser_settings"
  max_header_size :: u32
  input :: bytes
  lenient :: bool
  allow_chunked :: bool

text \<open>What does: the parser struct, the locals \<open>p_state\<close> and \<open>nread\<close>, the marks, the application.\<close>

record 's exec =
  hp :: http_parser
  p_state :: hstate
  cnt :: u32
  marks :: "mark \<Rightarrow> nat option"
  app :: 's

text \<open>
  One pass through the \<open>switch\<close> ends in \<open>break\<close> with the position \<open>p\<close> it left, in a \<open>return\<close>, or in
  a failed assertion.
\<close>

datatype 's outcome =
    Break "'s exec" nat
  | Done http_parser 's nat
  | Abort

section \<open>Macros\<close>

definition UPDATE_STATE :: "hstate \<Rightarrow> 's exec \<Rightarrow> 's exec" where
  "UPDATE_STATE s c = c\<lparr>p_state := s\<rparr>"

definition upd_hp :: "(http_parser \<Rightarrow> http_parser) \<Rightarrow> 's exec \<Rightarrow> 's exec" where
  "upd_hp f c = c\<lparr>hp := f (hp c)\<rparr>"

definition SET_ERRNO :: "http_errno \<Rightarrow> 's exec \<Rightarrow> 's exec" where
  "SET_ERRNO e c = upd_hp (\<lambda>h. h\<lparr>nread := cnt c, http_errno := e\<rparr>) c"

definition RETURN :: "'s exec \<Rightarrow> nat \<Rightarrow> 's outcome" where
  "RETURN c v = Done ((hp c)\<lparr>nread := cnt c, state := p_state c\<rparr>) (app c) v"

text \<open>\<open>SET_ERRNO(e); goto error;\<close> with the code at the label.\<close>

definition error_label :: "'s exec \<Rightarrow> nat \<Rightarrow> 's outcome" where
  "error_label c p =
     RETURN (if http_errno (hp c) = HPE_OK then SET_ERRNO HPE_UNKNOWN c else c) p"

definition fail :: "http_errno \<Rightarrow> nat \<Rightarrow> 's exec \<Rightarrow> 's outcome" where
  "fail e p c = error_label (SET_ERRNO e c) p"

definition assert_that :: "bool \<Rightarrow> ('s exec \<Rightarrow> 's outcome) \<Rightarrow> 's exec \<Rightarrow> 's outcome" where
  "assert_that b k c = (if b then k c else Abort)"

definition STRICT_CHECK :: "bool \<Rightarrow> nat \<Rightarrow> ('s exec \<Rightarrow> 's outcome) \<Rightarrow> 's exec \<Rightarrow> 's outcome" where
  "STRICT_CHECK b p k c = (if b then fail HPE_STRICT p c else k c)"

definition COUNT_HEADER_SIZE ::
  "'s exec_env \<Rightarrow> nat \<Rightarrow> nat \<Rightarrow> ('s exec \<Rightarrow> 's outcome) \<Rightarrow> 's exec \<Rightarrow> 's outcome" where
  "COUNT_HEADER_SIZE e v p k c =
     (let c = c\<lparr>cnt := cnt c + of_nat v\<rparr>
      in if max_header_size e < cnt c then fail HPE_HEADER_OVERFLOW p c else k c)"

definition MARK :: "mark \<Rightarrow> nat \<Rightarrow> 's exec \<Rightarrow> 's exec" where
  "MARK m p c = (case marks c m of None \<Rightarrow> c\<lparr>marks := (marks c)(m := Some p)\<rparr> | Some _ \<Rightarrow> c)"

text \<open>
  The common part of the callback macros: what follows the call, once it has returned \<open>r\<close>, left
  the application state \<open>s\<close> and paused the parser or not.
\<close>

definition leave_callback :: "bool \<Rightarrow> 's \<Rightarrow> 's exec \<Rightarrow> 's exec" where
  "leave_callback paused s c =
     c\<lparr>hp := (if paused then (hp c)\<lparr>http_errno := HPE_PAUSED\<rparr> else hp c), app := s\<rparr>"

definition after_callback ::
  "http_errno \<Rightarrow> nat \<Rightarrow> ('s exec \<Rightarrow> 's outcome) \<Rightarrow> 's exec \<Rightarrow> int \<times> bool \<times> 's \<Rightarrow> 's outcome" where
  "after_callback e er k c res =
     (case res of (r, paused, s) \<Rightarrow>
       let c = leave_callback paused s c;
           c = (if r \<noteq> 0 then SET_ERRNO e c else c);
           c = UPDATE_STATE (state (hp c)) c
       in if http_errno (hp c) \<noteq> HPE_OK then Done (hp c) (app c) er else k c)"

definition CALLBACK_NOTIFY_er ::
  "'s notify_cb option \<Rightarrow> http_errno \<Rightarrow> nat \<Rightarrow> ('s exec \<Rightarrow> 's outcome) \<Rightarrow> 's exec \<Rightarrow> 's outcome" where
  "CALLBACK_NOTIFY_er cb e er k c =
     assert_that (http_errno (hp c) = HPE_OK)
       (\<lambda>c. case cb of
          None \<Rightarrow> k c
        | Some f \<Rightarrow>
            let c = upd_hp (\<lambda>h. h\<lparr>state := p_state c\<rparr>) c in after_callback e er k c (f (hp c) (app c))) c"

definition CALLBACK_NOTIFY ::
  "'s notify_cb option \<Rightarrow> http_errno \<Rightarrow> nat \<Rightarrow> ('s exec \<Rightarrow> 's outcome) \<Rightarrow> 's exec \<Rightarrow> 's outcome" where
  "CALLBACK_NOTIFY cb e p k c = CALLBACK_NOTIFY_er cb e (p + 1) k c"

definition CALLBACK_NOTIFY_NOADVANCE ::
  "'s notify_cb option \<Rightarrow> http_errno \<Rightarrow> nat \<Rightarrow> ('s exec \<Rightarrow> 's outcome) \<Rightarrow> 's exec \<Rightarrow> 's outcome" where
  "CALLBACK_NOTIFY_NOADVANCE cb e p k c = CALLBACK_NOTIFY_er cb e p k c"

text \<open>\<open>CALLBACK_DATA_(FOR, q - FOR_mark, er)\<close>: the data runs from the mark to the offset \<open>q\<close>.\<close>

definition CALLBACK_DATA_er ::
  "'s exec_env \<Rightarrow> mark \<Rightarrow> nat \<Rightarrow> nat \<Rightarrow> ('s exec \<Rightarrow> 's outcome) \<Rightarrow> 's exec \<Rightarrow> 's outcome" where
  "CALLBACK_DATA_er e m q er k c =
     assert_that (http_errno (hp c) = HPE_OK)
       (\<lambda>c. case marks c m of
          None \<Rightarrow> k c
        | Some s \<Rightarrow>
            let k = (\<lambda>c. k (c\<lparr>marks := (marks c)(m := None)\<rparr>))
            in case data_cb_of m (settings e) of
                 None \<Rightarrow> k c
               | Some f \<Rightarrow>
                   let c = upd_hp (\<lambda>h. h\<lparr>state := p_state c\<rparr>) c
                   in after_callback (data_cb_errno m) er k c
                        (f (hp c) (take (q - s) (drop s (input e))) (app c))) c"

definition CALLBACK_DATA ::
  "'s exec_env \<Rightarrow> mark \<Rightarrow> nat \<Rightarrow> ('s exec \<Rightarrow> 's outcome) \<Rightarrow> 's exec \<Rightarrow> 's outcome" where
  "CALLBACK_DATA e m p k c = CALLBACK_DATA_er e m p (p + 1) k c"

definition CALLBACK_DATA_NOADVANCE ::
  "'s exec_env \<Rightarrow> mark \<Rightarrow> nat \<Rightarrow> ('s exec \<Rightarrow> 's outcome) \<Rightarrow> 's exec \<Rightarrow> 's outcome" where
  "CALLBACK_DATA_NOADVANCE e m p k c = CALLBACK_DATA_er e m p p k c"

section \<open>Functions on the parser\<close>

definition http_message_needs_eof :: "http_parser \<Rightarrow> bool" where
  "http_message_needs_eof h =
     (if ptype h = HTTP_REQUEST then False
      else if status_code h div 100 = 1 \<or> status_code h = 204 \<or> status_code h = 304
              \<or> has_flag h F_SKIPBODY then False
      else if uses_transfer_encoding h \<and> \<not> has_flag h F_CHUNKED then True
      else if has_flag h F_CHUNKED \<or> content_length h \<noteq> ULLONG_MAX then False
      else True)"

definition http_should_keep_alive :: "http_parser \<Rightarrow> bool" where
  "http_should_keep_alive h =
     (if 0 < http_major h \<and> 0 < http_minor h then
        (if has_flag h F_CONNECTION_CLOSE then False else \<not> http_message_needs_eof h)
      else
        (if \<not> has_flag h F_CONNECTION_KEEP_ALIVE then False else \<not> http_message_needs_eof h))"

definition start_state :: "http_parser \<Rightarrow> hstate" where
  "start_state h = (if ptype h = HTTP_REQUEST then s_start_req else s_start_res)"

definition NEW_MESSAGE :: "http_parser \<Rightarrow> hstate" where
  "NEW_MESSAGE h = (if http_should_keep_alive h then start_state h else s_dead)"

text \<open>\<open>memset\<close> to zero: the first enumerator of each enumeration, and zero in every counter.\<close>

definition http_parser_init :: "http_parser_type \<Rightarrow> http_parser" where
  "http_parser_init t =
     \<lparr>ptype = t, flags = 0,
      state = (if t = HTTP_REQUEST then s_start_req
               else if t = HTTP_RESPONSE then s_start_res else s_start_req_or_res),
      header_state = h_general, index = 0, uses_transfer_encoding = False,
      allow_chunked_length = False, lenient_http_headers = False, nread = 0, content_length = 0,
      http_major = 0, http_minor = 0, status_code = 0, pmethod = HTTP_DELETE, http_errno = HPE_OK,
      upgrade = False\<rparr>"

text \<open>\<open>None\<close> is the failed assertion "Attempting to pause parser in error state".\<close>

definition http_parser_pause :: "http_parser \<Rightarrow> bool \<Rightarrow> http_parser option" where
  "http_parser_pause h paused =
     (if http_errno h = HPE_OK \<or> http_errno h = HPE_PAUSED
      then Some (h\<lparr>http_errno := (if paused then HPE_PAUSED else HPE_OK)\<rparr>) else None)"

definition http_body_is_final :: "http_parser \<Rightarrow> bool" where
  "http_body_is_final h \<longleftrightarrow> state h = s_message_done"

definition http_parser_version :: nat where
  "http_parser_version = 2 * 0x10000 + 9 * 0x100 + 4"

end
