(* ===== verification/Hp_Start.thy ===== *)
theory Hp_Start
  imports Hp_Machine Hp_Url
begin

text \<open>
  The cases of the \<open>switch\<close> of \<open>http_parser_execute\<close> for the first line of a message: the status line
  of a response, and the method, target and version of a request.
\<close>

unbundle bit_operations_syntax

text \<open>The shapes several cases share: one expected byte, one digit.\<close>

definition expect :: "'s exec_env \<Rightarrow> byte \<Rightarrow> http_errno \<Rightarrow> hstate \<Rightarrow> nat \<Rightarrow> 's exec \<Rightarrow> 's outcome" where
  "expect e b er s p c = (if input e ! p \<noteq> b then fail er p c else Break (UPDATE_STATE s c) p)"

definition digit_into ::
  "'s exec_env \<Rightarrow> (u16 \<Rightarrow> http_parser \<Rightarrow> http_parser) \<Rightarrow> http_errno \<Rightarrow> hstate \<Rightarrow> nat \<Rightarrow> 's exec \<Rightarrow> 's outcome" where
  "digit_into e f er s p c =
     (let ch = input e ! p
      in if \<not> IS_NUM ch then fail er p c
         else Break (UPDATE_STATE s (upd_hp (f (ucast (ch - B CHR ''0''))) c)) p)"

text \<open>\<open>parser->flags = 0; parser->uses_transfer_encoding = 0; parser->content_length = ULLONG_MAX;\<close>\<close>

definition reset_message :: "http_parser \<Rightarrow> http_parser" where
  "reset_message h = h\<lparr>flags := 0, uses_transfer_encoding := False, content_length := ULLONG_MAX\<rparr>"

definition ex_dead :: "'s exec_env \<Rightarrow> nat \<Rightarrow> 's exec \<Rightarrow> 's outcome" where
  "ex_dead e p c =
     (if input e ! p = CR \<or> input e ! p = LF then Break c p else fail HPE_CLOSED_CONNECTION p c)"

section \<open>Requests\<close>

definition start_method :: "byte \<Rightarrow> http_method option" where
  "start_method ch =
     (if ch = B CHR ''A'' then Some HTTP_ACL
      else if ch = B CHR ''B'' then Some HTTP_BIND
      else if ch = B CHR ''C'' then Some HTTP_CONNECT
      else if ch = B CHR ''D'' then Some HTTP_DELETE
      else if ch = B CHR ''G'' then Some HTTP_GET
      else if ch = B CHR ''H'' then Some HTTP_HEAD
      else if ch = B CHR ''L'' then Some HTTP_LOCK
      else if ch = B CHR ''M'' then Some HTTP_MKCOL
      else if ch = B CHR ''N'' then Some HTTP_NOTIFY
      else if ch = B CHR ''O'' then Some HTTP_OPTIONS
      else if ch = B CHR ''P'' then Some HTTP_POST
      else if ch = B CHR ''R'' then Some HTTP_REPORT
      else if ch = B CHR ''S'' then Some HTTP_SUBSCRIBE
      else if ch = B CHR ''T'' then Some HTTP_TRACE
      else if ch = B CHR ''U'' then Some HTTP_UNLOCK
      else None)"

text \<open>On the error paths of this case the parser already holds what the lines before stored.\<close>

definition ex_start_req :: "'s exec_env \<Rightarrow> nat \<Rightarrow> 's exec \<Rightarrow> 's outcome" where
  "ex_start_req e p c =
     (let ch = input e ! p
      in if ch = CR \<or> ch = LF then Break c p
         else let c = upd_hp reset_message c
              in if \<not> IS_ALPHA ch then fail HPE_INVALID_METHOD p c
                 else let c = upd_hp (\<lambda>h. h\<lparr>pmethod := HTTP_DELETE, index := 1\<rparr>) c
                      in case start_method ch of
                           None \<Rightarrow> fail HPE_INVALID_METHOD p c
                         | Some m \<Rightarrow>
                             CALLBACK_NOTIFY (on_message_begin (settings e)) HPE_CB_message_begin p
                               (\<lambda>c. Break c p)
                               (UPDATE_STATE s_req_method (upd_hp (\<lambda>h. h\<lparr>pmethod := m\<rparr>) c)))"

definition ex_start_req_or_res :: "'s exec_env \<Rightarrow> nat \<Rightarrow> 's exec \<Rightarrow> 's outcome" where
  "ex_start_req_or_res e p c =
     (let ch = input e ! p
      in if ch = CR \<or> ch = LF then Break c p
         else let c = upd_hp reset_message c
              in if ch = B CHR ''H''
                 then CALLBACK_NOTIFY (on_message_begin (settings e)) HPE_CB_message_begin p
                        (\<lambda>c. Break c p) (UPDATE_STATE s_res_or_resp_H c)
                 else ex_start_req e p
                        (UPDATE_STATE s_start_req (upd_hp (\<lambda>h. h\<lparr>ptype := HTTP_REQUEST\<rparr>) c)))"

definition ex_res_or_resp_H :: "'s exec_env \<Rightarrow> nat \<Rightarrow> 's exec \<Rightarrow> 's outcome" where
  "ex_res_or_resp_H e p c =
     (let ch = input e ! p
      in if ch = B CHR ''T''
         then Break (UPDATE_STATE s_res_HT (upd_hp (\<lambda>h. h\<lparr>ptype := HTTP_RESPONSE\<rparr>) c)) p
         else if ch \<noteq> B CHR ''E'' then fail HPE_INVALID_CONSTANT p c
         else Break (UPDATE_STATE s_req_method
                (upd_hp (\<lambda>h. h\<lparr>ptype := HTTP_REQUEST, pmethod := HTTP_HEAD, index := 2\<rparr>) c)) p)"

text \<open>The table of the \<open>switch (method << 16 | index << 8 | ch)\<close>.\<close>

definition method_switch :: "(http_method \<times> nat \<times> char \<times> http_method) list" where
  "method_switch =
     [(HTTP_POST, 1, CHR ''U'', HTTP_PUT), (HTTP_POST, 1, CHR ''A'', HTTP_PATCH),
      (HTTP_POST, 1, CHR ''R'', HTTP_PROPFIND), (HTTP_PUT, 2, CHR ''R'', HTTP_PURGE),
      (HTTP_CONNECT, 1, CHR ''H'', HTTP_CHECKOUT), (HTTP_CONNECT, 2, CHR ''P'', HTTP_COPY),
      (HTTP_MKCOL, 1, CHR ''O'', HTTP_MOVE), (HTTP_MKCOL, 1, CHR ''E'', HTTP_MERGE),
      (HTTP_MKCOL, 1, CHR ''-'', HTTP_MSEARCH), (HTTP_MKCOL, 2, CHR ''A'', HTTP_MKACTIVITY),
      (HTTP_MKCOL, 3, CHR ''A'', HTTP_MKCALENDAR), (HTTP_SUBSCRIBE, 1, CHR ''E'', HTTP_SEARCH),
      (HTTP_SUBSCRIBE, 1, CHR ''O'', HTTP_SOURCE), (HTTP_REPORT, 2, CHR ''B'', HTTP_REBIND),
      (HTTP_PROPFIND, 4, CHR ''P'', HTTP_PROPPATCH), (HTTP_LOCK, 1, CHR ''I'', HTTP_LINK),
      (HTTP_UNLOCK, 2, CHR ''S'', HTTP_UNSUBSCRIBE), (HTTP_UNLOCK, 2, CHR ''B'', HTTP_UNBIND),
      (HTTP_UNLOCK, 3, CHR ''I'', HTTP_UNLINK)]"

fun lookup_method :: "(http_method \<times> nat \<times> char \<times> http_method) list \<Rightarrow> http_method \<Rightarrow> nat \<Rightarrow> byte \<Rightarrow> http_method option" where
  "lookup_method [] m i ch = None"
| "lookup_method ((m', i', c', new) # tab) m i ch =
     (if m' = m \<and> i' = i \<and> B c' = ch then Some new else lookup_method tab m i ch)"

text \<open>\<open>matcher[parser->index]\<close> is a read of the string constant, its NUL included: past it is \<open>Abort\<close>.\<close>

definition ex_req_method :: "'s exec_env \<Rightarrow> nat \<Rightarrow> 's exec \<Rightarrow> 's outcome" where
  "ex_req_method e p c =
     (let ch = input e ! p; h = hp c; i = unat (index h); matcher = method_strings (pmethod h);
          next = (\<lambda>c. Break (upd_hp (\<lambda>h. h\<lparr>index := index h + 1\<rparr>) c) p)
      in if ch = 0 then fail HPE_INVALID_METHOD p c
         else assert_that (i \<le> length matcher)
           (\<lambda>c. if ch = B CHR '' '' \<and> cstr_at matcher i = 0 then next (UPDATE_STATE s_req_spaces_before_url c)
                else if ch = cstr_at matcher i then next c
                else if (B CHR ''A'' \<le> ch \<and> ch \<le> B CHR ''Z'') \<or> ch = B CHR ''-'' then
                  (case lookup_method method_switch (pmethod h) i ch of
                     None \<Rightarrow> fail HPE_INVALID_METHOD p c
                   | Some m \<Rightarrow> next (upd_hp (\<lambda>h. h\<lparr>pmethod := m\<rparr>) c))
                else fail HPE_INVALID_METHOD p c) c)"

text \<open>\<open>UPDATE_STATE(parse_url_char(CURRENT_STATE(), ch))\<close> with its check.\<close>

definition url_step :: "'s exec_env \<Rightarrow> nat \<Rightarrow> 's exec \<Rightarrow> 's outcome" where
  "url_step e p c =
     (let c = UPDATE_STATE (parse_url_char (p_state c) (input e ! p)) c
      in if p_state c = s_dead then fail HPE_INVALID_URL p c else Break c p)"

definition ex_req_spaces_before_url :: "'s exec_env \<Rightarrow> nat \<Rightarrow> 's exec \<Rightarrow> 's outcome" where
  "ex_req_spaces_before_url e p c =
     (if input e ! p = B CHR '' '' then Break c p
      else let c = MARK url_mark p c
           in url_step e p (if pmethod (hp c) = HTTP_CONNECT then UPDATE_STATE s_req_server_start c else c))"

definition ex_req_schema :: "'s exec_env \<Rightarrow> nat \<Rightarrow> 's exec \<Rightarrow> 's outcome" where
  "ex_req_schema e p c =
     (let ch = input e ! p
      in if ch = B CHR '' '' \<or> ch = CR \<or> ch = LF then fail HPE_INVALID_URL p c else url_step e p c)"

definition ex_req_url :: "'s exec_env \<Rightarrow> nat \<Rightarrow> 's exec \<Rightarrow> 's outcome" where
  "ex_req_url e p c =
     (let ch = input e ! p
      in if ch = B CHR '' '' then
           CALLBACK_DATA e url_mark p (\<lambda>c. Break c p) (UPDATE_STATE s_req_http_start c)
         else if ch = CR \<or> ch = LF then
           CALLBACK_DATA e url_mark p (\<lambda>c. Break c p)
             (UPDATE_STATE (if ch = CR then s_req_line_almost_done else s_header_field_start)
               (upd_hp (\<lambda>h. h\<lparr>http_major := 0, http_minor := 9\<rparr>) c))
         else url_step e p c)"

definition ex_req_http_start :: "'s exec_env \<Rightarrow> nat \<Rightarrow> 's exec \<Rightarrow> 's outcome" where
  "ex_req_http_start e p c =
     (let ch = input e ! p
      in if ch = B CHR '' '' then Break c p
         else if ch = B CHR ''H'' then Break (UPDATE_STATE s_req_http_H c) p
         else if ch = B CHR ''I'' \<and> pmethod (hp c) = HTTP_SOURCE then Break (UPDATE_STATE s_req_http_I c) p
         else fail HPE_INVALID_CONSTANT p c)"

definition ex_req_http_end :: "'s exec_env \<Rightarrow> nat \<Rightarrow> 's exec \<Rightarrow> 's outcome" where
  "ex_req_http_end e p c =
     (let ch = input e ! p
      in if ch = CR then Break (UPDATE_STATE s_req_line_almost_done c) p
         else if ch = LF then Break (UPDATE_STATE s_header_field_start c) p
         else fail HPE_INVALID_VERSION p c)"

text \<open>The cases from \<open>s_req_http_H\<close> to \<open>s_req_http_minor\<close>, and \<open>s_req_line_almost_done\<close>.\<close>

definition ex_req_version :: "'s exec_env \<Rightarrow> nat \<Rightarrow> 's exec \<Rightarrow> 's outcome" where
  "ex_req_version e p c =
     (let s = p_state c
      in if s = s_req_http_H then expect e (B CHR ''T'') HPE_STRICT s_req_http_HT p c
         else if s = s_req_http_HT then expect e (B CHR ''T'') HPE_STRICT s_req_http_HTT p c
         else if s = s_req_http_HTT then expect e (B CHR ''P'') HPE_STRICT s_req_http_HTTP p c
         else if s = s_req_http_I then expect e (B CHR ''C'') HPE_STRICT s_req_http_IC p c
         else if s = s_req_http_IC then expect e (B CHR ''E'') HPE_STRICT s_req_http_HTTP p c
         else if s = s_req_http_HTTP then expect e (B CHR ''/'') HPE_STRICT s_req_http_major p c
         else if s = s_req_http_major then
           digit_into e (\<lambda>v h. h\<lparr>http_major := v\<rparr>) HPE_INVALID_VERSION s_req_http_dot p c
         else if s = s_req_http_dot then expect e (B CHR ''.'') HPE_INVALID_VERSION s_req_http_minor p c
         else if s = s_req_http_minor then
           digit_into e (\<lambda>v h. h\<lparr>http_minor := v\<rparr>) HPE_INVALID_VERSION s_req_http_end p c
         else expect e LF HPE_LF_EXPECTED s_header_field_start p c)"

section \<open>Responses\<close>

definition ex_start_res :: "'s exec_env \<Rightarrow> nat \<Rightarrow> 's exec \<Rightarrow> 's outcome" where
  "ex_start_res e p c =
     (let ch = input e ! p
      in if ch = CR \<or> ch = LF then Break c p
         else let c = upd_hp reset_message c
              in if ch \<noteq> B CHR ''H'' then fail HPE_INVALID_CONSTANT p c
                 else CALLBACK_NOTIFY (on_message_begin (settings e)) HPE_CB_message_begin p
                        (\<lambda>c. Break c p) (UPDATE_STATE s_res_H c))"

text \<open>The cases from \<open>s_res_H\<close> to \<open>s_res_http_end\<close>, and \<open>s_res_line_almost_done\<close>.\<close>

definition ex_res_version :: "'s exec_env \<Rightarrow> nat \<Rightarrow> 's exec \<Rightarrow> 's outcome" where
  "ex_res_version e p c =
     (let s = p_state c
      in if s = s_res_H then expect e (B CHR ''T'') HPE_STRICT s_res_HT p c
         else if s = s_res_HT then expect e (B CHR ''T'') HPE_STRICT s_res_HTT p c
         else if s = s_res_HTT then expect e (B CHR ''P'') HPE_STRICT s_res_HTTP p c
         else if s = s_res_HTTP then expect e (B CHR ''/'') HPE_STRICT s_res_http_major p c
         else if s = s_res_http_major then
           digit_into e (\<lambda>v h. h\<lparr>http_major := v\<rparr>) HPE_INVALID_VERSION s_res_http_dot p c
         else if s = s_res_http_dot then expect e (B CHR ''.'') HPE_INVALID_VERSION s_res_http_minor p c
         else if s = s_res_http_minor then
           digit_into e (\<lambda>v h. h\<lparr>http_minor := v\<rparr>) HPE_INVALID_VERSION s_res_http_end p c
         else if s = s_res_http_end then
           expect e (B CHR '' '') HPE_INVALID_VERSION s_res_first_status_code p c
         else expect e LF HPE_STRICT s_header_field_start p c)"

definition ex_res_first_status_code :: "'s exec_env \<Rightarrow> nat \<Rightarrow> 's exec \<Rightarrow> 's outcome" where
  "ex_res_first_status_code e p c =
     (let ch = input e ! p
      in if \<not> IS_NUM ch then (if ch = B CHR '' '' then Break c p else fail HPE_INVALID_STATUS p c)
         else Break (UPDATE_STATE s_res_status_code
                (upd_hp (\<lambda>h. h\<lparr>status_code := ucast (ch - B CHR ''0'')\<rparr>) c)) p)"

definition ex_res_status :: "'s exec_env \<Rightarrow> nat \<Rightarrow> 's exec \<Rightarrow> 's outcome" where
  "ex_res_status e p c =
     (let ch = input e ! p
      in if ch = CR then
           CALLBACK_DATA e status_mark p (\<lambda>c. Break c p) (UPDATE_STATE s_res_line_almost_done c)
         else if ch = LF then
           CALLBACK_DATA e status_mark p (\<lambda>c. Break c p) (UPDATE_STATE s_header_field_start c)
         else Break c p)"

definition ex_res_status_start :: "'s exec_env \<Rightarrow> nat \<Rightarrow> 's exec \<Rightarrow> 's outcome" where
  "ex_res_status_start e p c =
     (let ch = input e ! p;
          c = upd_hp (\<lambda>h. h\<lparr>index := 0\<rparr>) (UPDATE_STATE s_res_status (MARK status_mark p c))
      in if ch = CR \<or> ch = LF then ex_res_status e p c else Break c p)"

text \<open>\<open>status_code\<close> is a 16 bit field: the product and the sum wrap there, and the test sees the result.\<close>

definition ex_res_status_code :: "'s exec_env \<Rightarrow> nat \<Rightarrow> 's exec \<Rightarrow> 's outcome" where
  "ex_res_status_code e p c =
     (let ch = input e ! p
      in if \<not> IS_NUM ch then
           (if ch = B CHR '' '' then Break (UPDATE_STATE s_res_status_start c) p
            else if ch = CR \<or> ch = LF then ex_res_status_start e p (UPDATE_STATE s_res_status_start c)
            else fail HPE_INVALID_STATUS p c)
         else let c = upd_hp (\<lambda>h. h\<lparr>status_code := status_code h * 10 + ucast (ch - B CHR ''0'')\<rparr>) c
              in if 999 < status_code (hp c) then fail HPE_INVALID_STATUS p c else Break c p)"

end
