(* ===== verification/Hp_Body.thy ===== *)
theory Hp_Body
  imports Hp_Machine
begin

text \<open>
  The cases of the \<open>switch\<close> of \<open>http_parser_execute\<close> from the end of the headers on: the decision how
  the body is framed, bodies with a length, bodies up to the end of the connection, and chunks. A
  function \<open>ex_s\<close> is the code of the case \<open>s\<close>, entered with \<open>p_state = s\<close> at offset \<open>p\<close>. The label
  \<open>reexecute\<close> is entered with a state the code has just assigned, so a \<open>REEXECUTE()\<close> is a call of
  that state's function.
\<close>

unbundle bit_operations_syntax

definition ex_message_done :: "'s exec_env \<Rightarrow> nat \<Rightarrow> 's exec \<Rightarrow> 's outcome" where
  "ex_message_done e p c =
     CALLBACK_NOTIFY (on_message_complete (settings e)) HPE_CB_message_complete p
       (\<lambda>c. if upgrade (hp c) then RETURN c (p + 1) else Break c p)
       (UPDATE_STATE (NEW_MESSAGE (hp c)) c)"

text \<open>\<open>p += to_read - 1\<close> and the subtraction from \<open>content_length\<close>, of \<open>s_body_identity\<close> and \<open>s_chunk_data\<close>.\<close>

definition to_read :: "'s exec_env \<Rightarrow> nat \<Rightarrow> 's exec \<Rightarrow> nat" where
  "to_read e p c = min (unat (content_length (hp c))) (length (input e) - p)"

definition take_body :: "nat \<Rightarrow> 's exec \<Rightarrow> 's exec" where
  "take_body n c = upd_hp (\<lambda>h. h\<lparr>content_length := content_length h - of_nat n\<rparr>) c"

definition ex_body_identity :: "'s exec_env \<Rightarrow> nat \<Rightarrow> 's exec \<Rightarrow> 's outcome" where
  "ex_body_identity e p c =
     (let n = to_read e p c
      in assert_that (content_length (hp c) \<noteq> 0 \<and> content_length (hp c) \<noteq> ULLONG_MAX)
           (\<lambda>c. let c = take_body n (MARK body_mark p c); p = p + n - 1
                in if content_length (hp c) = 0
                   then CALLBACK_DATA_er e body_mark (p + 1) p (ex_message_done e p)
                          (UPDATE_STATE s_message_done c)
                   else Break c p) c)"

definition ex_body_identity_eof :: "'s exec_env \<Rightarrow> nat \<Rightarrow> 's exec \<Rightarrow> 's outcome" where
  "ex_body_identity_eof e p c = Break (MARK body_mark p c) (length (input e) - 1)"

section \<open>Chunks\<close>

definition ex_chunk_size_start :: "'s exec_env \<Rightarrow> nat \<Rightarrow> 's exec \<Rightarrow> 's outcome" where
  "ex_chunk_size_start e p c =
     assert_that (cnt c = 1 \<and> has_flag (hp c) F_CHUNKED)
       (\<lambda>c. let v = unhex ! unat (input e ! p)
            in if v = - 1 then fail HPE_INVALID_CHUNK_SIZE p c
               else Break (UPDATE_STATE s_chunk_size
                             (upd_hp (\<lambda>h. h\<lparr>content_length := of_int v\<rparr>) c)) p) c"

definition ex_chunk_size :: "'s exec_env \<Rightarrow> nat \<Rightarrow> 's exec \<Rightarrow> 's outcome" where
  "ex_chunk_size e p c =
     assert_that (has_flag (hp c) F_CHUNKED)
       (\<lambda>c. let ch = input e ! p; v = unhex ! unat ch
            in if ch = CR then Break (UPDATE_STATE s_chunk_size_almost_done c) p
               else if v = - 1 then
                 (if ch = B CHR '';'' \<or> ch = B CHR '' '' then Break (UPDATE_STATE s_chunk_parameters c) p
                  else fail HPE_INVALID_CHUNK_SIZE p c)
               else if (ULLONG_MAX - 16) div 16 < content_length (hp c) then fail HPE_INVALID_CONTENT_LENGTH p c
               else Break (upd_hp (\<lambda>h. h\<lparr>content_length := content_length h * 16 + of_int v\<rparr>) c) p) c"

definition ex_chunk_parameters :: "'s exec_env \<Rightarrow> nat \<Rightarrow> 's exec \<Rightarrow> 's outcome" where
  "ex_chunk_parameters e p c =
     assert_that (has_flag (hp c) F_CHUNKED)
       (\<lambda>c. if input e ! p = CR then Break (UPDATE_STATE s_chunk_size_almost_done c) p
            else Break c p) c"

text \<open>\<open>parser->nread = 0; nread = 0;\<close>\<close>

definition reset_nread :: "'s exec \<Rightarrow> 's exec" where
  "reset_nread c = (upd_hp (\<lambda>h. h\<lparr>nread := 0\<rparr>) c)\<lparr>cnt := 0\<rparr>"

definition ex_chunk_size_almost_done :: "'s exec_env \<Rightarrow> nat \<Rightarrow> 's exec \<Rightarrow> 's outcome" where
  "ex_chunk_size_almost_done e p c =
     assert_that (has_flag (hp c) F_CHUNKED)
       (STRICT_CHECK (input e ! p \<noteq> LF) p
         (\<lambda>c. let c = reset_nread c
              in CALLBACK_NOTIFY (on_chunk_header (settings e)) HPE_CB_chunk_header p (\<lambda>c. Break c p)
                   (if content_length (hp c) = 0
                    then UPDATE_STATE s_header_field_start (upd_hp (set_flag F_TRAILING) c)
                    else UPDATE_STATE s_chunk_data c))) c"

definition ex_chunk_data :: "'s exec_env \<Rightarrow> nat \<Rightarrow> 's exec \<Rightarrow> 's outcome" where
  "ex_chunk_data e p c =
     (let n = to_read e p c
      in assert_that (has_flag (hp c) F_CHUNKED)
           (assert_that (content_length (hp c) \<noteq> 0 \<and> content_length (hp c) \<noteq> ULLONG_MAX)
             (\<lambda>c. let c = take_body n (MARK body_mark p c); p = p + n - 1
                  in if content_length (hp c) = 0
                     then Break (UPDATE_STATE s_chunk_data_almost_done c) p
                     else Break c p)) c)"

definition ex_chunk_data_almost_done :: "'s exec_env \<Rightarrow> nat \<Rightarrow> 's exec \<Rightarrow> 's outcome" where
  "ex_chunk_data_almost_done e p c =
     assert_that (has_flag (hp c) F_CHUNKED)
       (assert_that (content_length (hp c) = 0)
         (STRICT_CHECK (input e ! p \<noteq> CR) p
           (\<lambda>c. CALLBACK_DATA e body_mark p (\<lambda>c. Break c p) (UPDATE_STATE s_chunk_data_done c)))) c"

definition ex_chunk_data_done :: "'s exec_env \<Rightarrow> nat \<Rightarrow> 's exec \<Rightarrow> 's outcome" where
  "ex_chunk_data_done e p c =
     assert_that (has_flag (hp c) F_CHUNKED)
       (STRICT_CHECK (input e ! p \<noteq> LF) p
         (\<lambda>c. CALLBACK_NOTIFY (on_chunk_complete (settings e)) HPE_CB_chunk_complete p (\<lambda>c. Break c p)
                (UPDATE_STATE s_chunk_size_start (reset_nread c)))) c"

section \<open>The end of the headers\<close>

definition has_body :: "http_parser \<Rightarrow> bool" where
  "has_body h \<longleftrightarrow> has_flag h F_CHUNKED \<or> (0 < content_length h \<and> content_length h \<noteq> ULLONG_MAX)"

text \<open>\<open>UPDATE_STATE(NEW_MESSAGE()); CALLBACK_NOTIFY(message_complete);\<close>\<close>

definition complete_message ::
  "'s exec_env \<Rightarrow> nat \<Rightarrow> ('s exec \<Rightarrow> 's outcome) \<Rightarrow> 's exec \<Rightarrow> 's outcome" where
  "complete_message e p k c =
     CALLBACK_NOTIFY (on_message_complete (settings e)) HPE_CB_message_complete p k
       (UPDATE_STATE (NEW_MESSAGE (hp c)) c)"

definition ex_headers_done :: "'s exec_env \<Rightarrow> nat \<Rightarrow> 's exec \<Rightarrow> 's outcome" where
  "ex_headers_done e p c =
     STRICT_CHECK (input e ! p \<noteq> LF) p
       (\<lambda>c. let c = reset_nread c; h = hp c; brk = (\<lambda>c. Break c p)
            in if upgrade h \<and> (pmethod h = HTTP_CONNECT \<or> has_flag h F_SKIPBODY \<or> \<not> has_body h)
               then complete_message e p (\<lambda>c. RETURN c (p + 1)) c
               else if has_flag h F_SKIPBODY then complete_message e p brk c
               else if has_flag h F_CHUNKED then brk (UPDATE_STATE s_chunk_size_start c)
               else if uses_transfer_encoding h then
                 (if ptype h = HTTP_REQUEST \<and> \<not> lenient e
                  then RETURN (SET_ERRNO HPE_INVALID_TRANSFER_ENCODING c) p
                  else brk (UPDATE_STATE s_body_identity_eof c))
               else if content_length h = 0 then complete_message e p brk c
               else if content_length h \<noteq> ULLONG_MAX then brk (UPDATE_STATE s_body_identity c)
               else if \<not> http_message_needs_eof h then complete_message e p brk c
               else brk (UPDATE_STATE s_body_identity_eof c)) c"

text \<open>The test that a message does not carry both a transfer encoding and a content length.\<close>

definition both_lengths :: "'s exec_env \<Rightarrow> http_parser \<Rightarrow> bool" where
  "both_lengths e h \<longleftrightarrow>
     uses_transfer_encoding h \<and> has_flag h F_CONTENTLENGTH
     \<and> (if has_flag h F_CHUNKED then \<not> allow_chunked e else \<not> lenient e)"

definition set_upgrade :: "http_parser \<Rightarrow> http_parser" where
  "set_upgrade h =
     h\<lparr>upgrade := (if has_flag h F_UPGRADE \<and> has_flag h F_CONNECTION_UPGRADE
                    then ptype h = HTTP_REQUEST \<or> status_code h = 101
                    else pmethod h = HTTP_CONNECT)\<rparr>"

text \<open>
  The call of \<open>on_headers_complete\<close>, which does not go through the macro: the return values 1 and 2
  mean "no body" and "upgrade". \<open>parser->state\<close> is not stored before it and not read after it.
\<close>

definition call_headers_complete ::
  "'s exec_env \<Rightarrow> nat \<Rightarrow> ('s exec \<Rightarrow> 's outcome) \<Rightarrow> 's exec \<Rightarrow> 's outcome" where
  "call_headers_complete e p k c =
     (let k = (\<lambda>c. if http_errno (hp c) \<noteq> HPE_OK then RETURN c p else k c)
      in case on_headers_complete (settings e) of
           None \<Rightarrow> k c
         | Some f \<Rightarrow>
             (case f (hp c) (app c) of (r, paused, s) \<Rightarrow>
               let c = leave_callback paused s c
               in if r = 0 then k c
                  else if r = 2 then k (upd_hp (set_flag F_SKIPBODY) (upd_hp (\<lambda>h. h\<lparr>upgrade := True\<rparr>) c))
                  else if r = 1 then k (upd_hp (set_flag F_SKIPBODY) c)
                  else RETURN (SET_ERRNO HPE_CB_headers_complete c) p))"

definition ex_headers_almost_done :: "'s exec_env \<Rightarrow> nat \<Rightarrow> 's exec \<Rightarrow> 's outcome" where
  "ex_headers_almost_done e p c =
     STRICT_CHECK (input e ! p \<noteq> LF) p
       (\<lambda>c. if has_flag (hp c) F_TRAILING
            then CALLBACK_NOTIFY_NOADVANCE (on_chunk_complete (settings e)) HPE_CB_chunk_complete p
                   (ex_message_done e p) (UPDATE_STATE s_message_done c)
            else if both_lengths e (hp c) then fail HPE_UNEXPECTED_CONTENT_LENGTH p c
            else call_headers_complete e p (ex_headers_done e p)
                   (upd_hp set_upgrade (UPDATE_STATE s_headers_done c))) c"

end
