(* ===== verification/Hp_Header.thy ===== *)
theory Hp_Header
  imports Hp_Body
begin

text \<open>
  The header cases of the \<open>switch\<close> of \<open>http_parser_execute\<close>: field names, values with their
  recognition of \<open>Connection\<close>, \<open>Content-Length\<close>, \<open>Transfer-Encoding\<close> and \<open>Upgrade\<close>, line endings and
  folding. The two inner \<open>for\<close> loops run over the bytes from \<open>p\<close> to the end of the buffer.
\<close>

unbundle bit_operations_syntax

section \<open>The start of a header line\<close>

definition field_start_state :: "byte \<Rightarrow> header_states" where
  "field_start_state c =
     (if c = B CHR ''c'' then h_C
      else if c = B CHR ''p'' then h_matching_proxy_connection
      else if c = B CHR ''t'' then h_matching_transfer_encoding
      else if c = B CHR ''u'' then h_matching_upgrade
      else h_general)"

definition ex_header_field_start :: "'s exec_env \<Rightarrow> nat \<Rightarrow> 's exec \<Rightarrow> 's outcome" where
  "ex_header_field_start e p c =
     (let ch = input e ! p
      in if ch = CR then Break (UPDATE_STATE s_headers_almost_done c) p
         else if ch = LF then ex_headers_almost_done e p (UPDATE_STATE s_headers_almost_done c)
         else if TOKEN ch = 0 then fail HPE_INVALID_HEADER_TOKEN p c
         else Break (upd_hp (\<lambda>h. h\<lparr>index := 0, header_state := field_start_state (TOKEN ch)\<rparr>)
                       (UPDATE_STATE s_header_field (MARK header_field_mark p c))) p)"

section \<open>Field names\<close>

text \<open>
  The code of the shape \<open>index++; if (index > sizeof(S)-1 || c != S[index]) ... else if (index ==
  sizeof(S)-2) ...\<close>, shared by the names and the values the parser recognises.
\<close>

definition match_step ::
  "bytes \<Rightarrow> byte \<Rightarrow> header_states \<Rightarrow> header_states \<Rightarrow> header_states \<Rightarrow> http_parser \<Rightarrow> header_states \<times> http_parser" where
  "match_step s c other found hs h =
     (let i = index h + 1
      in (if unat i > length s \<or> c \<noteq> cstr_at s (unat i) then other
          else if unat i = length s - 1 then found
          else hs, h\<lparr>index := i\<rparr>))"

definition match_next :: "bytes \<Rightarrow> byte \<Rightarrow> header_states \<Rightarrow> header_states \<Rightarrow> http_parser \<Rightarrow> http_parser" where
  "match_next s c other found h =
     (case match_step s c other found (header_state h) h of (hs, h) \<Rightarrow> h\<lparr>header_state := hs\<rparr>)"

definition hf_matching_transfer_encoding :: "byte \<Rightarrow> http_parser \<Rightarrow> http_parser" where
  "hf_matching_transfer_encoding c h =
     (let h' = match_next TRANSFER_ENCODING c h_general h_transfer_encoding h
      in if header_state h' = h_transfer_encoding then h'\<lparr>uses_transfer_encoding := True\<rparr> else h')"

text \<open>
  One character of a field name other than in \<open>h_general\<close>; \<open>None\<close> is \<open>assert(0 && "Unknown
  header_state")\<close>.
\<close>

definition hf_char :: "byte \<Rightarrow> byte \<Rightarrow> http_parser \<Rightarrow> http_parser option" where
  "hf_char ch c h =
     (let hs = header_state h; bump = h\<lparr>index := index h + 1\<rparr>
      in if hs = h_C then Some (bump\<lparr>header_state := (if c = B CHR ''o'' then h_CO else h_general)\<rparr>)
         else if hs = h_CO then Some (bump\<lparr>header_state := (if c = B CHR ''n'' then h_CON else h_general)\<rparr>)
         else if hs = h_CON then
           Some (bump\<lparr>header_state := (if c = B CHR ''n'' then h_matching_connection
                                       else if c = B CHR ''t'' then h_matching_content_length
                                       else h_general)\<rparr>)
         else if hs = h_matching_connection then Some (match_next CONNECTION c h_general h_connection h)
         else if hs = h_matching_proxy_connection then
           Some (match_next PROXY_CONNECTION c h_general h_connection h)
         else if hs = h_matching_content_length then
           Some (match_next CONTENT_LENGTH c h_general h_content_length h)
         else if hs = h_matching_transfer_encoding then Some (hf_matching_transfer_encoding c h)
         else if hs = h_matching_upgrade then Some (match_next UPGRADE c h_general h_upgrade h)
         else if hs = h_connection \<or> hs = h_content_length \<or> hs = h_transfer_encoding \<or> hs = h_upgrade then
           Some (if ch \<noteq> B CHR '' '' then h\<lparr>header_state := h_general\<rparr> else h)
         else None)"

text \<open>
  The loop. Its result is the bytes it stopped at, at the first byte that is not a token character or
  at the end of the buffer, and the parser. In \<open>h_general\<close> the inner \<open>while\<close> runs over the token
  characters in a window of at most \<open>max_header_size\<close> bytes.
\<close>

definition token_run :: "nat \<Rightarrow> bytes \<Rightarrow> nat" where
  "token_run w xs = length (takeWhile (\<lambda>b. TOKEN b \<noteq> 0) (take (w - 1) xs))"

function hf_loop :: "nat \<Rightarrow> bytes \<Rightarrow> http_parser \<Rightarrow> (bytes \<times> http_parser) option" where
  "hf_loop mhs [] h = Some ([], h)"
| "hf_loop mhs (ch # rest) h =
     (if TOKEN ch = 0 then Some (ch # rest, h)
      else if header_state h = h_general
      then hf_loop mhs (drop (token_run (min (length (ch # rest)) mhs) rest) rest) h
      else case hf_char ch (TOKEN ch) h of
             None \<Rightarrow> None
           | Some h \<Rightarrow> hf_loop mhs rest h)"
  by pat_completeness auto
termination
  by (relation "measure (\<lambda>(_, xs, _). length xs)") auto

definition ex_header_field :: "'s exec_env \<Rightarrow> nat \<Rightarrow> 's exec \<Rightarrow> 's outcome" where
  "ex_header_field e p c =
     (case hf_loop (unat (max_header_size e)) (drop p (input e)) (hp c) of
        None \<Rightarrow> Abort
      | Some (rest, h) \<Rightarrow>
          let c = c\<lparr>hp := h\<rparr>; q = length (input e) - length rest
          in if rest = [] then COUNT_HEADER_SIZE e (q - 1 - p) (q - 1) (\<lambda>c. Break c (q - 1)) c
             else COUNT_HEADER_SIZE e (q - p) q
                    (\<lambda>c. if hd rest = B CHR '':''
                         then CALLBACK_DATA e header_field_mark q (\<lambda>c. Break c q)
                                (UPDATE_STATE s_header_value_discard_ws c)
                         else fail HPE_INVALID_HEADER_TOKEN q c) c)"

section \<open>The start of a value\<close>

definition connection_value_state :: "byte \<Rightarrow> header_states" where
  "connection_value_state c =
     (if c = B CHR ''k'' then h_matching_connection_keep_alive
      else if c = B CHR ''c'' then h_matching_connection_close
      else if c = B CHR ''u'' then h_matching_connection_upgrade
      else h_matching_connection_token)"

definition ex_header_value_start :: "'s exec_env \<Rightarrow> nat \<Rightarrow> 's exec \<Rightarrow> 's outcome" where
  "ex_header_value_start e p c =
     (let ch = input e ! p; cl = LOWER ch;
          c = upd_hp (\<lambda>h. h\<lparr>index := 0\<rparr>) (UPDATE_STATE s_header_value (MARK header_value_mark p c));
          hs = header_state (hp c);
          to = (\<lambda>s. Break (upd_hp (\<lambda>h. h\<lparr>header_state := s\<rparr>) c) p)
      in if hs = h_upgrade then
           Break (upd_hp (\<lambda>h. (set_flag F_UPGRADE h)\<lparr>header_state := h_general\<rparr>) c) p
         else if hs = h_transfer_encoding then
           to (if cl = B CHR ''c'' then h_matching_transfer_encoding_chunked
               else h_matching_transfer_encoding_token)
         else if hs = h_matching_transfer_encoding_token_start then Break c p
         else if hs = h_content_length then
           (if \<not> IS_NUM ch then fail HPE_INVALID_CONTENT_LENGTH p c
            else if has_flag (hp c) F_CONTENTLENGTH then fail HPE_UNEXPECTED_CONTENT_LENGTH p c
            else Break (upd_hp (\<lambda>h. (set_flag F_CONTENTLENGTH h)
                          \<lparr>content_length := ucast (ch - B CHR ''0''), header_state := h_content_length_num\<rparr>) c) p)
         else if hs = h_content_length_ws then Break c p
         else if hs = h_connection then to (connection_value_state cl)
         else if hs = h_matching_connection_token_start then Break c p
         else to h_general)"

definition ex_header_value_discard_ws :: "'s exec_env \<Rightarrow> nat \<Rightarrow> 's exec \<Rightarrow> 's outcome" where
  "ex_header_value_discard_ws e p c =
     (let ch = input e ! p
      in if ch = B CHR '' '' \<or> ch = 9 then Break c p
         else if ch = CR then Break (UPDATE_STATE s_header_value_discard_ws_almost_done c) p
         else if ch = LF then Break (UPDATE_STATE s_header_value_discard_lws c) p
         else ex_header_value_start e p c)"

section \<open>The end of a header line\<close>

text \<open>"finished the header": the flag the header's value stands for.\<close>

definition header_flag :: "http_parser \<Rightarrow> http_parser" where
  "header_flag h =
     (let hs = header_state h
      in if hs = h_connection_keep_alive then set_flag F_CONNECTION_KEEP_ALIVE h
         else if hs = h_connection_close then set_flag F_CONNECTION_CLOSE h
         else if hs = h_transfer_encoding_chunked then set_flag F_CHUNKED h
         else if hs = h_connection_upgrade then set_flag F_CONNECTION_UPGRADE h
         else h)"

definition ex_header_value_lws :: "'s exec_env \<Rightarrow> nat \<Rightarrow> 's exec \<Rightarrow> 's outcome" where
  "ex_header_value_lws e p c =
     (let ch = input e ! p
      in if ch = B CHR '' '' \<or> ch = 9
         then ex_header_value_start e p
                (UPDATE_STATE s_header_value_start
                  (if header_state (hp c) = h_content_length_num
                   then upd_hp (\<lambda>h. h\<lparr>header_state := h_content_length_ws\<rparr>) c else c))
         else ex_header_field_start e p (UPDATE_STATE s_header_field_start (upd_hp header_flag c)))"

definition ex_header_almost_done :: "'s exec_env \<Rightarrow> nat \<Rightarrow> 's exec \<Rightarrow> 's outcome" where
  "ex_header_almost_done e p c =
     (if input e ! p \<noteq> LF then fail HPE_LF_EXPECTED p c
      else Break (UPDATE_STATE s_header_value_lws c) p)"

definition ex_header_value_discard_ws_almost_done :: "'s exec_env \<Rightarrow> nat \<Rightarrow> 's exec \<Rightarrow> 's outcome" where
  "ex_header_value_discard_ws_almost_done e p c =
     STRICT_CHECK (input e ! p \<noteq> LF) p
       (\<lambda>c. Break (UPDATE_STATE s_header_value_discard_lws c) p) c"

definition ex_header_value_discard_lws :: "'s exec_env \<Rightarrow> nat \<Rightarrow> 's exec \<Rightarrow> 's outcome" where
  "ex_header_value_discard_lws e p c =
     (let ch = input e ! p
      in if ch = B CHR '' '' \<or> ch = 9 then Break (UPDATE_STATE s_header_value_discard_ws c) p
         else if header_state (hp c) = h_content_length then fail HPE_INVALID_CONTENT_LENGTH p c
         else CALLBACK_DATA_NOADVANCE e header_value_mark p (ex_header_field_start e p)
                (UPDATE_STATE s_header_field_start (MARK header_value_mark p (upd_hp header_flag c))))"

section \<open>Values\<close>

text \<open>
  One character of a value other than in \<open>h_general\<close>, for the local \<open>h_state\<close>: the next \<open>h_state\<close>, an
  error (with \<open>parser->header_state = h_state\<close> where the code stores it), or \<open>assert(0 && "Shouldn't
  get here.")\<close>.
\<close>

datatype hv_result = Hv_Next header_states http_parser | Hv_Err http_errno http_parser | Hv_Assert

definition hv_content_length_num :: "byte \<Rightarrow> http_parser \<Rightarrow> hv_result" where
  "hv_content_length_num ch h =
     (let err = Hv_Err HPE_INVALID_CONTENT_LENGTH (h\<lparr>header_state := h_content_length_num\<rparr>)
      in if ch = B CHR '' '' then Hv_Next h_content_length_ws h
         else if \<not> IS_NUM ch then err
         else if (ULLONG_MAX - 10) div 10 < content_length h then err
         else Hv_Next h_content_length_num
                (h\<lparr>content_length := content_length h * 10 + ucast (ch - B CHR ''0'')\<rparr>))"

definition hv_transfer_encoding_token_start :: "byte \<Rightarrow> header_states" where
  "hv_transfer_encoding_token_start c =
     (if c = B CHR ''c'' then h_matching_transfer_encoding_chunked
      else if STRICT_TOKEN c \<noteq> 0 then h_matching_transfer_encoding_token
      else if c = B CHR '' '' \<or> c = 9 then h_matching_transfer_encoding_token_start
      else h_general)"

definition hv_connection_token_start :: "byte \<Rightarrow> header_states" where
  "hv_connection_token_start c =
     (if c = B CHR ''k'' then h_matching_connection_keep_alive
      else if c = B CHR ''c'' then h_matching_connection_close
      else if c = B CHR ''u'' then h_matching_connection_upgrade
      else if STRICT_TOKEN c \<noteq> 0 then h_matching_connection_token
      else if c = B CHR '' '' \<or> c = 9 then h_matching_connection_token_start
      else h_general)"

text \<open>The end of a recognised \<open>Connection\<close> option, with the flag a following comma records.\<close>

definition hv_connection_option :: "byte \<Rightarrow> header_states \<Rightarrow> http_parser \<Rightarrow> hv_result" where
  "hv_connection_option ch hs h =
     (if ch = B CHR '','' then
        Hv_Next h_matching_connection_token_start
          ((set_flag (if hs = h_connection_keep_alive then F_CONNECTION_KEEP_ALIVE
                      else if hs = h_connection_close then F_CONNECTION_CLOSE
                      else F_CONNECTION_UPGRADE) h)\<lparr>index := 0\<rparr>)
      else if ch \<noteq> B CHR '' '' then Hv_Next h_matching_connection_token h
      else Hv_Next hs h)"

definition hv_list_token :: "byte \<Rightarrow> header_states \<Rightarrow> header_states \<Rightarrow> http_parser \<Rightarrow> hv_result" where
  "hv_list_token ch start hs h =
     (if ch = B CHR '','' then Hv_Next start (h\<lparr>index := 0\<rparr>) else Hv_Next hs h)"

definition hv_match :: "bytes \<Rightarrow> byte \<Rightarrow> header_states \<Rightarrow> header_states \<Rightarrow> header_states \<Rightarrow> http_parser \<Rightarrow> hv_result" where
  "hv_match s c other found hs h = (case match_step s c other found hs h of (hs, h) \<Rightarrow> Hv_Next hs h)"

definition hv_char :: "byte \<Rightarrow> header_states \<Rightarrow> http_parser \<Rightarrow> hv_result" where
  "hv_char ch hs h =
     (let c = LOWER ch
      in if hs = h_connection \<or> hs = h_transfer_encoding then Hv_Assert
         else if hs = h_content_length then
           (if ch = B CHR '' '' then Hv_Next hs h else hv_content_length_num ch h)
         else if hs = h_content_length_num then hv_content_length_num ch h
         else if hs = h_content_length_ws then
           (if ch = B CHR '' '' then Hv_Next hs h
            else Hv_Err HPE_INVALID_CONTENT_LENGTH (h\<lparr>header_state := hs\<rparr>))
         else if hs = h_matching_transfer_encoding_token_start then
           Hv_Next (hv_transfer_encoding_token_start c) h
         else if hs = h_matching_transfer_encoding_chunked then
           hv_match CHUNKED c h_matching_transfer_encoding_token h_transfer_encoding_chunked hs h
         else if hs = h_matching_transfer_encoding_token then
           hv_list_token ch h_matching_transfer_encoding_token_start hs h
         else if hs = h_matching_connection_token_start then Hv_Next (hv_connection_token_start c) h
         else if hs = h_matching_connection_keep_alive then
           hv_match KEEP_ALIVE c h_matching_connection_token h_connection_keep_alive hs h
         else if hs = h_matching_connection_close then
           hv_match CLOSE c h_matching_connection_token h_connection_close hs h
         else if hs = h_matching_connection_upgrade then
           hv_match UPGRADE c h_matching_connection_token h_connection_upgrade hs h
         else if hs = h_matching_connection_token then
           hv_list_token ch h_matching_connection_token_start hs h
         else if hs = h_transfer_encoding_chunked then
           (if ch \<noteq> B CHR '' '' then Hv_Next h_matching_transfer_encoding_token h else Hv_Next hs h)
         else if hs = h_connection_keep_alive \<or> hs = h_connection_close \<or> hs = h_connection_upgrade then
           hv_connection_option ch hs h
         else Hv_Next h_general h)"

text \<open>
  The loop over the bytes from \<open>p\<close>. It stops at a CR, at an LF or at the end of the buffer. In
  \<open>h_general\<close> an inner loop scans a window of at most \<open>max_header_size\<close> bytes (the byte at hand and
  \<open>w - 1\<close> more); when the window ends before the buffer, the \<open>p++\<close> of the outer loop skips the byte
  after it.
\<close>

datatype hv_stop = Hv_Stop bytes header_states http_parser | Hv_Fail bytes http_errno http_parser | Hv_Abort

definition value_char :: "bool \<Rightarrow> byte \<Rightarrow> bool" where
  "value_char len b \<longleftrightarrow> b \<noteq> CR \<and> b \<noteq> LF \<and> (len \<or> IS_HEADER_CHAR b)"

definition value_run :: "bool \<Rightarrow> nat \<Rightarrow> bytes \<Rightarrow> nat" where
  "value_run len w rest = length (takeWhile (value_char len) (take (w - 1) rest))"

function hv_loop :: "bool \<Rightarrow> nat \<Rightarrow> bytes \<Rightarrow> header_states \<Rightarrow> http_parser \<Rightarrow> hv_stop" where
  "hv_loop len mhs [] hs h = Hv_Stop [] hs h"
| "hv_loop len mhs (ch # rest) hs h =
     (if ch = CR \<or> ch = LF then Hv_Stop (ch # rest) hs h
      else if \<not> len \<and> \<not> IS_HEADER_CHAR ch then Hv_Fail (ch # rest) HPE_INVALID_HEADER_TOKEN h
      else if hs = h_general then
        (let w = min (length (ch # rest)) mhs; n = value_run len w rest
         in if n = w - 1 then hv_loop len mhs (drop w rest) hs h
            else if rest ! n = CR \<or> rest ! n = LF then hv_loop len mhs (drop n rest) hs h
            else Hv_Fail (drop n rest) HPE_INVALID_HEADER_TOKEN h)
      else case hv_char ch hs h of
             Hv_Assert \<Rightarrow> Hv_Abort
           | Hv_Err er h \<Rightarrow> Hv_Fail (ch # rest) er h
           | Hv_Next hs h \<Rightarrow> hv_loop len mhs rest hs h)"
  by pat_completeness auto
termination
  by (relation "measure (\<lambda>(_, _, xs, _, _). length xs)") auto

definition ex_header_value :: "'s exec_env \<Rightarrow> nat \<Rightarrow> 's exec \<Rightarrow> 's outcome" where
  "ex_header_value e p c =
     (let len = length (input e); store = (\<lambda>hs. upd_hp (\<lambda>h. h\<lparr>header_state := hs\<rparr>))
      in case hv_loop (lenient e) (unat (max_header_size e)) (drop p (input e)) (header_state (hp c)) (hp c) of
           Hv_Abort \<Rightarrow> Abort
         | Hv_Fail rest er h \<Rightarrow> fail er (len - length rest) (c\<lparr>hp := h\<rparr>)
         | Hv_Stop rest hs h \<Rightarrow>
             let c = c\<lparr>hp := h\<rparr>; q = len - length rest
             in if rest = [] then
                  COUNT_HEADER_SIZE e (q - 1 - p) (q - 1) (\<lambda>c. Break c (q - 1)) (store hs c)
                else if hd rest = CR then
                  CALLBACK_DATA e header_value_mark q
                    (COUNT_HEADER_SIZE e (q - p) q (\<lambda>c. Break c q))
                    (store hs (UPDATE_STATE s_header_almost_done c))
                else
                  COUNT_HEADER_SIZE e (q - p) q
                    (\<lambda>c. CALLBACK_DATA_NOADVANCE e header_value_mark q (ex_header_almost_done e q) (store hs c))
                    (UPDATE_STATE s_header_almost_done c))"

end
