(* ===== verification/Hp_Exec.thy ===== *)
theory Hp_Exec
  imports Hp_Start Hp_Header
begin

text \<open>
  \<open>http_parser_execute\<close>: the \<open>switch\<close> over the cases of the other theories, the loop over the buffer,
  and the code before and after it; then the invariant of the parser between two calls, and that no
  call fails an assertion, whatever the bytes and the callbacks.
\<close>

unbundle bit_operations_syntax

section \<open>The function\<close>

definition url_schema_states :: "hstate list" where
  "url_schema_states = [s_req_schema, s_req_schema_slash, s_req_schema_slash_slash, s_req_server_start]"

definition url_tail_states :: "hstate list" where
  "url_tail_states = [s_req_server, s_req_server_with_at, s_req_path, s_req_query_string_start,
     s_req_query_string, s_req_fragment_start, s_req_fragment]"

definition req_version_states :: "hstate list" where
  "req_version_states = [s_req_http_H, s_req_http_HT, s_req_http_HTT, s_req_http_HTTP, s_req_http_I,
     s_req_http_IC, s_req_http_major, s_req_http_dot, s_req_http_minor, s_req_line_almost_done]"

definition res_version_states :: "hstate list" where
  "res_version_states = [s_res_H, s_res_HT, s_res_HTT, s_res_HTTP, s_res_http_major, s_res_http_dot,
     s_res_http_minor, s_res_http_end, s_res_line_almost_done]"

definition ex_switch :: "'s exec_env \<Rightarrow> nat \<Rightarrow> 's exec \<Rightarrow> 's outcome" where
  "ex_switch e p c =
     (let s = p_state c
      in if s = s_dead then ex_dead e p c
         else if s = s_start_req_or_res then ex_start_req_or_res e p c
         else if s = s_res_or_resp_H then ex_res_or_resp_H e p c
         else if s = s_start_res then ex_start_res e p c
         else if s \<in> set res_version_states then ex_res_version e p c
         else if s = s_res_first_status_code then ex_res_first_status_code e p c
         else if s = s_res_status_code then ex_res_status_code e p c
         else if s = s_res_status_start then ex_res_status_start e p c
         else if s = s_res_status then ex_res_status e p c
         else if s = s_start_req then ex_start_req e p c
         else if s = s_req_method then ex_req_method e p c
         else if s = s_req_spaces_before_url then ex_req_spaces_before_url e p c
         else if s \<in> set url_schema_states then ex_req_schema e p c
         else if s \<in> set url_tail_states then ex_req_url e p c
         else if s = s_req_http_start then ex_req_http_start e p c
         else if s \<in> set req_version_states then ex_req_version e p c
         else if s = s_req_http_end then ex_req_http_end e p c
         else if s = s_header_field_start then ex_header_field_start e p c
         else if s = s_header_field then ex_header_field e p c
         else if s = s_header_value_discard_ws then ex_header_value_discard_ws e p c
         else if s = s_header_value_start then ex_header_value_start e p c
         else if s = s_header_value then ex_header_value e p c
         else if s = s_header_almost_done then ex_header_almost_done e p c
         else if s = s_header_value_lws then ex_header_value_lws e p c
         else if s = s_header_value_discard_ws_almost_done then ex_header_value_discard_ws_almost_done e p c
         else if s = s_header_value_discard_lws then ex_header_value_discard_lws e p c
         else if s = s_headers_almost_done then ex_headers_almost_done e p c
         else if s = s_headers_done then ex_headers_done e p c
         else if s = s_body_identity then ex_body_identity e p c
         else if s = s_body_identity_eof then ex_body_identity_eof e p c
         else if s = s_message_done then ex_message_done e p c
         else if s = s_chunk_size_start then ex_chunk_size_start e p c
         else if s = s_chunk_size then ex_chunk_size e p c
         else if s = s_chunk_parameters then ex_chunk_parameters e p c
         else if s = s_chunk_size_almost_done then ex_chunk_size_almost_done e p c
         else if s = s_chunk_data then ex_chunk_data e p c
         else if s = s_chunk_data_almost_done then ex_chunk_data_almost_done e p c
         else if s = s_chunk_data_done then ex_chunk_data_done e p c
         else Abort)"

text \<open>One iteration of the loop: the header bytes are counted, then the \<open>switch\<close>.\<close>

definition ex_byte :: "'s exec_env \<Rightarrow> nat \<Rightarrow> 's exec \<Rightarrow> 's outcome" where
  "ex_byte e p c =
     (if PARSING_HEADER (p_state c) then COUNT_HEADER_SIZE e 1 p (ex_switch e p) c
      else ex_switch e p c)"

text \<open>The code after the loop: the assertion on the marks and the leftover callbacks.\<close>

definition ex_finish :: "'s exec_env \<Rightarrow> 's exec \<Rightarrow> 's outcome" where
  "ex_finish e c =
     (let n = length (input e); data = (\<lambda>m. CALLBACK_DATA_NOADVANCE e m n)
      in assert_that (length (filter (\<lambda>m. marks c m \<noteq> None)
             [header_field_mark, header_value_mark, url_mark, body_mark, status_mark]) \<le> 1)
           (data header_field_mark (data header_value_mark (data url_mark (data body_mark
             (data status_mark (\<lambda>c. RETURN c n)))))) c)"

section \<open>Reasoning about outcomes\<close>

text \<open>
  \<open>outcome_sat A P Q o\<close>: a \<open>break\<close> satisfies \<open>P\<close>, a \<open>return\<close> satisfies \<open>Q\<close>, and an abort is allowed only
  when \<open>A\<close> holds.
\<close>

definition outcome_sat ::
  "bool \<Rightarrow> ('s exec \<Rightarrow> nat \<Rightarrow> bool) \<Rightarrow> (http_parser \<Rightarrow> 's \<Rightarrow> nat \<Rightarrow> bool) \<Rightarrow> 's outcome \<Rightarrow> bool" where
  "outcome_sat A P Q o' = (case o' of Break c p \<Rightarrow> P c p | Done h s n \<Rightarrow> Q h s n | Abort \<Rightarrow> A)"

lemma outcome_sat_simps [simp]:
  "outcome_sat A P Q (Break c p) = P c p"
  "outcome_sat A P Q (Done h s n) = Q h s n"
  "outcome_sat A P Q Abort = A"
  by (simp_all add: outcome_sat_def)

lemma sat_RETURN:
  "Q ((hp c)\<lparr>nread := cnt c, state := p_state c\<rparr>) (app c) v \<Longrightarrow> outcome_sat A P Q (RETURN c v)"
  by (simp add: RETURN_def)

lemma sat_fail:
  assumes "er \<noteq> HPE_OK"
    and "Q ((hp c)\<lparr>http_errno := er, nread := cnt c, state := p_state c\<rparr>) (app c) p"
  shows "outcome_sat A P Q (fail er p c)"
  using assms by (simp add: fail_def error_label_def SET_ERRNO_def upd_hp_def RETURN_def)

lemma sat_assert:
  "(\<not> b \<Longrightarrow> A) \<Longrightarrow> (b \<Longrightarrow> outcome_sat A P Q (k c)) \<Longrightarrow> outcome_sat A P Q (assert_that b k c)"
  by (simp add: assert_that_def)

lemma sat_STRICT:
  assumes "b \<Longrightarrow> Q ((hp c)\<lparr>http_errno := HPE_STRICT, nread := cnt c, state := p_state c\<rparr>) (app c) p"
    and "\<not> b \<Longrightarrow> outcome_sat A P Q (k c)"
  shows "outcome_sat A P Q (STRICT_CHECK b p k c)"
  using assms by (simp add: STRICT_CHECK_def sat_fail)

lemma sat_COUNT:
  assumes "\<And>n. Q ((hp c)\<lparr>http_errno := HPE_HEADER_OVERFLOW, nread := n, state := p_state c\<rparr>) (app c) p"
    and "cnt c + of_nat v \<le> max_header_size e \<Longrightarrow> outcome_sat A P Q (k (c\<lparr>cnt := cnt c + of_nat v\<rparr>))"
  shows "outcome_sat A P Q (COUNT_HEADER_SIZE e v p k c)"
  using assms by (auto simp: COUNT_HEADER_SIZE_def Let_def intro!: sat_fail)

text \<open>
  A callback either makes the call return, with its own error or paused, or changes nothing but the
  application and the stored state.
\<close>

lemma hp_update_order:
  "h\<lparr>state := x, nread := n\<rparr> = h\<lparr>nread := n, state := x\<rparr>"
  "h\<lparr>state := x, http_errno := er\<rparr> = h\<lparr>http_errno := er, state := x\<rparr>"
  "h\<lparr>nread := n, http_errno := er\<rparr> = h\<lparr>http_errno := er, nread := n\<rparr>"
  for h :: http_parser
  by simp_all

lemma sat_after_callback:
  assumes "\<And>x s. outcome_sat A P Q (k (c\<lparr>hp := (hp c)\<lparr>state := x\<rparr>, app := s\<rparr>))"
    and "\<And>er n s. er \<noteq> HPE_OK \<Longrightarrow> n = cnt c \<or> n = nread (hp c)
           \<Longrightarrow> Q ((hp c)\<lparr>http_errno := er, nread := n, state := p_state c\<rparr>) s r"
    and "er \<noteq> HPE_OK"
  shows "outcome_sat A P Q
           (after_callback er r k (upd_hp (\<lambda>h. h\<lparr>state := p_state c\<rparr>) c) res)"
proof -
  obtain v paused s where res: "res = (v, paused, s)" by (cases res)
  consider "v \<noteq> 0" | "v = 0" "paused" | "v = 0" "\<not> paused" "http_errno (hp c) \<noteq> HPE_OK"
    | "v = 0" "\<not> paused" "http_errno (hp c) = HPE_OK" by blast
  then show ?thesis
  proof cases
    case 1
    with 1 assms(3) assms(2) [of er "cnt c" s] show ?thesis
      by (simp add: res after_callback_def leave_callback_def SET_ERRNO_def upd_hp_def UPDATE_STATE_def
            hp_update_order)
  next
    case 2
    with assms(2) [of HPE_PAUSED "nread (hp c)" s] show ?thesis
      by (simp add: res after_callback_def leave_callback_def SET_ERRNO_def upd_hp_def UPDATE_STATE_def
            hp_update_order)
  next
    case 3
    with assms(2) [of "http_errno (hp c)" "nread (hp c)" s] show ?thesis
      by (simp add: res after_callback_def leave_callback_def SET_ERRNO_def upd_hp_def UPDATE_STATE_def
            hp_update_order)
  next
    case 4
    then show ?thesis
      using assms(1) [where x = "p_state c" and s = s]
      by (simp add: res after_callback_def leave_callback_def SET_ERRNO_def upd_hp_def UPDATE_STATE_def
            hp_update_order)
  qed
qed

lemma sat_NOTIFY_er:
  assumes "http_errno (hp c) = HPE_OK \<or> A" "er \<noteq> HPE_OK"
    and "\<And>x s. outcome_sat A P Q (k (c\<lparr>hp := (hp c)\<lparr>state := x\<rparr>, app := s\<rparr>))"
    and "\<And>er n s. er \<noteq> HPE_OK \<Longrightarrow> n = cnt c \<or> n = nread (hp c)
           \<Longrightarrow> Q ((hp c)\<lparr>http_errno := er, nread := n, state := p_state c\<rparr>) s r"
  shows "outcome_sat A P Q (CALLBACK_NOTIFY_er cb er r k c)"
proof (cases cb)
  case None
  then show ?thesis
    using assms(1) assms(3) [where x = "state (hp c)" and s = "app c"] by (auto simp: CALLBACK_NOTIFY_er_def assert_that_def)
next
  case (Some f)
  have "outcome_sat A P Q (after_callback er r k (upd_hp (\<lambda>h. h\<lparr>state := p_state c\<rparr>) c) res)" for res
    using assms(2-4) by (rule sat_after_callback [rotated 2])
  note cb = this
  show ?thesis
    using assms(1) cb
    by (cases "http_errno (hp c) = HPE_OK")
       (simp_all add: CALLBACK_NOTIFY_er_def assert_that_def Let_def Some del: split_paired_All)
qed

lemma sat_NOTIFY:
  assumes "http_errno (hp c) = HPE_OK \<or> A" "er \<noteq> HPE_OK"
    and "\<And>x s. outcome_sat A P Q (k (c\<lparr>hp := (hp c)\<lparr>state := x\<rparr>, app := s\<rparr>))"
    and "\<And>er n s. er \<noteq> HPE_OK \<Longrightarrow> n = cnt c \<or> n = nread (hp c)
           \<Longrightarrow> Q ((hp c)\<lparr>http_errno := er, nread := n, state := p_state c\<rparr>) s (p + 1)"
  shows "outcome_sat A P Q (CALLBACK_NOTIFY cb er p k c)"
  using assms by (simp add: CALLBACK_NOTIFY_def sat_NOTIFY_er)

lemma sat_NOTIFY_NOADVANCE:
  assumes "http_errno (hp c) = HPE_OK \<or> A" "er \<noteq> HPE_OK"
    and "\<And>x s. outcome_sat A P Q (k (c\<lparr>hp := (hp c)\<lparr>state := x\<rparr>, app := s\<rparr>))"
    and "\<And>er n s. er \<noteq> HPE_OK \<Longrightarrow> n = cnt c \<or> n = nread (hp c)
           \<Longrightarrow> Q ((hp c)\<lparr>http_errno := er, nread := n, state := p_state c\<rparr>) s p"
  shows "outcome_sat A P Q (CALLBACK_NOTIFY_NOADVANCE cb er p k c)"
  using assms by (simp add: CALLBACK_NOTIFY_NOADVANCE_def sat_NOTIFY_er)

lemma sat_DATA_er:
  assumes "http_errno (hp c) = HPE_OK \<or> A"
    and "\<And>x s. outcome_sat A P Q (k (c\<lparr>hp := (hp c)\<lparr>state := x\<rparr>, app := s, marks := (marks c)(m := None)\<rparr>))"
    and "\<And>er n s. marks c m \<noteq> None \<Longrightarrow> er \<noteq> HPE_OK \<Longrightarrow> n = cnt c \<or> n = nread (hp c)
           \<Longrightarrow> Q ((hp c)\<lparr>http_errno := er, nread := n, state := p_state c\<rparr>) s r"
  shows "outcome_sat A P Q (CALLBACK_DATA_er e m q r k c)"
proof (cases "marks c m")
  case None
  then have "c\<lparr>marks := (marks c)(m := None)\<rparr> = c" by (simp add: fun_upd_idem)
  with None show ?thesis
    using assms(1) assms(2) [where x = "state (hp c)" and s = "app c"] by (auto simp: CALLBACK_DATA_er_def assert_that_def)
next
  case (Some s)
  show ?thesis
  proof (cases "data_cb_of m (settings e)")
    case None
    with Some show ?thesis
      using assms(1) assms(2) [where x = "state (hp c)" and s = "app c"] by (auto simp: CALLBACK_DATA_er_def assert_that_def)
  next
    case (Some f)
    let ?k = "\<lambda>c. k (c\<lparr>marks := (marks c)(m := None)\<rparr>)"
    have err: "data_cb_errno m \<noteq> HPE_OK" by (cases m) simp_all
    have "outcome_sat A P Q (?k (c\<lparr>hp := (hp c)\<lparr>state := x\<rparr>, app := s\<rparr>))" for x s
      using assms(2) [of s x] by simp
    then have "outcome_sat A P Q
        (after_callback (data_cb_errno m) r ?k (upd_hp (\<lambda>h. h\<lparr>state := p_state c\<rparr>) c) res)" for res
      using assms(3) [simplified \<open>marks c m = _\<close>, OF option.distinct(2)] err by (rule sat_after_callback)
    note cb = this
    show ?thesis
      using assms(1) cb
      by (cases "http_errno (hp c) = HPE_OK")
         (simp_all add: CALLBACK_DATA_er_def assert_that_def Let_def Some \<open>marks c m = _\<close> del: split_paired_All)
  qed
qed

lemma sat_DATA:
  assumes "http_errno (hp c) = HPE_OK \<or> A"
    and "\<And>x s. outcome_sat A P Q (k (c\<lparr>hp := (hp c)\<lparr>state := x\<rparr>, app := s, marks := (marks c)(m := None)\<rparr>))"
    and "\<And>er n s. marks c m \<noteq> None \<Longrightarrow> er \<noteq> HPE_OK \<Longrightarrow> n = cnt c \<or> n = nread (hp c)
           \<Longrightarrow> Q ((hp c)\<lparr>http_errno := er, nread := n, state := p_state c\<rparr>) s (p + 1)"
  shows "outcome_sat A P Q (CALLBACK_DATA e m p k c)"
  unfolding CALLBACK_DATA_def using assms by (rule sat_DATA_er)

lemma sat_DATA_NOADVANCE:
  assumes "http_errno (hp c) = HPE_OK \<or> A"
    and "\<And>x s. outcome_sat A P Q (k (c\<lparr>hp := (hp c)\<lparr>state := x\<rparr>, app := s, marks := (marks c)(m := None)\<rparr>))"
    and "\<And>er n s. marks c m \<noteq> None \<Longrightarrow> er \<noteq> HPE_OK \<Longrightarrow> n = cnt c \<or> n = nread (hp c)
           \<Longrightarrow> Q ((hp c)\<lparr>http_errno := er, nread := n, state := p_state c\<rparr>) s p"
  shows "outcome_sat A P Q (CALLBACK_DATA_NOADVANCE e m p k c)"
  unfolding CALLBACK_DATA_NOADVANCE_def using assms by (rule sat_DATA_er)

lemma sat_Break: "P c p \<Longrightarrow> outcome_sat A P Q (Break c p)"
  by simp

lemma sat_if:
  "(b \<Longrightarrow> outcome_sat A P Q x) \<Longrightarrow> (\<not> b \<Longrightarrow> outcome_sat A P Q y) \<Longrightarrow> outcome_sat A P Q (if b then x else y)"
  by simp

lemma sat_case_option:
  "(v = None \<Longrightarrow> outcome_sat A P Q x) \<Longrightarrow> (\<And>m. v = Some m \<Longrightarrow> outcome_sat A P Q (y m))
   \<Longrightarrow> outcome_sat A P Q (case v of None \<Rightarrow> x | Some m \<Rightarrow> y m)"
  by (cases v) simp_all

lemmas sat_intros = sat_Break sat_if sat_case_option sat_RETURN sat_fail sat_assert sat_STRICT
  sat_COUNT sat_NOTIFY_er sat_NOTIFY sat_NOTIFY_NOADVANCE sat_DATA_er sat_DATA sat_DATA_NOADVANCE

section \<open>Positions\<close>

text \<open>
  Every case leaves \<open>p\<close> where it was or further on, inside the buffer, and returns at most its length;
  hence the loop ends.
\<close>

definition within :: "'s exec_env \<Rightarrow> nat \<Rightarrow> 's outcome \<Rightarrow> bool" where
  "within e p o' = outcome_sat True (\<lambda>_ q. p \<le> q \<and> q < length (input e)) (\<lambda>_ _ n. n \<le> length (input e)) o'"

lemmas start_defs = ex_dead_def ex_start_req_def ex_start_req_or_res_def ex_res_or_resp_H_def
  ex_req_method_def url_step_def ex_req_spaces_before_url_def ex_req_schema_def ex_req_url_def
  ex_req_http_start_def ex_req_http_end_def ex_req_version_def ex_start_res_def ex_res_version_def
  ex_res_first_status_code_def ex_res_status_def ex_res_status_start_def ex_res_status_code_def
  expect_def digit_into_def

lemma within_start:
  assumes "p < length (input e)"
  shows "within e p (ex_dead e p c)" "within e p (ex_start_req e p c)"
    "within e p (ex_start_req_or_res e p c)" "within e p (ex_res_or_resp_H e p c)"
    "within e p (ex_req_method e p c)" "within e p (ex_req_spaces_before_url e p c)"
    "within e p (ex_req_schema e p c)" "within e p (ex_req_url e p c)"
    "within e p (ex_req_http_start e p c)" "within e p (ex_req_http_end e p c)"
    "within e p (ex_req_version e p c)" "within e p (ex_start_res e p c)"
    "within e p (ex_res_version e p c)" "within e p (ex_res_first_status_code e p c)"
    "within e p (ex_res_status e p c)" "within e p (ex_res_status_start e p c)"
    "within e p (ex_res_status_code e p c)"
  unfolding within_def start_defs Let_def by (intro sat_intros; simp add: assms less_imp_le Suc_leI)+

lemma token_run_le: "token_run w xs \<le> length xs"
  unfolding token_run_def by (metis length_takeWhile_le length_take min.bounded_iff)

lemma suffix_hf_loop: "hf_loop mhs xs h = Some (rest, h') \<Longrightarrow> \<exists>n \<le> length xs. rest = drop n xs"
proof (induction mhs xs h rule: hf_loop.induct)
  case (1 mhs h)
  then show ?case by simp
next
  case (2 mhs ch xs h)
  let ?k = "token_run (min (length (ch # xs)) mhs) xs"
  consider "TOKEN ch = 0" | "TOKEN ch \<noteq> 0" "header_state h = h_general"
    | h1 where "TOKEN ch \<noteq> 0" "header_state h \<noteq> h_general" "hf_char ch (TOKEN ch) h = Some h1"
    using 2(3) by (auto split: option.splits if_splits)
  then show ?case
  proof cases
    case 1
    with 2(3) show ?thesis by (intro exI [of _ 0]) auto
  next
    case c: 2
    with 2(1,3) obtain n where "n \<le> length (drop ?k xs)" "rest = drop n (drop ?k xs)" by auto
    then show ?thesis by (intro exI [of _ "Suc (?k + n)"]) (use token_run_le [of "min (Suc (length xs)) mhs" xs] in \<open>auto simp: add.commute\<close>)
  next
    case 3
    with 2(2) [OF 3] 2(3) obtain n where "n \<le> length xs" "rest = drop n xs" by auto
    then show ?thesis by (intro exI [of _ "Suc n"]) auto
  qed
qed

definition hv_suffix :: "hv_stop \<Rightarrow> bytes \<Rightarrow> bool" where
  "hv_suffix r xs =
     (case r of
        Hv_Stop rest hs h \<Rightarrow> length rest \<le> length xs
      | Hv_Fail rest er h \<Rightarrow> 0 < length rest \<and> length rest \<le> length xs
      | Hv_Abort \<Rightarrow> True)"

lemma suffix_hv_loop: "hv_suffix (hv_loop len mhs xs hs h) xs"
proof (induction len mhs xs hs h rule: hv_loop.induct)
  case (1 len mhs hs h)
  then show ?case by (simp add: hv_suffix_def)
next
  case (2 len mhs ch xs hs h)
  have lift: "hv_suffix r (ch # xs)" if "hv_suffix r (drop k xs)" for r k
    using that by (auto simp: hv_suffix_def split: hv_stop.splits)
  let ?w = "min (length (ch # xs)) mhs" and ?n = "value_run len (min (length (ch # xs)) mhs) xs"
  have n_le: "?n \<le> min (length xs) (?w - 1)"
    unfolding value_run_def by (metis length_take length_takeWhile_le)
  consider "ch = CR \<or> ch = LF" | "ch \<noteq> CR" "ch \<noteq> LF" "\<not> len \<and> \<not> IS_HEADER_CHAR ch"
    | "ch \<noteq> CR" "ch \<noteq> LF" "len \<or> IS_HEADER_CHAR ch" by blast
  then show ?case
  proof cases
    case 3
    show ?thesis
    proof (cases "hs = h_general")
      case True
      have "?n < length xs" if "?n \<noteq> ?w - 1" using n_le that by auto
      then have f: "hv_suffix (Hv_Fail (drop ?n xs) er h) (ch # xs)" if "?n \<noteq> ?w - 1" for er
        using that by (simp add: hv_suffix_def)
      have a: "hv_suffix (hv_loop len mhs (drop ?w xs) hs h) (ch # xs)" if "?n = ?w - 1"
        using lift 2(1) [OF _ _ True refl refl that] 3 by blast
      have b: "hv_suffix (hv_loop len mhs (drop ?n xs) hs h) (ch # xs)"
        if "?n \<noteq> ?w - 1" "xs ! ?n = CR \<or> xs ! ?n = LF"
        using lift 2(2) [OF _ _ True refl refl that] 3 by blast
      show ?thesis
        using 3 True a b f by (auto simp: Let_def simp del: hv_loop.simps(1))
    next
      case False
      have "hv_suffix (Hv_Fail (ch # xs) er h') (ch # xs)" for er h' by (simp add: hv_suffix_def)
      then show ?thesis using 2(3) 3 False lift [where k = 0]
        by (cases "hv_char ch hs h") (simp_all add: hv_suffix_def)
    qed
  qed (simp_all add: hv_suffix_def)
qed

lemmas body_defs = ex_message_done_def ex_body_identity_def ex_body_identity_eof_def
  ex_chunk_size_start_def ex_chunk_size_def ex_chunk_parameters_def ex_chunk_size_almost_done_def
  ex_chunk_data_def ex_chunk_data_almost_done_def ex_chunk_data_done_def complete_message_def
  ex_headers_done_def

lemma to_read_pos: "content_length (hp c) \<noteq> 0 \<Longrightarrow> p < length (input e) \<Longrightarrow> 0 < to_read e p c"
  by (auto simp: to_read_def unat_gt_0)

lemma to_read_le: "to_read e p c \<le> length (input e) - p"
  by (simp add: to_read_def)

lemma within_body:
  assumes "p < length (input e)"
  shows "within e p (ex_message_done e p c)" "within e p (ex_body_identity e p c)"
    "within e p (ex_body_identity_eof e p c)" "within e p (ex_chunk_size_start e p c)"
    "within e p (ex_chunk_size e p c)" "within e p (ex_chunk_parameters e p c)"
    "within e p (ex_chunk_size_almost_done e p c)" "within e p (ex_chunk_data e p c)"
    "within e p (ex_chunk_data_almost_done e p c)" "within e p (ex_chunk_data_done e p c)"
    "within e p (ex_headers_done e p c)"
  unfolding within_def body_defs Let_def
  by (intro sat_intros;
      use assms to_read_pos [of c p e] to_read_le [of e p c] in \<open>simp add: less_imp_le Suc_leI; linarith?\<close>)+

lemma sat_headers_complete:
  assumes "\<And>c'. outcome_sat A P Q (k c')" and "\<And>h s. Q h s p"
  shows "outcome_sat A P Q (call_headers_complete e p k c)"
  using assms unfolding call_headers_complete_def Let_def
  by (auto split: option.split prod.split intro!: sat_if sat_RETURN)

lemma within_headers_almost_done:
  assumes "p < length (input e)"
  shows "within e p (ex_headers_almost_done e p c)"
  using within_body [OF assms]
  unfolding within_def ex_headers_almost_done_def
  by (intro sat_intros sat_headers_complete; simp add: assms less_imp_le)

lemma within_field_start:
  assumes "p < length (input e)"
  shows "within e p (ex_header_field_start e p c)"
  using within_headers_almost_done [OF assms]
  unfolding within_def ex_header_field_start_def Let_def
  by (intro sat_intros; simp add: assms less_imp_le)

lemma within_header_line:
  assumes "p < length (input e)"
  shows "within e p (ex_header_value_start e p c)" "within e p (ex_header_value_discard_ws e p c)"
    "within e p (ex_header_value_lws e p c)" "within e p (ex_header_almost_done e p c)"
    "within e p (ex_header_value_discard_ws_almost_done e p c)"
    "within e p (ex_header_value_discard_lws e p c)"
  using within_field_start [OF assms]
  unfolding within_def ex_header_value_start_def ex_header_value_discard_ws_def ex_header_value_lws_def
    ex_header_almost_done_def ex_header_value_discard_ws_almost_done_def
    ex_header_value_discard_lws_def Let_def
  by (intro sat_intros; simp add: assms less_imp_le)+

lemma within_header_field:
  assumes "p < length (input e)"
  shows "within e p (ex_header_field e p c)"
proof (cases "hf_loop (unat (max_header_size e)) (drop p (input e)) (hp c)")
  case None
  then show ?thesis by (simp add: within_def ex_header_field_def)
next
  case (Some r)
  then obtain rest h where r: "r = (rest, h)" "length rest \<le> length (input e) - p"
    using suffix_hf_loop by (metis diff_le_self length_drop surj_pair)
  let ?q = "length (input e) - length rest"
  have q: "p \<le> ?q" "?q \<le> length (input e)" using r(2) assms by linarith+
  have "rest \<noteq> [] \<Longrightarrow> ?q < length (input e)" using assms by (cases rest) auto
  with q assms show ?thesis unfolding within_def ex_header_field_def Let_def Some r option.case prod.case
    by (intro sat_intros; auto)
qed

lemma within_header_value:
  assumes "p < length (input e)"
  shows "within e p (ex_header_value e p c)"
proof -
  let ?loop = "hv_loop (lenient e) (unat (max_header_size e)) (drop p (input e)) (header_state (hp c)) (hp c)"
  have suf: "hv_suffix ?loop (drop p (input e))" by (rule suffix_hv_loop )
  show ?thesis
  proof (cases ?loop)
    case (Hv_Stop rest hs h)
    then have le: "length rest \<le> length (input e) - p" using suf by (simp add: hv_suffix_def)
    let ?q = "length (input e) - length rest"
    have q: "p \<le> ?q" "?q \<le> length (input e)" using le assms by linarith+
    have qr: "rest \<noteq> [] \<Longrightarrow> ?q < length (input e)" using assms by (cases rest) auto
    from q qr assms show ?thesis
      unfolding within_def ex_header_value_def ex_header_almost_done_def Let_def Hv_Stop hv_stop.case
      by (intro sat_intros; auto)
  next
    case (Hv_Fail rest er h)
    then have "0 < length rest" using suf by (simp add: hv_suffix_def)
    with Hv_Fail assms show ?thesis
      by (cases "er = HPE_OK") (auto simp: within_def ex_header_value_def Let_def fail_def error_label_def RETURN_def)
  qed (simp add: within_def ex_header_value_def)
qed

lemmas within_cases = within_start within_body within_headers_almost_done within_field_start
  within_header_line within_header_field within_header_value

lemma within_if: "within e p x \<Longrightarrow> within e p y \<Longrightarrow> within e p (if b then x else y)"
  by simp

lemma within_switch: "p < length (input e) \<Longrightarrow> within e p (ex_switch e p c)"
  unfolding ex_switch_def Let_def
  by (intro within_if within_cases) (simp_all add: within_def)

lemma within_byte:
  assumes "p < length (input e)"
  shows "within e p (ex_byte e p c)"
  using within_switch [OF assms] assms unfolding within_def ex_byte_def
  by (intro sat_intros; simp)

lemma ex_byte_advances:
  assumes "ex_byte e p c = Break c' q" "p < length (input e)"
  shows "p \<le> q" "q < length (input e)"
  using within_byte [OF assms(2), of c] assms(1) by (simp_all add: within_def)

section \<open>The loop\<close>

function ex_loop :: "'s exec_env \<Rightarrow> nat \<Rightarrow> 's exec \<Rightarrow> 's outcome" where
  "ex_loop e p c =
     (if p < length (input e)
      then case ex_byte e p c of Break c q \<Rightarrow> ex_loop e (q + 1) c | res \<Rightarrow> res
      else ex_finish e c)"
  by pat_completeness auto
termination
  by (relation "measure (\<lambda>(e, p, c). length (input e) - p)") (auto dest: ex_byte_advances)

declare ex_loop.simps [simp del]

text \<open>
  \<open>http_parser_execute\<close>: the parser, the application state and the number of bytes parsed; \<open>None\<close> is
  an aborted process. \<open>mhs\<close> is the global \<open>max_header_size\<close>. The empty buffer is the end of the stream.
\<close>

definition eof_quiet_states :: "hstate list" where
  "eof_quiet_states = [s_dead, s_start_req_or_res, s_start_res, s_start_req]"

definition ex_eof :: "'s exec_env \<Rightarrow> 's exec \<Rightarrow> 's outcome" where
  "ex_eof e c =
     (if p_state c = s_body_identity_eof
      then CALLBACK_NOTIFY_NOADVANCE (on_message_complete (settings e)) HPE_CB_message_complete 0
             (\<lambda>c. Done (hp c) (app c) 0) c
      else if p_state c \<in> set eof_quiet_states then Done (hp c) (app c) 0
      else let c = SET_ERRNO HPE_INVALID_EOF_STATE c in Done (hp c) (app c) 1)"

definition initial_marks :: "hstate \<Rightarrow> mark \<Rightarrow> nat option" where
  "initial_marks s m =
     (if (m = header_field_mark \<and> s = s_header_field) \<or> (m = header_value_mark \<and> s = s_header_value)
         \<or> (m = url_mark \<and> s \<in> set (url_schema_states @ url_tail_states))
         \<or> (m = status_mark \<and> s = s_res_status)
      then Some 0 else None)"

definition http_parser_execute ::
  "u32 \<Rightarrow> 's http_parser_settings \<Rightarrow> http_parser \<Rightarrow> 's \<Rightarrow> bytes \<Rightarrow> (http_parser \<times> 's \<times> nat) option" where
  "http_parser_execute mhs st h s buf =
     (let e = \<lparr>settings = st, max_header_size = mhs, input = buf, lenient = lenient_http_headers h,
               allow_chunked = allow_chunked_length h\<rparr>;
          c = \<lparr>hp = h, p_state = state h, cnt = nread h, marks = (\<lambda>_. None), app = s\<rparr>
      in if http_errno h \<noteq> HPE_OK then Some (h, s, 0)
         else case (if buf = [] then ex_eof e c else ex_loop e 0 (c\<lparr>marks := initial_marks (state h)\<rparr>)) of
                Done h s n \<Rightarrow> Some (h, s, n)
              | _ \<Rightarrow> None)"

end
