(* ===== verification/Hp_Request.thy ===== *)
theory Hp_Request
  imports Hp_Exec
begin

text \<open>
  What \<open>http_parser_execute\<close> makes of a well-formed request: the callbacks it runs, with which data
  and in which order, and where it stops. The application is any function of the callbacks' data.
\<close>

section \<open>Callbacks as events\<close>

datatype http_event =
    Ev_Begin
  | Ev_Url bytes
  | Ev_Field bytes
  | Ev_Value bytes
  | Ev_Headers http_method u16 u16
  | Ev_Body bytes
  | Ev_Complete bool

text \<open>The events of header lines, given as pairs of a name and a value.\<close>

definition header_events :: "(bytes \<times> bytes) list \<Rightarrow> http_event list" where
  "header_events hs = concat (map (\<lambda>(k, v). [Ev_Field k, Ev_Value v]) hs)"

text \<open>
  The callback table of an application that looks, besides the data, at the method and version when
  the headers are complete and at \<open>upgrade\<close> when the message is, and that never fails or pauses.
\<close>

definition settings_of :: "(http_event \<Rightarrow> 's \<Rightarrow> 's) \<Rightarrow> 's http_parser_settings" where
  "settings_of ev =
     \<lparr>on_message_begin = Some (\<lambda>h s. (0, False, ev Ev_Begin s)),
      on_url = Some (\<lambda>h b s. (0, False, ev (Ev_Url b) s)),
      on_status = None,
      on_header_field = Some (\<lambda>h b s. (0, False, ev (Ev_Field b) s)),
      on_header_value = Some (\<lambda>h b s. (0, False, ev (Ev_Value b) s)),
      on_headers_complete = Some (\<lambda>h s. (0, False, ev (Ev_Headers (pmethod h) (http_major h) (http_minor h)) s)),
      on_body = Some (\<lambda>h b s. (0, False, ev (Ev_Body b) s)),
      on_message_complete = Some (\<lambda>h s. (0, False, ev (Ev_Complete (upgrade h)) s)),
      on_chunk_header = None, on_chunk_complete = None\<rparr>"

section \<open>Stepping through a buffer\<close>

definition at :: "'s exec_env \<Rightarrow> nat \<Rightarrow> bytes \<Rightarrow> bool" where
  "at e p xs \<longleftrightarrow> p \<le> length (input e) \<and> drop p (input e) = xs"

lemma at_Cons:
  assumes "at e p (x # xs)"
  shows "p < length (input e)" "input e ! p = x" "at e (Suc p) xs"
proof -
  show p: "p < length (input e)"
    using assms unfolding at_def by (metis drop_all list.distinct(1) not_le)
  with assms have "x # xs = input e ! p # drop (Suc p) (input e)"
    by (simp add: at_def Cons_nth_drop_Suc)
  with p show "input e ! p = x" "at e (Suc p) xs" by (simp_all add: at_def)
qed

lemma at_append: "at e p (xs @ ys) \<Longrightarrow> at e (p + length xs) ys"
  unfolding at_def by (metis append_eq_conv_conj drop_drop add.commute length_append length_drop le_add1
      le_add_diff_inverse2 nat_add_left_cancel_le)

lemma at_take: "at e p (xs @ ys) \<Longrightarrow> take (length xs) (drop p (input e)) = xs"
  by (simp add: at_def)

text \<open>Room for \<open>n\<close> more header bytes.\<close>

definition room :: "'s exec_env \<Rightarrow> 's exec \<Rightarrow> nat \<Rightarrow> bool" where
  "room e c n \<longleftrightarrow> unat (cnt c) + n \<le> unat (max_header_size e)"

lemma cnt_add:
  assumes "unat (cnt c) + n \<le> unat (max_header_size e)"
  shows "unat (cnt c + of_nat n) = unat (cnt c) + n" "\<not> max_header_size e < cnt c + of_nat n"
proof -
  have lt: "unat (cnt c) + n < 2 ^ 32" using assms unsigned_less [where ?'a = nat, of "max_header_size e"] by simp
  have "cnt c + of_nat n = of_nat (unat (cnt c) + n)" by simp
  then show u: "unat (cnt c + of_nat n) = unat (cnt c) + n"
    using lt by (simp add: unat_of_nat take_bit_nat_eq_self del: of_nat_add)
  show "\<not> max_header_size e < cnt c + of_nat n"
    using assms u by (simp add: word_less_nat_alt)
qed

lemma COUNT_ok:
  "room e c n \<Longrightarrow> COUNT_HEADER_SIZE e n p k c = k (c\<lparr>cnt := cnt c + of_nat n\<rparr>)"
  using cnt_add(2) [of c n e] by (simp add: COUNT_HEADER_SIZE_def room_def Let_def)

lemma loop_header_byte:
  assumes "at e p (x # xs)" "PARSING_HEADER (p_state c)" "room e c 1"
    and "ex_switch e p (c\<lparr>cnt := cnt c + 1\<rparr>) = Break c' q"
  shows "ex_loop e p c = ex_loop e (Suc q) c'"
  using assms at_Cons(1) [OF assms(1)] COUNT_ok [OF assms(3)]
  by (simp add: ex_loop.simps [of e p c] ex_byte_def)

text \<open>The callbacks of \<open>settings_of\<close> always continue.\<close>

lemma NOTIFY_ok:
  assumes "http_errno (hp c) = HPE_OK" "cb = Some (\<lambda>h s. (0, False, f h s))"
  shows "CALLBACK_NOTIFY_er cb er r k c =
    k (c\<lparr>hp := (hp c)\<lparr>state := p_state c\<rparr>, app := f ((hp c)\<lparr>state := p_state c\<rparr>) (app c)\<rparr>)"
  using assms
  by (simp add: CALLBACK_NOTIFY_er_def assert_that_def after_callback_def leave_callback_def
      upd_hp_def UPDATE_STATE_def Let_def)

lemma DATA_ok:
  assumes "http_errno (hp c) = HPE_OK" "marks c m = Some s"
    "data_cb_of m (settings e) = Some (\<lambda>h b s. (0, False, f b s))"
  shows "CALLBACK_DATA_er e m q r k c =
    k (c\<lparr>hp := (hp c)\<lparr>state := p_state c\<rparr>, app := f (take (q - s) (drop s (input e))) (app c),
         marks := (marks c)(m := None)\<rparr>)"
  using assms
  by (simp add: CALLBACK_DATA_er_def assert_that_def after_callback_def leave_callback_def
      upd_hp_def UPDATE_STATE_def Let_def)

section \<open>The request line\<close>

text \<open>The method automaton on its own, from the method and index it has reached.\<close>

fun method_run :: "bytes \<Rightarrow> http_method \<Rightarrow> nat \<Rightarrow> http_method option" where
  "method_run [] m i = (if i = length (method_strings m) then Some m else None)"
| "method_run (ch # cs) m i =
     (if ch = 0 \<or> ch = 32 \<or> length (method_strings m) < i then None
      else if ch = cstr_at (method_strings m) i then method_run cs m (Suc i)
      else if (65 \<le> ch \<and> ch \<le> 90) \<or> ch = 45
      then (case lookup_method method_switch m i ch of None \<Rightarrow> None | Some m' \<Rightarrow> method_run cs m' (Suc i))
      else None)"

lemma method_run_all:
  "\<exists>ch cs m0. method_strings m = ch # cs \<and> start_method ch = Some m0 \<and> method_run cs m0 1 = Some m"
  by (cases m) (simp_all add: start_method_def method_switch_def cstr_at_def)

text \<open>What stays the same while the head of a request with method \<open>m\<close> is read.\<close>

definition head_inv :: "http_method \<Rightarrow> 's exec \<Rightarrow> bool" where
  "head_inv m c \<longleftrightarrow> http_errno (hp c) = HPE_OK \<and> ptype (hp c) = HTTP_REQUEST \<and> pmethod (hp c) = m
     \<and> \<not> uses_transfer_encoding (hp c) \<and> content_length (hp c) = ULLONG_MAX"

lemma switch_simps:
  "p_state c = s_start_req \<Longrightarrow> ex_switch e p c = ex_start_req e p c"
  "p_state c = s_req_method \<Longrightarrow> ex_switch e p c = ex_req_method e p c"
  "p_state c = s_req_spaces_before_url \<Longrightarrow> ex_switch e p c = ex_req_spaces_before_url e p c"
  "p_state c \<in> set url_tail_states \<Longrightarrow> ex_switch e p c = ex_req_url e p c"
  "p_state c = s_req_http_start \<Longrightarrow> ex_switch e p c = ex_req_http_start e p c"
  "p_state c \<in> set req_version_states \<Longrightarrow> ex_switch e p c = ex_req_version e p c"
  "p_state c = s_req_http_end \<Longrightarrow> ex_switch e p c = ex_req_http_end e p c"
  "p_state c = s_header_field_start \<Longrightarrow> ex_switch e p c = ex_header_field_start e p c"
  "p_state c = s_header_field \<Longrightarrow> ex_switch e p c = ex_header_field e p c"
  "p_state c = s_header_value_discard_ws \<Longrightarrow> ex_switch e p c = ex_header_value_discard_ws e p c"
  "p_state c = s_header_value \<Longrightarrow> ex_switch e p c = ex_header_value e p c"
  "p_state c = s_header_almost_done \<Longrightarrow> ex_switch e p c = ex_header_almost_done e p c"
  "p_state c = s_header_value_lws \<Longrightarrow> ex_switch e p c = ex_header_value_lws e p c"
  "p_state c = s_headers_almost_done \<Longrightarrow> ex_switch e p c = ex_headers_almost_done e p c"
  by (auto simp: ex_switch_def url_tail_states_def url_schema_states_def req_version_states_def res_version_states_def)

lemma PARSING_HEADER_simps [simp]:
  "PARSING_HEADER s_start_req" "PARSING_HEADER s_req_method" "PARSING_HEADER s_req_spaces_before_url"
  "PARSING_HEADER s_req_http_start" "PARSING_HEADER s_req_http_end" "PARSING_HEADER s_header_field_start"
  "PARSING_HEADER s_header_field" "PARSING_HEADER s_header_value_discard_ws" "PARSING_HEADER s_header_value"
  "PARSING_HEADER s_header_almost_done" "PARSING_HEADER s_header_value_lws" "PARSING_HEADER s_headers_almost_done"
  "s \<in> set url_tail_states \<Longrightarrow> PARSING_HEADER s" "s \<in> set req_version_states \<Longrightarrow> PARSING_HEADER s"
  by (auto simp: PARSING_HEADER_def url_tail_states_def req_version_states_def)

text \<open>After \<open>n\<close> more header bytes, with no callback run and no mark moved.\<close>

definition quiet :: "'s exec \<Rightarrow> 's exec \<Rightarrow> nat \<Rightarrow> bool" where
  "quiet c c' n \<longleftrightarrow> marks c' = marks c \<and> app c' = app c \<and> flags (hp c') = flags (hp c)
     \<and> unat (cnt c') = unat (cnt c) + n"

lemma quiet_trans: "quiet c c1 n \<Longrightarrow> quiet c1 c2 k \<Longrightarrow> quiet c c2 (n + k)"
  by (simp add: quiet_def)

lemma cnt_Suc: "room e c 1 \<Longrightarrow> unat (cnt c + 1) = Suc (unat (cnt c))"
  using cnt_add(1) [of c 1 e] by (simp add: room_def)

lemma index_Suc: "unat (i :: 5 word) < 31 \<Longrightarrow> unat (i + 1) = Suc (unat i)"
  by (simp add: unat_word_ariths)

lemma method_strings_length: "length (method_strings m) \<le> 11"
  by (cases m) simp_all

lemma loop_method_char:
  assumes "at e p (ch # xs)" "p_state c = s_req_method" "head_inv m c" "room e c 1"
    and "ch \<noteq> 0" "ch \<noteq> 32" "unat (index (hp c)) \<le> length (method_strings m)"
    and "ch = cstr_at (method_strings m) (unat (index (hp c))) \<and> m' = m
       \<or> ch \<noteq> cstr_at (method_strings m) (unat (index (hp c))) \<and> ((65 \<le> ch \<and> ch \<le> 90) \<or> ch = 45)
         \<and> lookup_method method_switch m (unat (index (hp c))) ch = Some m'"
  obtains c' where "ex_loop e p c = ex_loop e (Suc p) c'" "p_state c' = s_req_method" "head_inv m' c'"
    "quiet c c' 1" "unat (index (hp c')) = Suc (unat (index (hp c)))"
proof -
  let ?c = "c\<lparr>cnt := cnt c + 1\<rparr>"
  let ?c' = "upd_hp (\<lambda>h. h\<lparr>index := index h + 1\<rparr>) (upd_hp (\<lambda>h. h\<lparr>pmethod := m'\<rparr>) ?c)"
  have m: "pmethod (hp c) = m" using assms(3) by (simp add: head_inv_def)
  have ch: "input e ! p = ch" by (rule at_Cons(2) [OF assms(1)])
  have "upd_hp (\<lambda>h. h\<lparr>pmethod := m\<rparr>) ?c = ?c" using m by (simp add: upd_hp_def)
  then have "ex_req_method e p ?c = Break ?c' p"
    using assms(8) ch m assms(5-7)
    by (elim disjE conjE) (simp_all add: ex_req_method_def Let_def assert_that_def)
  then have "ex_loop e p c = ex_loop e (Suc p) ?c'"
    using assms by (intro loop_header_byte) (simp_all add: switch_simps)
  moreover have "unat (index (hp c) + 1) = Suc (unat (index (hp c)))"
    using assms(7) method_strings_length [of m] by (intro index_Suc) simp
  ultimately show thesis
    using assms(2-4) cnt_Suc [OF assms(4)]
    by (intro that [of ?c']) (simp_all add: head_inv_def quiet_def upd_hp_def)
qed

lemma room_less: "room e c n \<Longrightarrow> quiet c c' k \<Longrightarrow> n = k + j \<Longrightarrow> room e c' j"
  by (simp add: room_def quiet_def)

lemma room_mono: "room e c n \<Longrightarrow> k \<le> n \<Longrightarrow> room e c k"
  by (simp add: room_def)

lemma loop_method:
  assumes "at e p (cs @ 32 # xs)" "p_state c = s_req_method" "head_inv m0 c" "room e c (length cs + 1)"
    and "method_run cs m0 (unat (index (hp c))) = Some m"
  shows "\<exists>c'. ex_loop e p c = ex_loop e (p + length cs + 1) c' \<and> p_state c' = s_req_spaces_before_url
     \<and> head_inv m c' \<and> quiet c c' (length cs + 1)"
  using assms
proof (induction cs arbitrary: p c m0)
  case Nil
  let ?c = "c\<lparr>cnt := cnt c + 1\<rparr>"
  let ?c' = "upd_hp (\<lambda>h. h\<lparr>index := index h + 1\<rparr>) (UPDATE_STATE s_req_spaces_before_url ?c)"
  have at: "at e p (32 # xs)" and room: "room e c 1" using Nil.prems by simp_all
  have m: "m0 = m" "unat (index (hp c)) = length (method_strings m)"
    using Nil.prems(5) by (auto split: if_splits)
  have "ex_req_method e p ?c = Break ?c' p"
    using at_Cons(2) [OF at] Nil.prems(3) m
    by (simp add: ex_req_method_def Let_def assert_that_def cstr_at_def head_inv_def)
  then have "ex_loop e p c = ex_loop e (Suc p) ?c'"
    using at room Nil.prems(2) by (intro loop_header_byte) (simp_all add: switch_simps)
  then show ?case
    using Nil.prems(3) m cnt_Suc [OF room]
    by (intro exI [of _ ?c']) (simp add: head_inv_def quiet_def upd_hp_def UPDATE_STATE_def)
next
  case (Cons ch cs)
  let ?i = "unat (index (hp c))"
  have at: "at e p (ch # cs @ 32 # xs)" using Cons.prems(1) by simp
  from Cons.prems(5) obtain m1 where run: "method_run cs m1 (Suc ?i) = Some m" "ch \<noteq> 0" "ch \<noteq> 32"
      "?i \<le> length (method_strings m0)"
    "ch = cstr_at (method_strings m0) ?i \<and> m1 = m0
       \<or> ch \<noteq> cstr_at (method_strings m0) ?i \<and> ((65 \<le> ch \<and> ch \<le> 90) \<or> ch = 45)
         \<and> lookup_method method_switch m0 ?i ch = Some m1"
    by (auto simp: not_less split: if_splits option.splits)
  have room: "room e c 1" using Cons.prems(4) by (rule room_mono) simp
  obtain c1 where c1: "ex_loop e p c = ex_loop e (Suc p) c1" "p_state c1 = s_req_method" "head_inv m1 c1"
      "quiet c c1 1" "unat (index (hp c1)) = Suc ?i"
    by (rule loop_method_char [OF at Cons.prems(2,3) room run(2-5)])
  have "room e c1 (length cs + 1)" by (rule room_less [OF Cons.prems(4) c1(4)]) simp
  from Cons.IH [OF at_Cons(3) [OF at] c1(2,3) this] run(1) c1(5) obtain c' where
    "ex_loop e (Suc p) c1 = ex_loop e (Suc p + length cs + 1) c'" "p_state c' = s_req_spaces_before_url"
    "head_inv m c'" "quiet c1 c' (length cs + 1)" by auto
  with c1 quiet_trans [OF c1(4)] show ?case by (intro exI [of _ c']) fastforce
qed

text \<open>The first character, which begins the message.\<close>

lemma loop_start:
  assumes "at e p (ch # xs)" "p_state c = s_start_req" "http_errno (hp c) = HPE_OK" "ptype (hp c) = HTTP_REQUEST"
    and "room e c 1" "start_method ch = Some m0" "settings e = settings_of ev"
  obtains c' where "ex_loop e p c = ex_loop e (Suc p) c'" "p_state c' = s_req_method" "head_inv m0 c'"
    "index (hp c') = 1" "flags (hp c') = 0" "marks c' = marks c" "app c' = ev Ev_Begin (app c)"
    "unat (cnt c') = Suc (unat (cnt c))"
proof -
  let ?c = "c\<lparr>cnt := cnt c + 1\<rparr>"
  have alpha: "IS_ALPHA ch" "ch \<noteq> 13" "ch \<noteq> 10"
    using assms(6) by (auto simp: start_method_def IS_ALPHA_def LOWER_def split: if_splits)
  let ?k = "UPDATE_STATE s_req_method (upd_hp (\<lambda>h. h\<lparr>pmethod := m0\<rparr>)
      (upd_hp (\<lambda>h. h\<lparr>pmethod := HTTP_DELETE, index := 1\<rparr>) (upd_hp reset_message ?c)))"
  let ?c' = "?k\<lparr>hp := (hp ?k)\<lparr>state := p_state ?k\<rparr>, app := ev Ev_Begin (app ?k)\<rparr>"
  have "ex_start_req e p ?c = Break ?c' p"
    using at_Cons(2) [OF assms(1)] alpha assms(3,6,7)
    by (simp add: ex_start_req_def Let_def CALLBACK_NOTIFY_def settings_of_def
        NOTIFY_ok [where f = "\<lambda>h s. ev Ev_Begin s"] upd_hp_def UPDATE_STATE_def reset_message_def)
  then have "ex_loop e p c = ex_loop e (Suc p) ?c'"
    using assms by (intro loop_header_byte) (simp_all add: switch_simps)
  then show thesis
    using assms(3,4) cnt_Suc [OF assms(5)]
    by (intro that [of ?c']) (simp_all add: head_inv_def upd_hp_def UPDATE_STATE_def reset_message_def)
qed

subsection \<open>The target\<close>

definition target_char :: "byte \<Rightarrow> bool" where
  "target_char b \<longleftrightarrow> IS_URL_CHAR b \<or> b = 63 \<or> b = 35"

definition origin_states :: "hstate list" where
  "origin_states = [s_req_path, s_req_query_string_start, s_req_query_string, s_req_fragment_start, s_req_fragment]"

lemma target_char_no_space:
  assumes "target_char b"
  shows "b \<noteq> 32" "b \<noteq> 13" "b \<noteq> 10" "b \<noteq> 9" "b \<noteq> 12"
  using assms by (auto simp: target_char_def IS_URL_CHAR_def BIT_AT_def normal_url_char_def)

lemma parse_url_char_origin:
  assumes "s \<in> set origin_states" "target_char b"
  shows "parse_url_char s b \<in> set origin_states"
proof -
  have b: "b \<noteq> 63 \<Longrightarrow> b \<noteq> 35 \<Longrightarrow> IS_URL_CHAR b" using assms(2) by (simp add: target_char_def)
  consider "s = s_req_path" | "s = s_req_query_string_start" | "s = s_req_query_string"
    | "s = s_req_fragment_start" | "s = s_req_fragment"
    using assms(1) by (auto simp: origin_states_def)
  then show ?thesis
    by cases (use b target_char_no_space [OF assms(2)] in \<open>simp_all add: parse_url_char_def origin_states_def\<close>)
qed

lemma origin_states_tail: "s \<in> set origin_states \<Longrightarrow> s \<in> set url_tail_states \<and> s \<noteq> s_dead"
  by (auto simp: origin_states_def url_tail_states_def)

lemma loop_target:
  assumes "at e p (tgt @ xs)" "\<forall>b \<in> set tgt. target_char b" "p_state c \<in> set origin_states" "head_inv m c"
    and "room e c (length tgt)"
  shows "\<exists>c'. ex_loop e p c = ex_loop e (p + length tgt) c' \<and> p_state c' \<in> set origin_states \<and> head_inv m c'
    \<and> quiet c c' (length tgt)"
  using assms
proof (induction tgt arbitrary: p c)
  case Nil
  then show ?case by (auto simp: quiet_def)
next
  case (Cons b tgt)
  have at: "at e p (b # tgt @ xs)" using Cons.prems(1) by simp
  have room: "room e c 1" using Cons.prems(5) by (rule room_mono) simp
  let ?c = "c\<lparr>cnt := cnt c + 1\<rparr>"
  let ?c' = "UPDATE_STATE (parse_url_char (p_state c) b) ?c"
  have s: "parse_url_char (p_state c) b \<in> set origin_states"
    using Cons.prems by (intro parse_url_char_origin) auto
  have "target_char b" using Cons.prems(2) by simp
  then have "ex_req_url e p ?c = Break ?c' p"
    using at_Cons(2) [OF at] origin_states_tail [OF s] target_char_no_space [of b]
    by (simp add: ex_req_url_def url_step_def UPDATE_STATE_def Let_def)
  then have "ex_loop e p c = ex_loop e (Suc p) ?c'"
    using at room origin_states_tail [OF Cons.prems(3)]
    by (intro loop_header_byte) (simp_all add: switch_simps)
  moreover have q: "quiet c ?c' 1" "head_inv m ?c'" "p_state ?c' \<in> set origin_states"
    using Cons.prems(4) s cnt_Suc [OF room] by (simp_all add: quiet_def head_inv_def UPDATE_STATE_def)
  moreover have "room e ?c' (length tgt)" by (rule room_less [OF Cons.prems(5) q(1)]) simp
  ultimately show ?case
    using Cons.IH [OF at_Cons(3) [OF at], of ?c'] Cons.prems(2) quiet_trans [OF q(1)] by fastforce
qed

lemma loop_target_start:
  assumes "at e p (47 # xs)" "p_state c = s_req_spaces_before_url" "head_inv m c" "m \<noteq> HTTP_CONNECT"
    and "room e c 1" "marks c = (\<lambda>_. None)"
  obtains c' where "ex_loop e p c = ex_loop e (Suc p) c'" "p_state c' = s_req_path" "head_inv m c'"
    "marks c' = [url_mark \<mapsto> p]" "app c' = app c" "flags (hp c') = flags (hp c)" "unat (cnt c') = Suc (unat (cnt c))"
proof -
  let ?c = "c\<lparr>cnt := cnt c + 1\<rparr>"
  let ?c' = "?c\<lparr>marks := [url_mark \<mapsto> p], p_state := s_req_path\<rparr>"
  have "ex_req_spaces_before_url e p ?c = Break ?c' p"
    using at_Cons(2) [OF assms(1)] assms(2,3,4,6)
    by (simp add: ex_req_spaces_before_url_def url_step_def UPDATE_STATE_def MARK_def Let_def
        parse_url_char_def head_inv_def)
  then have "ex_loop e p c = ex_loop e (Suc p) ?c'"
    using assms by (intro loop_header_byte) (simp_all add: switch_simps)
  then show thesis
    using assms(3) cnt_Suc [OF assms(5)] by (intro that [of ?c']) (simp_all add: head_inv_def)
qed

lemma loop_target_end:
  assumes "at e p (32 # xs)" "p_state c \<in> set origin_states" "head_inv m c" "room e c 1"
    and "marks c = [url_mark \<mapsto> s]" "settings e = settings_of ev"
  obtains c' where "ex_loop e p c = ex_loop e (Suc p) c'" "p_state c' = s_req_http_start" "head_inv m c'"
    "marks c' = (\<lambda>_. None)" "app c' = ev (Ev_Url (take (p - s) (drop s (input e)))) (app c)"
    "flags (hp c') = flags (hp c)" "unat (cnt c') = Suc (unat (cnt c))"
proof -
  let ?c = "c\<lparr>cnt := cnt c + 1, p_state := s_req_http_start\<rparr>"
  let ?c' = "?c\<lparr>hp := (hp ?c)\<lparr>state := p_state ?c\<rparr>, app := ev (Ev_Url (take (p - s) (drop s (input e)))) (app ?c),
                marks := (marks ?c)(url_mark := None)\<rparr>"
  have "ex_req_url e p (c\<lparr>cnt := cnt c + 1\<rparr>) = Break ?c' p"
    using at_Cons(2) [OF assms(1)] assms(3,5,6)
    by (simp add: ex_req_url_def UPDATE_STATE_def Let_def CALLBACK_DATA_def head_inv_def settings_of_def
        DATA_ok [where f = "\<lambda>b s. ev (Ev_Url b) s" and s = s])
  then have "ex_loop e p c = ex_loop e (Suc p) ?c'"
    using assms origin_states_tail [OF assms(2)] by (intro loop_header_byte) (simp_all add: switch_simps)
  then show thesis
    using assms(3,5) cnt_Suc [OF assms(4)] by (intro that [of ?c']) (simp_all add: head_inv_def)
qed

subsection \<open>The version\<close>

text \<open>The cases from \<open>s_req_http_start\<close> to the end of the line, for version 1.1, as a table.\<close>

definition version_moves :: "((hstate \<times> byte) \<times> hstate) list" where
  "version_moves = [((s_req_http_start, 72), s_req_http_H), ((s_req_http_H, 84), s_req_http_HT),
     ((s_req_http_HT, 84), s_req_http_HTT), ((s_req_http_HTT, 80), s_req_http_HTTP),
     ((s_req_http_HTTP, 47), s_req_http_major), ((s_req_http_major, 49), s_req_http_dot),
     ((s_req_http_dot, 46), s_req_http_minor), ((s_req_http_minor, 49), s_req_http_end),
     ((s_req_http_end, 13), s_req_line_almost_done), ((s_req_line_almost_done, 10), s_header_field_start)]"

definition version_store :: "hstate \<Rightarrow> http_parser \<Rightarrow> http_parser" where
  "version_store s h =
     (if s = s_req_http_major then h\<lparr>http_major := 1\<rparr>
      else if s = s_req_http_minor then h\<lparr>http_minor := 1\<rparr> else h)"

fun version_run :: "bytes \<Rightarrow> hstate \<Rightarrow> http_parser \<Rightarrow> (hstate \<times> http_parser) option" where
  "version_run [] s h = Some (s, h)"
| "version_run (b # bs) s h =
     (case map_of version_moves (s, b) of
        None \<Rightarrow> None
      | Some t \<Rightarrow> version_run bs t (version_store s h))"

lemma loop_version_char:
  assumes "at e p (b # xs)" "((p_state c, b), t) \<in> set version_moves" "room e c 1"
  shows "ex_loop e p c =
    ex_loop e (Suc p) (c\<lparr>cnt := cnt c + 1, p_state := t, hp := version_store (p_state c) (hp c)\<rparr>)"
proof -
  let ?c' = "c\<lparr>cnt := cnt c + 1, p_state := t, hp := version_store (p_state c) (hp c)\<rparr>"
  have "IS_NUM 49" by (simp add: IS_NUM_def)
  then have "ex_switch e p (c\<lparr>cnt := cnt c + 1\<rparr>) = Break ?c' p \<and> PARSING_HEADER (p_state c)"
    using at_Cons(2) [OF assms(1)] assms(2)
    by (auto simp: version_moves_def switch_simps req_version_states_def ex_req_http_start_def
        ex_req_http_end_def ex_req_version_def expect_def digit_into_def UPDATE_STATE_def upd_hp_def
        version_store_def Let_def)
  with assms show ?thesis by (intro loop_header_byte) simp_all
qed

lemma loop_version_run:
  assumes "at e p (bs @ xs)" "version_run bs (p_state c) (hp c) = Some (t, h)" "room e c (length bs)"
  shows "ex_loop e p c = ex_loop e (p + length bs) (c\<lparr>cnt := cnt c + of_nat (length bs), p_state := t, hp := h\<rparr>)"
  using assms
proof (induction bs arbitrary: p c)
  case (Cons b bs)
  have at: "at e p (b # bs @ xs)" using Cons.prems(1) by simp
  obtain t1 where t1: "map_of version_moves (p_state c, b) = Some t1"
      "version_run bs t1 (version_store (p_state c) (hp c)) = Some (t, h)"
    using Cons.prems(2) by (auto split: option.splits)
  have room: "room e c 1" using Cons.prems(3) by (rule room_mono) simp
  let ?c1 = "c\<lparr>cnt := cnt c + 1, p_state := t1, hp := version_store (p_state c) (hp c)\<rparr>"
  have "room e ?c1 (length bs)" using Cons.prems(3) cnt_Suc [OF room] by (simp add: room_def)
  with Cons.IH [OF at_Cons(3) [OF at], of ?c1] t1 loop_version_char [OF at map_of_SomeD [OF t1(1)] room]
  show ?case by (simp add: add.assoc)
qed auto

lemma loop_version:
  assumes "at e p ([72, 84, 84, 80, 47, 49, 46, 49, 13, 10] @ xs)" "p_state c = s_req_http_start" "head_inv m c" "room e c 10"
  obtains c' where "ex_loop e p c = ex_loop e (p + 10) c'" "p_state c' = s_header_field_start" "head_inv m c'"
    "quiet c c' 10" "http_major (hp c') = 1" "http_minor (hp c') = 1"
proof -
  let ?h = "(hp c)\<lparr>http_major := 1, http_minor := 1\<rparr>"
  let ?c' = "c\<lparr>cnt := cnt c + 10, p_state := s_header_field_start, hp := ?h\<rparr>"
  have "version_run [72, 84, 84, 80, 47, 49, 46, 49, 13, 10] (p_state c) (hp c) = Some (s_header_field_start, ?h)"
    using assms(2) by (simp add: version_moves_def version_store_def)
  from loop_version_run [OF assms(1) this] assms(4) have "ex_loop e p c = ex_loop e (p + 10) ?c'"
    by (simp add: numeral_eq_Suc)
  with assms(3,4) cnt_add(1) [of c 10 e] show thesis
    by (intro that [of ?c']) (simp_all add: head_inv_def quiet_def room_def)
qed

end
