(* ===== verification/Hp_Sim.thy ===== *)
theory Hp_Sim
  imports Hp_Request
begin

text \<open>
  Two runs of \<open>http_parser_execute\<close> on the same bytes, with callback tables that answer alike and keep a
  relation between the two application states, take the same course and end in related states. As a
  consequence the parser can be read as a translator of bytes into events: what an application's state
  becomes is the fold of its event handler over the events of the run.
\<close>

section \<open>Related runs\<close>

definition rel_result :: "('s \<Rightarrow> 't \<Rightarrow> bool) \<Rightarrow> int \<times> bool \<times> 's \<Rightarrow> int \<times> bool \<times> 't \<Rightarrow> bool" where
  "rel_result R x y \<longleftrightarrow> fst x = fst y \<and> fst (snd x) = fst (snd y) \<and> R (snd (snd x)) (snd (snd y))"

definition rel_notify :: "('s \<Rightarrow> 't \<Rightarrow> bool) \<Rightarrow> 's notify_cb option \<Rightarrow> 't notify_cb option \<Rightarrow> bool" where
  "rel_notify R f g =
     (case (f, g) of
        (None, None) \<Rightarrow> True
      | (Some f, Some g) \<Rightarrow> \<forall>h s t. R s t \<longrightarrow> rel_result R (f h s) (g h t)
      | _ \<Rightarrow> False)"

definition rel_data :: "('s \<Rightarrow> 't \<Rightarrow> bool) \<Rightarrow> 's data_cb option \<Rightarrow> 't data_cb option \<Rightarrow> bool" where
  "rel_data R f g =
     (case (f, g) of
        (None, None) \<Rightarrow> True
      | (Some f, Some g) \<Rightarrow> \<forall>h b s t. R s t \<longrightarrow> rel_result R (f h b s) (g h b t)
      | _ \<Rightarrow> False)"

definition rel_settings :: "('s \<Rightarrow> 't \<Rightarrow> bool) \<Rightarrow> 's http_parser_settings \<Rightarrow> 't http_parser_settings \<Rightarrow> bool" where
  "rel_settings R st st' \<longleftrightarrow>
     rel_notify R (on_message_begin st) (on_message_begin st')
     \<and> rel_notify R (on_headers_complete st) (on_headers_complete st')
     \<and> rel_notify R (on_message_complete st) (on_message_complete st')
     \<and> rel_notify R (on_chunk_header st) (on_chunk_header st')
     \<and> rel_notify R (on_chunk_complete st) (on_chunk_complete st')
     \<and> (\<forall>m. rel_data R (data_cb_of m st) (data_cb_of m st'))"

definition rel_env :: "('s \<Rightarrow> 't \<Rightarrow> bool) \<Rightarrow> 's exec_env \<Rightarrow> 't exec_env \<Rightarrow> bool" where
  "rel_env R e e' \<longleftrightarrow> rel_settings R (settings e) (settings e') \<and> max_header_size e' = max_header_size e
     \<and> input e' = input e \<and> lenient e' = lenient e \<and> allow_chunked e' = allow_chunked e"

definition rel_exec :: "('s \<Rightarrow> 't \<Rightarrow> bool) \<Rightarrow> 's exec \<Rightarrow> 't exec \<Rightarrow> bool" where
  "rel_exec R c c' \<longleftrightarrow> hp c' = hp c \<and> p_state c' = p_state c \<and> cnt c' = cnt c \<and> marks c' = marks c
     \<and> R (app c) (app c')"

definition rel_outcome :: "('s \<Rightarrow> 't \<Rightarrow> bool) \<Rightarrow> 's outcome \<Rightarrow> 't outcome \<Rightarrow> bool" where
  "rel_outcome R o1 o2 =
     (case (o1, o2) of
        (Break c p, Break c' p') \<Rightarrow> p' = p \<and> rel_exec R c c'
      | (Done h s n, Done h' s' n') \<Rightarrow> h' = h \<and> n' = n \<and> R s s'
      | (Abort, Abort) \<Rightarrow> True
      | _ \<Rightarrow> False)"

lemma rel_env_fields:
  assumes "rel_env R e e'"
  shows "max_header_size e' = max_header_size e" "input e' = input e" "lenient e' = lenient e"
    "allow_chunked e' = allow_chunked e"
    "rel_notify R (on_message_begin (settings e)) (on_message_begin (settings e'))"
    "rel_notify R (on_headers_complete (settings e)) (on_headers_complete (settings e'))"
    "rel_notify R (on_message_complete (settings e)) (on_message_complete (settings e'))"
    "rel_notify R (on_chunk_header (settings e)) (on_chunk_header (settings e'))"
    "rel_notify R (on_chunk_complete (settings e)) (on_chunk_complete (settings e'))"
    "rel_data R (data_cb_of m (settings e)) (data_cb_of m (settings e'))"
  using assms by (simp_all add: rel_env_def rel_settings_def)

text \<open>The macros, one rule each.\<close>

lemma rel_Break: "rel_exec R c c' \<Longrightarrow> p' = p \<Longrightarrow> rel_outcome R (Break c p) (Break c' p')"
  by (simp add: rel_outcome_def)

lemma rel_Abort: "rel_outcome R Abort Abort"
  by (simp add: rel_outcome_def)

lemma rel_RETURN: "rel_exec R c c' \<Longrightarrow> v' = v \<Longrightarrow> rel_outcome R (RETURN c v) (RETURN c' v')"
  by (simp add: rel_outcome_def RETURN_def rel_exec_def)

lemma rel_fail: "rel_exec R c c' \<Longrightarrow> p' = p \<Longrightarrow> rel_outcome R (fail er p c) (fail er p' c')"
  by (auto simp: fail_def error_label_def SET_ERRNO_def upd_hp_def rel_exec_def intro!: rel_RETURN)

lemma rel_if:
  "b' = b \<Longrightarrow> (b \<Longrightarrow> rel_outcome R x x') \<Longrightarrow> (\<not> b \<Longrightarrow> rel_outcome R y y')
   \<Longrightarrow> rel_outcome R (if b then x else y) (if b' then x' else y')"
  by simp

lemma rel_option:
  "v' = v \<Longrightarrow> (v = None \<Longrightarrow> rel_outcome R x x') \<Longrightarrow> (\<And>m. v = Some m \<Longrightarrow> rel_outcome R (y m) (y' m))
   \<Longrightarrow> rel_outcome R (case v of None \<Rightarrow> x | Some m \<Rightarrow> y m) (case v' of None \<Rightarrow> x' | Some m \<Rightarrow> y' m)"
  by (cases v) simp_all

lemma rel_prod:
  "v' = v \<Longrightarrow> (\<And>a b. v = (a, b) \<Longrightarrow> rel_outcome R (y a b) (y' a b))
   \<Longrightarrow> rel_outcome R (case v of (a, b) \<Rightarrow> y a b) (case v' of (a, b) \<Rightarrow> y' a b)"
  by (cases v) simp

lemma rel_hv_stop:
  "v' = v \<Longrightarrow> (\<And>r hs h. v = Hv_Stop r hs h \<Longrightarrow> rel_outcome R (x r hs h) (x' r hs h))
   \<Longrightarrow> (\<And>r er h. v = Hv_Fail r er h \<Longrightarrow> rel_outcome R (y r er h) (y' r er h)) \<Longrightarrow> rel_outcome R z z'
   \<Longrightarrow> rel_outcome R (case v of Hv_Stop r hs h \<Rightarrow> x r hs h | Hv_Fail r er h \<Rightarrow> y r er h | Hv_Abort \<Rightarrow> z)
         (case v' of Hv_Stop r hs h \<Rightarrow> x' r hs h | Hv_Fail r er h \<Rightarrow> y' r er h | Hv_Abort \<Rightarrow> z')"
  by (cases v) simp_all

lemma rel_assert:
  "b' = b \<Longrightarrow> rel_exec R c c' \<Longrightarrow> (\<And>d d'. rel_exec R d d' \<Longrightarrow> rel_outcome R (k d) (k' d'))
   \<Longrightarrow> rel_outcome R (assert_that b k c) (assert_that b' k' c')"
  by (simp add: assert_that_def rel_Abort)

lemma rel_STRICT:
  "b' = b \<Longrightarrow> rel_exec R c c' \<Longrightarrow> (\<And>d d'. rel_exec R d d' \<Longrightarrow> rel_outcome R (k d) (k' d'))
   \<Longrightarrow> rel_outcome R (STRICT_CHECK b p k c) (STRICT_CHECK b' p k' c')"
  by (simp add: STRICT_CHECK_def rel_fail)

lemma rel_COUNT:
  assumes "rel_env R e e'" "v' = v" "p' = p" "rel_exec R c c'"
    and "\<And>d d'. rel_exec R d d' \<Longrightarrow> rel_outcome R (k d) (k' d')"
  shows "rel_outcome R (COUNT_HEADER_SIZE e v p k c) (COUNT_HEADER_SIZE e' v' p' k' c')"
  using assms by (auto simp: COUNT_HEADER_SIZE_def Let_def rel_env_def rel_exec_def intro!: rel_fail)

lemma rel_after_callback:
  assumes "rel_result R res res'" "rel_exec R c c'"
    and "\<And>d d'. rel_exec R d d' \<Longrightarrow> rel_outcome R (k d) (k' d')"
  shows "rel_outcome R (after_callback er r k c res) (after_callback er r k' c' res')"
proof -
  obtain v b s where res: "res = (v, b, s)" by (cases res)
  with assms(1) obtain t where "res' = (v, b, t)" "R s t"
    by (cases res') (auto simp: rel_result_def)
  with res assms(2) show ?thesis
    by (auto simp: after_callback_def leave_callback_def SET_ERRNO_def upd_hp_def UPDATE_STATE_def Let_def
        rel_exec_def rel_outcome_def [of R "Done _ _ _"] intro!: assms(3))
qed

lemma rel_store_state:
  "rel_exec R c c' \<Longrightarrow> rel_exec R (upd_hp (\<lambda>h. h\<lparr>state := p_state c\<rparr>) c) (upd_hp (\<lambda>h. h\<lparr>state := p_state c'\<rparr>) c')"
  by (simp add: rel_exec_def upd_hp_def)

lemma rel_NOTIFY_er:
  assumes "rel_notify R f g" "rel_exec R c c'" "r' = r"
    and "\<And>d d'. rel_exec R d d' \<Longrightarrow> rel_outcome R (k d) (k' d')"
  shows "rel_outcome R (CALLBACK_NOTIFY_er f er r k c) (CALLBACK_NOTIFY_er g er r' k' c')"
  unfolding CALLBACK_NOTIFY_er_def \<open>r' = r\<close>
proof (rule rel_assert [OF _ assms(2)])
  show "(http_errno (hp c') = HPE_OK) = (http_errno (hp c) = HPE_OK)" using assms(2) by (simp add: rel_exec_def)
  fix d d' assume d: "rel_exec R d d'"
  let ?d = "upd_hp (\<lambda>h. h\<lparr>state := p_state d\<rparr>) d" and ?d' = "upd_hp (\<lambda>h. h\<lparr>state := p_state d'\<rparr>) d'"
  have u: "rel_exec R ?d ?d'" using d by (rule rel_store_state)
  then have a: "hp ?d' = hp ?d" "R (app ?d) (app ?d')" by (simp_all add: rel_exec_def)
  show "rel_outcome R
      (case f of None \<Rightarrow> k d | Some f \<Rightarrow> let c = ?d in after_callback er r k c (f (hp c) (app c)))
      (case g of None \<Rightarrow> k' d' | Some f \<Rightarrow> let c = ?d' in after_callback er r k' c (f (hp c) (app c)))"
    using assms(1) assms(4) [OF d] rel_after_callback [OF _ u assms(4)] a
    by (auto simp: rel_notify_def Let_def split: option.splits)
qed

lemma rel_DATA_er:
  assumes "rel_env R e e'" "rel_exec R c c'" "q' = q" "r' = r"
    and "\<And>d d'. rel_exec R d d' \<Longrightarrow> rel_outcome R (k d) (k' d')"
  shows "rel_outcome R (CALLBACK_DATA_er e m q r k c) (CALLBACK_DATA_er e' m q' r' k' c')"
  unfolding CALLBACK_DATA_er_def \<open>q' = q\<close> \<open>r' = r\<close>
proof (rule rel_assert [OF _ assms(2)])
  show "(http_errno (hp c') = HPE_OK) = (http_errno (hp c) = HPE_OK)" using assms(2) by (simp add: rel_exec_def)
  fix d d' assume d: "rel_exec R d d'"
  let ?d = "upd_hp (\<lambda>h. h\<lparr>state := p_state d\<rparr>) d" and ?d' = "upd_hp (\<lambda>h. h\<lparr>state := p_state d'\<rparr>) d'"
  let ?k = "\<lambda>c. k (c\<lparr>marks := (marks c)(m := None)\<rparr>)" and ?k' = "\<lambda>c. k' (c\<lparr>marks := (marks c)(m := None)\<rparr>)"
  have u: "rel_exec R ?d ?d'" using d by (rule rel_store_state)
  then have a: "hp ?d' = hp ?d" "R (app ?d) (app ?d')" by (simp_all add: rel_exec_def)
  have k: "rel_outcome R (?k x) (?k' x')" if "rel_exec R x x'" for x x'
    using that by (intro assms(5)) (simp add: rel_exec_def)
  have cb: "rel_data R (data_cb_of m (settings e)) (data_cb_of m (settings e'))" and i: "input e' = input e"
    using rel_env_fields [OF assms(1)] by simp_all
  have m: "marks d' = marks d" using d by (simp add: rel_exec_def)
  show "rel_outcome R
      (case marks d m of None \<Rightarrow> k d
       | Some s \<Rightarrow> let k = ?k in case data_cb_of m (settings e) of None \<Rightarrow> k d
           | Some f \<Rightarrow> let c = ?d in after_callback (data_cb_errno m) r k c (f (hp c) (take (q - s) (drop s (input e))) (app c)))
      (case marks d' m of None \<Rightarrow> k' d'
       | Some s \<Rightarrow> let k = ?k' in case data_cb_of m (settings e') of None \<Rightarrow> k d'
           | Some f \<Rightarrow> let c = ?d' in after_callback (data_cb_errno m) r k c (f (hp c) (take (q - s) (drop s (input e'))) (app c)))"
    using cb assms(5) [OF d] k [OF d] rel_after_callback [OF _ u k] a
    by (auto simp: rel_data_def Let_def m i split: option.splits)
qed

lemma rel_NOTIFY:
  assumes "rel_notify R f g" "rel_exec R c c'"
    and "\<And>d d'. rel_exec R d d' \<Longrightarrow> rel_outcome R (k d) (k' d')"
  shows "rel_outcome R (CALLBACK_NOTIFY f er p k c) (CALLBACK_NOTIFY g er p k' c')"
    and "rel_outcome R (CALLBACK_NOTIFY_NOADVANCE f er p k c) (CALLBACK_NOTIFY_NOADVANCE g er p k' c')"
  unfolding CALLBACK_NOTIFY_def CALLBACK_NOTIFY_NOADVANCE_def using assms by (intro rel_NOTIFY_er; simp)+

lemma rel_DATA:
  assumes "rel_env R e e'" "rel_exec R c c'" "p' = p"
    and "\<And>d d'. rel_exec R d d' \<Longrightarrow> rel_outcome R (k d) (k' d')"
  shows "rel_outcome R (CALLBACK_DATA e m p k c) (CALLBACK_DATA e' m p' k' c')"
    and "rel_outcome R (CALLBACK_DATA_NOADVANCE e m p k c) (CALLBACK_DATA_NOADVANCE e' m p' k' c')"
  unfolding CALLBACK_DATA_def CALLBACK_DATA_NOADVANCE_def using assms by (intro rel_DATA_er; simp)+

lemmas rel_intros = rel_Break rel_Abort rel_RETURN rel_fail rel_if rel_option rel_prod rel_hv_stop
  rel_assert rel_STRICT rel_COUNT rel_NOTIFY_er rel_NOTIFY rel_DATA_er rel_DATA

lemma rel_MARK_fields:
  "hp (MARK m p c) = hp c" "p_state (MARK m p c) = p_state c" "cnt (MARK m p c) = cnt c" "app (MARK m p c) = app c"
  "marks (MARK m p c) = (marks c)(m \<mapsto> case_option p (\<lambda>x. x) (marks c m))"
  by (auto simp: MARK_def fun_eq_iff split: option.split)

lemmas rel_simps = rel_env_fields rel_exec_def UPDATE_STATE_def upd_hp_def rel_MARK_fields SET_ERRNO_def
  reset_nread_def take_body_def to_read_def

section \<open>The cases of the switch\<close>

lemma rel_start:
  assumes "rel_env R e e'" "rel_exec R c c'"
  shows "rel_outcome R (ex_dead e p c) (ex_dead e' p c')" "rel_outcome R (ex_start_req e p c) (ex_start_req e' p c')"
    "rel_outcome R (ex_start_req_or_res e p c) (ex_start_req_or_res e' p c')"
    "rel_outcome R (ex_res_or_resp_H e p c) (ex_res_or_resp_H e' p c')"
    "rel_outcome R (ex_req_method e p c) (ex_req_method e' p c')"
    "rel_outcome R (ex_req_spaces_before_url e p c) (ex_req_spaces_before_url e' p c')"
    "rel_outcome R (ex_req_schema e p c) (ex_req_schema e' p c')"
    "rel_outcome R (ex_req_url e p c) (ex_req_url e' p c')"
    "rel_outcome R (ex_req_http_start e p c) (ex_req_http_start e' p c')"
    "rel_outcome R (ex_req_http_end e p c) (ex_req_http_end e' p c')"
    "rel_outcome R (ex_req_version e p c) (ex_req_version e' p c')"
    "rel_outcome R (ex_start_res e p c) (ex_start_res e' p c')"
    "rel_outcome R (ex_res_version e p c) (ex_res_version e' p c')"
    "rel_outcome R (ex_res_first_status_code e p c) (ex_res_first_status_code e' p c')"
    "rel_outcome R (ex_res_status e p c) (ex_res_status e' p c')"
    "rel_outcome R (ex_res_status_start e p c) (ex_res_status_start e' p c')"
    "rel_outcome R (ex_res_status_code e p c) (ex_res_status_code e' p c')"
  unfolding start_defs Let_def
  by (intro rel_intros; use assms in \<open>simp add: rel_simps split: if_splits\<close>)+

lemma rel_body:
  assumes "rel_env R e e'" "rel_exec R c c'"
  shows "rel_outcome R (ex_message_done e p c) (ex_message_done e' p c')"
    "rel_outcome R (ex_body_identity e p c) (ex_body_identity e' p c')"
    "rel_outcome R (ex_body_identity_eof e p c) (ex_body_identity_eof e' p c')"
    "rel_outcome R (ex_chunk_size_start e p c) (ex_chunk_size_start e' p c')"
    "rel_outcome R (ex_chunk_size e p c) (ex_chunk_size e' p c')"
    "rel_outcome R (ex_chunk_parameters e p c) (ex_chunk_parameters e' p c')"
    "rel_outcome R (ex_chunk_size_almost_done e p c) (ex_chunk_size_almost_done e' p c')"
    "rel_outcome R (ex_chunk_data e p c) (ex_chunk_data e' p c')"
    "rel_outcome R (ex_chunk_data_almost_done e p c) (ex_chunk_data_almost_done e' p c')"
    "rel_outcome R (ex_chunk_data_done e p c) (ex_chunk_data_done e' p c')"
    "rel_outcome R (ex_headers_done e p c) (ex_headers_done e' p c')"
  unfolding body_defs Let_def
  by (intro rel_intros; use assms in \<open>simp add: rel_simps split: if_splits\<close>)+

lemma rel_headers_complete:
  assumes "rel_env R e e'" "rel_exec R c c'"
    and "\<And>d d'. rel_exec R d d' \<Longrightarrow> rel_outcome R (k d) (k' d')"
  shows "rel_outcome R (call_headers_complete e p k c) (call_headers_complete e' p k' c')"
proof -
  let ?k = "\<lambda>k c. if http_errno (hp c) \<noteq> HPE_OK then RETURN c p else k c"
  have k: "rel_outcome R (?k k d) (?k k' d')" if "rel_exec R d d'" for d d'
    using that assms(3) by (intro rel_if rel_RETURN) (simp_all add: rel_exec_def)
  have cb: "rel_notify R (on_headers_complete (settings e)) (on_headers_complete (settings e'))"
    using rel_env_fields [OF assms(1)] by simp
  consider "on_headers_complete (settings e) = None" "on_headers_complete (settings e') = None"
    | f g where "on_headers_complete (settings e) = Some f" "on_headers_complete (settings e') = Some g"
      "rel_result R (f (hp c) (app c)) (g (hp c') (app c'))"
    using cb assms(2) by (auto simp: rel_notify_def rel_exec_def split: option.splits)
  then show ?thesis
  proof cases
    case 1
    with k [OF assms(2)] show ?thesis by (simp add: call_headers_complete_def Let_def)
  next
    case 2
    obtain r b s where f: "f (hp c) (app c) = (r, b, s)" by (cases "f (hp c) (app c)")
    with 2(3) obtain t where g: "g (hp c') (app c') = (r, b, t)" "R s t"
      by (cases "g (hp c') (app c')") (auto simp: rel_result_def)
    have l: "rel_exec R (leave_callback b s c) (leave_callback b t c')"
      using assms(2) g(2) by (simp add: leave_callback_def rel_exec_def)
    show ?thesis
      unfolding call_headers_complete_def Let_def 2(1,2) option.case f g prod.case
      using l by (intro rel_if k rel_RETURN) (simp_all add: rel_simps)
  qed
qed

lemma rel_headers_almost_done:
  assumes "rel_env R e e'" "rel_exec R c c'"
  shows "rel_outcome R (ex_headers_almost_done e p c) (ex_headers_almost_done e' p c')"
  unfolding ex_headers_almost_done_def
  by (intro rel_intros rel_headers_complete rel_body assms(1);
      use assms in \<open>simp add: rel_simps both_lengths_def split: if_splits\<close>)

lemma rel_field_start:
  assumes "rel_env R e e'" "rel_exec R c c'"
  shows "rel_outcome R (ex_header_field_start e p c) (ex_header_field_start e' p c')"
  unfolding ex_header_field_start_def Let_def
  by (intro rel_intros rel_headers_almost_done assms(1); use assms in \<open>simp add: rel_simps split: if_splits\<close>)

lemma rel_header_line:
  assumes "rel_env R e e'" "rel_exec R c c'"
  shows "rel_outcome R (ex_header_value_start e p c) (ex_header_value_start e' p c')"
    "rel_outcome R (ex_header_value_discard_ws e p c) (ex_header_value_discard_ws e' p c')"
    "rel_outcome R (ex_header_value_lws e p c) (ex_header_value_lws e' p c')"
    "rel_outcome R (ex_header_almost_done e p c) (ex_header_almost_done e' p c')"
    "rel_outcome R (ex_header_value_discard_ws_almost_done e p c) (ex_header_value_discard_ws_almost_done e' p c')"
    "rel_outcome R (ex_header_value_discard_lws e p c) (ex_header_value_discard_lws e' p c')"
    "rel_outcome R (ex_header_field e p c) (ex_header_field e' p c')"
    "rel_outcome R (ex_header_value e p c) (ex_header_value e' p c')"
  unfolding ex_header_value_start_def ex_header_value_discard_ws_def ex_header_value_lws_def
    ex_header_almost_done_def ex_header_value_discard_ws_almost_done_def ex_header_value_discard_lws_def
    ex_header_field_def ex_header_value_def Let_def
  by (intro rel_intros rel_field_start assms(1);
      use assms in \<open>simp add: rel_simps split: if_splits\<close>)+

lemmas rel_cases = rel_start rel_body rel_headers_almost_done rel_field_start rel_header_line

lemma rel_switch:
  assumes "rel_env R e e'" "rel_exec R c c'"
  shows "rel_outcome R (ex_switch e p c) (ex_switch e' p c')"
  unfolding ex_switch_def Let_def
  by (intro rel_if rel_cases rel_Abort assms) (use assms(2) in \<open>simp_all add: rel_exec_def\<close>)

section \<open>The call\<close>

lemma rel_byte:
  assumes "rel_env R e e'" "rel_exec R c c'"
  shows "rel_outcome R (ex_byte e p c) (ex_byte e' p c')"
  unfolding ex_byte_def
  by (intro rel_if rel_COUNT rel_switch assms) (use assms(2) in \<open>simp_all add: rel_exec_def\<close>)

lemma rel_finish:
  assumes "rel_env R e e'" "rel_exec R c c'"
  shows "rel_outcome R (ex_finish e c) (ex_finish e' c')"
  unfolding ex_finish_def Let_def
  by (intro rel_intros; use assms in \<open>simp add: rel_simps\<close>)

lemma rel_loop:
  assumes "rel_env R e e'" "rel_exec R c c'"
  shows "rel_outcome R (ex_loop e p c) (ex_loop e' p c')"
  using assms
proof (induction e p c arbitrary: c' rule: ex_loop.induct)
  case (1 e p c)
  have i: "input e' = input e" using 1(2) by (simp add: rel_env_def)
  have b: "rel_outcome R (ex_byte e p c) (ex_byte e' p c')" using 1(2,3) by (rule rel_byte)
  show ?case
  proof (cases "p < length (input e)")
    case False
    with 1(2,3) show ?thesis by (simp add: ex_loop.simps [of e] ex_loop.simps [of e'] i rel_finish)
  next
    case True
    show ?thesis
    proof (cases "ex_byte e p c")
      case (Break d q)
      with b obtain d' where "ex_byte e' p c' = Break d' q" "rel_exec R d d'"
        by (auto simp: rel_outcome_def split: outcome.splits)
      with 1(1) [OF True Break 1(2)] Break True show ?thesis
        by (simp add: ex_loop.simps [of e p] ex_loop.simps [of e' p] i)
    next
      case (Done h s n)
      with b obtain t where "ex_byte e' p c' = Done h t n" "R s t"
        by (auto simp: rel_outcome_def split: outcome.splits)
      with Done True show ?thesis
        by (simp add: ex_loop.simps [of e p] ex_loop.simps [of e' p] i) (simp add: rel_outcome_def)
    next
      case Abort
      with b have "ex_byte e' p c' = Abort" by (auto simp: rel_outcome_def split: outcome.splits)
      with Abort True show ?thesis
        by (simp add: ex_loop.simps [of e p] ex_loop.simps [of e' p] i rel_Abort)
    qed
  qed
qed

lemma rel_eof:
  assumes "rel_env R e e'" "rel_exec R c c'"
  shows "rel_outcome R (ex_eof e c) (ex_eof e' c')"
proof -
  have d: "rel_outcome R (Done (hp d) (app d) n) (Done (hp d') (app d') n)" if "rel_exec R d d'" for d d' n
    using that by (simp add: rel_exec_def rel_outcome_def)
  show ?thesis
    unfolding ex_eof_def Let_def using assms
    by (intro rel_if rel_NOTIFY d) (simp_all add: rel_simps)
qed

lemma rel_execute:
  assumes "rel_settings R st st'" "R s t"
  shows "rel_option (\<lambda>(h1, s1, n1) (h2, t1, n2). h2 = h1 \<and> n2 = n1 \<and> R s1 t1)
    (http_parser_execute mhs st h s buf) (http_parser_execute mhs st' h t buf)"
proof -
  let ?e = "\<lparr>settings = st, max_header_size = mhs, input = buf, lenient = lenient_http_headers h,
               allow_chunked = allow_chunked_length h\<rparr>"
  let ?e' = "\<lparr>settings = st', max_header_size = mhs, input = buf, lenient = lenient_http_headers h,
               allow_chunked = allow_chunked_length h\<rparr>"
  let ?c = "\<lambda>m s. \<lparr>hp = h, p_state = state h, cnt = nread h, marks = m, app = s\<rparr>"
  have e: "rel_env R ?e ?e'" using assms(1) by (simp add: rel_env_def)
  have c: "rel_exec R (?c m s) (?c m t)" for m using assms(2) by (simp add: rel_exec_def)
  have o: "rel_outcome R (if buf = [] then ex_eof ?e (?c (\<lambda>_. None) s) else ex_loop ?e 0 (?c (initial_marks (state h)) s))
      (if buf = [] then ex_eof ?e' (?c (\<lambda>_. None) t) else ex_loop ?e' 0 (?c (initial_marks (state h)) t))"
    by (intro rel_if refl rel_eof rel_loop e c)
  let ?R = "\<lambda>(h1, s1, n1) (h2, t1, n2). h2 = h1 \<and> n2 = n1 \<and> R s1 t1"
  have res: "rel_option ?R (case x of Done h s n \<Rightarrow> Some (h, s, n) | _ \<Rightarrow> None)
      (case y of Done h s n \<Rightarrow> Some (h, s, n) | _ \<Rightarrow> None)" if "rel_outcome R x y" for x y
    using that by (cases x; cases y) (simp_all add: rel_outcome_def)
  show ?thesis
    using assms(2) res [OF o] by (cases "http_errno h = HPE_OK"; cases "buf = []") (simp_all add: http_parser_execute_def Let_def)
qed

text \<open>The events of a call.\<close>

definition collecting_events :: "http_event list http_parser_settings" where
  "collecting_events = settings_of (\<lambda>ev evs. evs @ [ev])"

definition execute_events :: "u32 \<Rightarrow> http_parser \<Rightarrow> bytes \<Rightarrow> (http_parser \<times> http_event list \<times> nat) option" where
  "execute_events mhs h buf = http_parser_execute mhs collecting_events h [] buf"

lemma execute_fold:
  "http_parser_execute mhs (settings_of ev) h s buf =
     map_option (\<lambda>(h, evs, n). (h, fold ev evs s, n)) (execute_events mhs h buf)"
proof -
  let ?R = "\<lambda>evs t. t = fold ev evs s"
  have "rel_settings ?R collecting_events (settings_of ev)"
    unfolding rel_settings_def collecting_events_def
  proof (intro conjI allI)
    show "rel_data ?R (data_cb_of m (settings_of (\<lambda>ev evs. evs @ [ev]))) (data_cb_of m (settings_of ev))" for m
      by (cases m) (simp_all add: settings_of_def rel_data_def rel_result_def)
  qed (simp_all add: settings_of_def rel_notify_def rel_result_def)
  from rel_execute [OF this, where s = "[]" and t = s and mhs = mhs and h = h and buf = buf]
  show ?thesis
    by (cases "execute_events mhs h buf"; cases "http_parser_execute mhs (settings_of ev) h s buf")
       (auto simp: execute_events_def)
qed

end
