(* ===== verification/Hp_Safety.thy ===== *)
theory Hp_Safety
  imports Hp_Exec
begin

text \<open>
  Safety of \<open>http_parser_execute\<close>: an invariant of the parser between two calls, kept by every call for
  every buffer and every callback table, under which no assertion of the code fails and no string
  constant is read past its end.
\<close>

unbundle bit_operations_syntax

section \<open>The invariant\<close>

definition chunk_states :: "hstate set" where
  "chunk_states = {s_chunk_size_start, s_chunk_size, s_chunk_parameters, s_chunk_size_almost_done,
     s_chunk_data, s_chunk_data_almost_done, s_chunk_data_done}"

definition field_states :: "header_states set" where
  "field_states = {h_general, h_C, h_CO, h_CON, h_matching_connection, h_matching_proxy_connection,
     h_matching_content_length, h_matching_transfer_encoding, h_matching_upgrade, h_connection,
     h_content_length, h_transfer_encoding, h_upgrade}"

text \<open>What a state says of the parser; \<open>n\<close> is the count of header bytes.\<close>

definition st_inv :: "hstate \<Rightarrow> http_parser \<Rightarrow> u32 \<Rightarrow> bool" where
  "st_inv s h n \<longleftrightarrow>
     (s \<in> chunk_states \<longrightarrow> has_flag h F_CHUNKED)
   \<and> (s = s_chunk_size_start \<longrightarrow> n = 0)
   \<and> (s \<in> {s_chunk_size, s_chunk_parameters, s_chunk_size_almost_done} \<longrightarrow> content_length h \<noteq> ULLONG_MAX)
   \<and> (s \<in> {s_body_identity, s_chunk_data} \<longrightarrow> content_length h \<noteq> 0 \<and> content_length h \<noteq> ULLONG_MAX)
   \<and> (s = s_chunk_data_almost_done \<longrightarrow> content_length h = 0)
   \<and> (s = s_header_field \<longrightarrow> header_state h \<in> field_states)
   \<and> (s = s_header_value \<longrightarrow> header_state h \<notin> {h_connection, h_transfer_encoding})
   \<and> (s = s_req_method \<longrightarrow> unat (index h) \<le> length (method_strings (pmethod h)))"

text \<open>The states in which a mark may be set.\<close>

primrec mark_states :: "mark \<Rightarrow> hstate set" where
  "mark_states header_field_mark = {s_header_field}"
| "mark_states header_value_mark = {s_header_value}"
| "mark_states url_mark = set (url_schema_states @ url_tail_states)"
| "mark_states body_mark = {s_body_identity, s_body_identity_eof, s_chunk_data, s_chunk_data_almost_done}"
| "mark_states status_mark = {s_res_status}"

definition marks_inv :: "hstate \<Rightarrow> (mark \<Rightarrow> nat option) \<Rightarrow> bool" where
  "marks_inv s M \<longleftrightarrow> (\<forall>m. M m \<noteq> None \<longrightarrow> s \<in> mark_states m)"

text \<open>The parser between calls: with no error or paused, its stored state and count are consistent.\<close>

definition parser_inv :: "http_parser \<Rightarrow> bool" where
  "parser_inv h \<longleftrightarrow> (http_errno h \<in> {HPE_OK, HPE_PAUSED} \<longrightarrow> st_inv (state h) h (nread h))"

definition loop_inv :: "'s exec \<Rightarrow> bool" where
  "loop_inv c \<longleftrightarrow> http_errno (hp c) = HPE_OK \<and> st_inv (p_state c) (hp c) (cnt c) \<and> marks_inv (p_state c) (marks c)"

definition safe :: "'s outcome \<Rightarrow> bool" where
  "safe o' = outcome_sat False (\<lambda>c _. loop_inv c) (\<lambda>h _ _. parser_inv h) o'"

section \<open>The cases\<close>

lemma has_flag_set_flag: "has_flag h g \<Longrightarrow> has_flag (set_flag f h) g"
  by (auto simp: has_flag_def set_flag_def bit_eq_iff bit_simps)

lemma set_flag_fields [simp]:
  "http_errno (set_flag f h) = http_errno h" "header_state (set_flag f h) = header_state h"
  "content_length (set_flag f h) = content_length h" "index (set_flag f h) = index h"
  "pmethod (set_flag f h) = pmethod h" "state (set_flag f h) = state h" "nread (set_flag f h) = nread h"
  "uses_transfer_encoding (set_flag f h) = uses_transfer_encoding h" "upgrade (set_flag f h) = upgrade h"
  by (simp_all add: set_flag_def)

text \<open>The invariant at each state.\<close>

lemma st_inv_plain [simp]:
  "st_inv s_dead h n" "st_inv s_start_req_or_res h n" "st_inv s_res_or_resp_H h n"
  "st_inv s_start_res h n" "st_inv s_res_H h n" "st_inv s_res_HT h n" "st_inv s_res_HTT h n"
  "st_inv s_res_HTTP h n" "st_inv s_res_http_major h n" "st_inv s_res_http_dot h n"
  "st_inv s_res_http_minor h n" "st_inv s_res_http_end h n" "st_inv s_res_first_status_code h n"
  "st_inv s_res_status_code h n" "st_inv s_res_status_start h n" "st_inv s_res_status h n"
  "st_inv s_res_line_almost_done h n" "st_inv s_start_req h n" "st_inv s_req_spaces_before_url h n"
  "st_inv s_req_schema h n" "st_inv s_req_schema_slash h n" "st_inv s_req_schema_slash_slash h n"
  "st_inv s_req_server_start h n" "st_inv s_req_server h n" "st_inv s_req_server_with_at h n"
  "st_inv s_req_path h n" "st_inv s_req_query_string_start h n" "st_inv s_req_query_string h n"
  "st_inv s_req_fragment_start h n" "st_inv s_req_fragment h n" "st_inv s_req_http_start h n"
  "st_inv s_req_http_H h n" "st_inv s_req_http_HT h n" "st_inv s_req_http_HTT h n"
  "st_inv s_req_http_HTTP h n" "st_inv s_req_http_I h n" "st_inv s_req_http_IC h n"
  "st_inv s_req_http_major h n" "st_inv s_req_http_dot h n" "st_inv s_req_http_minor h n"
  "st_inv s_req_http_end h n" "st_inv s_req_line_almost_done h n" "st_inv s_header_field_start h n"
  "st_inv s_header_value_discard_ws h n" "st_inv s_header_value_discard_ws_almost_done h n"
  "st_inv s_header_value_discard_lws h n" "st_inv s_header_value_start h n"
  "st_inv s_header_value_lws h n" "st_inv s_header_almost_done h n"
  "st_inv s_headers_almost_done h n" "st_inv s_headers_done h n" "st_inv s_body_identity_eof h n"
  "st_inv s_message_done h n"
  by (simp_all add: st_inv_def chunk_states_def)

lemma st_inv_special [simp]:
  "st_inv s_chunk_size_start h n \<longleftrightarrow> has_flag h F_CHUNKED \<and> n = 0"
  "st_inv s_chunk_size h n \<longleftrightarrow> has_flag h F_CHUNKED \<and> content_length h \<noteq> ULLONG_MAX"
  "st_inv s_chunk_parameters h n \<longleftrightarrow> has_flag h F_CHUNKED \<and> content_length h \<noteq> ULLONG_MAX"
  "st_inv s_chunk_size_almost_done h n \<longleftrightarrow> has_flag h F_CHUNKED \<and> content_length h \<noteq> ULLONG_MAX"
  "st_inv s_chunk_data h n \<longleftrightarrow> has_flag h F_CHUNKED \<and> content_length h \<noteq> 0 \<and> content_length h \<noteq> ULLONG_MAX"
  "st_inv s_chunk_data_almost_done h n \<longleftrightarrow> has_flag h F_CHUNKED \<and> content_length h = 0"
  "st_inv s_chunk_data_done h n \<longleftrightarrow> has_flag h F_CHUNKED"
  "st_inv s_body_identity h n \<longleftrightarrow> content_length h \<noteq> 0 \<and> content_length h \<noteq> ULLONG_MAX"
  "st_inv s_header_field h n \<longleftrightarrow> header_state h \<in> field_states"
  "st_inv s_header_value h n \<longleftrightarrow> header_state h \<noteq> h_connection \<and> header_state h \<noteq> h_transfer_encoding"
  "st_inv s_req_method h n \<longleftrightarrow> unat (index h) \<le> length (method_strings (pmethod h))"
  by (simp_all add: st_inv_def chunk_states_def)

lemma has_flag_updates [simp]:
  "has_flag (h\<lparr>state := x\<rparr>) f = has_flag h f" "has_flag (h\<lparr>http_errno := er\<rparr>) f = has_flag h f"
  "has_flag (h\<lparr>nread := k\<rparr>) f = has_flag h f" "has_flag (h\<lparr>content_length := v\<rparr>) f = has_flag h f"
  "has_flag (h\<lparr>index := i\<rparr>) f = has_flag h f" "has_flag (h\<lparr>header_state := hs\<rparr>) f = has_flag h f"
  "has_flag (h\<lparr>uses_transfer_encoding := u\<rparr>) f = has_flag h f" "has_flag (h\<lparr>upgrade := u\<rparr>) f = has_flag h f"
  by (simp_all add: has_flag_def)

lemma NEW_MESSAGE_cases: "NEW_MESSAGE h = s_start_req \<or> NEW_MESSAGE h = s_start_res \<or> NEW_MESSAGE h = s_dead"
  by (simp add: NEW_MESSAGE_def start_state_def)

lemma st_inv_NEW_MESSAGE [simp]: "st_inv (NEW_MESSAGE h) h' n"
  using NEW_MESSAGE_cases [of h] by (auto simp: st_inv_def chunk_states_def)

lemma st_inv_update [simp]:
  "st_inv s (h\<lparr>state := x\<rparr>) n = st_inv s h n"
  "st_inv s (h\<lparr>http_errno := er\<rparr>) n = st_inv s h n"
  "st_inv s (h\<lparr>nread := k\<rparr>) n = st_inv s h n"
  by (simp_all add: st_inv_def has_flag_def)

lemma mark_fun_eq: "(\<forall>m. M m = None) \<longleftrightarrow> M = (\<lambda>_. None)" for M :: "mark \<Rightarrow> nat option"
  by auto

text \<open>In a state of no mark, no mark is set; in a mark's state, only that mark may be.\<close>

lemma marks_inv_other:
  "marks_inv s M \<Longrightarrow> s \<notin> mark_states m \<Longrightarrow> M m = None"
  by (auto simp: marks_inv_def)

lemma marks_inv_none [simp]: "marks_inv s (\<lambda>_. None)"
  by (simp add: marks_inv_def)

definition switch_inv :: "'s exec \<Rightarrow> bool" where
  "switch_inv c \<longleftrightarrow> http_errno (hp c) = HPE_OK \<and> st_inv (p_state c) (hp c) 0 \<and> marks_inv (p_state c) (marks c)
     \<and> (p_state c = s_chunk_size_start \<longrightarrow> cnt c = 1)"

lemma marks_none:
  assumes "marks_inv s M" "\<forall>m. s \<notin> mark_states m"
  shows "M = (\<lambda>_. None)"
  using assms by (auto simp: marks_inv_def)

lemma no_mark_states:
  "s \<notin> set (url_schema_states @ url_tail_states)
     \<union> {s_header_field, s_header_value, s_res_status, s_body_identity, s_body_identity_eof, s_chunk_data,
        s_chunk_data_almost_done} \<Longrightarrow> \<forall>m. s \<notin> mark_states m"
proof
  fix m assume "s \<notin> set (url_schema_states @ url_tail_states)
     \<union> {s_header_field, s_header_value, s_res_status, s_body_identity, s_body_identity_eof, s_chunk_data,
        s_chunk_data_almost_done}"
  then show "s \<notin> mark_states m" by (cases m) simp_all
qed

lemmas exec_updates = UPDATE_STATE_def upd_hp_def reset_nread_def take_body_def SET_ERRNO_def

lemma safe_message_done:
  assumes "http_errno (hp c) = HPE_OK" "marks c = (\<lambda>_. None)"
  shows "safe (ex_message_done e p c)"
  unfolding safe_def ex_message_done_def
  by (intro sat_intros; simp add: assms exec_updates loop_inv_def parser_inv_def)

lemma safe_headers_done:
  assumes "http_errno (hp c) = HPE_OK" "marks c = (\<lambda>_. None)"
  shows "safe (ex_headers_done e p c)"
  unfolding safe_def ex_headers_done_def complete_message_def Let_def
  by (intro sat_intros;
      simp add: assms exec_updates loop_inv_def parser_inv_def)

lemma sat_call_headers_complete:
  assumes "\<And>c'. http_errno (hp c') = HPE_OK \<Longrightarrow> marks c' = marks c \<Longrightarrow> outcome_sat A P Q (k c')"
    and "\<And>h s. state h = p_state c \<Longrightarrow> Q h s p"
  shows "outcome_sat A P Q (call_headers_complete e p k c)"
  unfolding call_headers_complete_def Let_def
  by (auto simp: exec_updates leave_callback_def RETURN_def assms split: option.split prod.split)

lemma safe_headers_almost_done:
  assumes "http_errno (hp c) = HPE_OK" "marks c = (\<lambda>_. None)"
  shows "safe (ex_headers_almost_done e p c)"
proof -
  have "http_errno (hp c') = HPE_OK \<Longrightarrow> marks c' = (\<lambda>_. None) \<Longrightarrow>
     outcome_sat False (\<lambda>c _. loop_inv c) (\<lambda>h _ _. parser_inv h) (ex_message_done e p c')"
    "http_errno (hp c') = HPE_OK \<Longrightarrow> marks c' = (\<lambda>_. None) \<Longrightarrow>
     outcome_sat False (\<lambda>c _. loop_inv c) (\<lambda>h _ _. parser_inv h) (ex_headers_done e p c')" for c' :: "'a exec"
    using safe_message_done safe_headers_done by (auto simp: safe_def)
  then show ?thesis unfolding safe_def ex_headers_almost_done_def
    by (intro sat_intros sat_call_headers_complete; simp add: assms exec_updates parser_inv_def)
qed

lemma ULLONG_MAX_numeral: "ULLONG_MAX = 0xFFFFFFFFFFFFFFFF"
  by (simp add: ULLONG_MAX_def)

lemma unhex_values: "unhex ! unat (ch :: byte) \<in> {-1..15}"
proof -
  have "set unhex \<subseteq> {-1..15}" by (simp add: unhex_def)
  moreover have "unat ch < length unhex" using unsigned_less [of ch] by (simp add: unhex_def)
  ultimately show ?thesis using nth_mem by blast
qed

lemma chunk_size_no_wrap:
  fixes n :: u64
  assumes "n \<le> (ULLONG_MAX - 16) div 16" "0 \<le> v" "v \<le> 15"
  shows "unat (n * 16 + of_int v) = unat n * 16 + nat v"
proof -
  have n: "unat n \<le> 0xFFFFFFFFFFFFFFE" 
    using assms(1) by (simp add: ULLONG_MAX_numeral word_le_nat_alt)
  have v: "(of_int v :: u64) = of_nat (nat v)" using assms(2) by simp
  have "n * 16 + of_int v = of_nat (unat n * 16 + nat v)" by (simp add: v)
  moreover have "unat n * 16 + nat v < 2 ^ 64" using n assms(2,3) by simp
  ultimately show ?thesis by (simp only: unat_of_nat_u64)
qed

lemma chunk_size_bounded:
  fixes n :: u64
  assumes "\<not> (ULLONG_MAX - 16) div 16 < n" "v \<noteq> - 1" "v \<in> {-1..15}"
  shows "n * 16 + of_int v \<noteq> ULLONG_MAX"
proof
  assume "n * 16 + of_int v = ULLONG_MAX"
  then have "unat n * 16 + nat v = 2 ^ 64 - 1"
    using chunk_size_no_wrap [of n v] assms by (auto simp: ULLONG_MAX_numeral)
  moreover have "unat n \<le> 0xFFFFFFFFFFFFFFE"
    using assms(1) by (simp add: ULLONG_MAX_numeral word_le_nat_alt not_less)
  moreover have "nat v \<le> 15" using assms by auto
  ultimately show False by simp
qed

lemma safe_body_identity_eof:
  assumes "http_errno (hp c) = HPE_OK" "marks_inv s_body_identity_eof (marks c)" "p_state c = s_body_identity_eof"
  shows "safe (ex_body_identity_eof e p c)"
  using assms by (auto simp: safe_def ex_body_identity_eof_def loop_inv_def MARK_def marks_inv_def split: option.split)

lemma marks_inv_MARK:
  "marks_inv s (marks c) \<Longrightarrow> s \<in> mark_states m \<Longrightarrow> marks_inv s (marks (MARK m p c))"
  by (auto simp: MARK_def marks_inv_def split: option.split)

lemma MARK_fields [simp]:
  "hp (MARK m p c) = hp c" "p_state (MARK m p c) = p_state c" "cnt (MARK m p c) = cnt c" "app (MARK m p c) = app c"
  by (auto simp: MARK_def split: option.split)

text \<open>What is left of a length after part of it has been read is not the value for "no length".\<close>

lemma take_body_left:
  assumes "content_length (hp c) \<noteq> ULLONG_MAX"
  shows "content_length (hp c) - of_nat (to_read e p c) \<noteq> ULLONG_MAX"
proof -
  let ?cl = "content_length (hp c)"
  have "unat (?cl - of_nat (to_read e p c)) \<le> unat ?cl"
    by (subst unat_sub_of_nat) (simp_all add: to_read_def)
  moreover have "unat ?cl < unat ULLONG_MAX"
    using assms word_order.extremum [of ?cl] by (metis ULLONG_MAX_def word_less_nat_alt word_le_less_eq)
  ultimately show ?thesis by auto
qed

text \<open>A mark that the state allows, set, and cleared again by its callback leaves none.\<close>

lemma marks_cleared:
  assumes "marks_inv s M" "\<And>m'. m' \<noteq> m \<Longrightarrow> s \<notin> mark_states m'"
  shows "M(m := None) = (\<lambda>_. None)"
  using assms by (auto simp: marks_inv_def fun_eq_iff)

lemma body_states_only:
  "m' \<noteq> body_mark \<Longrightarrow> s_body_identity \<notin> mark_states m'"
  "m' \<noteq> body_mark \<Longrightarrow> s_body_identity_eof \<notin> mark_states m'"
  "m' \<noteq> body_mark \<Longrightarrow> s_chunk_data \<notin> mark_states m'"
  "m' \<noteq> body_mark \<Longrightarrow> s_chunk_data_almost_done \<notin> mark_states m'"
  by (cases m'; simp add: url_schema_states_def url_tail_states_def)+

lemma safe_body_identity:
  assumes "http_errno (hp c) = HPE_OK" "marks_inv s_body_identity (marks c)" "p_state c = s_body_identity"
    "content_length (hp c) \<noteq> 0" "content_length (hp c) \<noteq> ULLONG_MAX"
  shows "safe (ex_body_identity e p c)"
proof -
  have msg: "http_errno (hp c') = HPE_OK \<Longrightarrow> marks c' = (\<lambda>_. None) \<Longrightarrow>
     outcome_sat False (\<lambda>c _. loop_inv c) (\<lambda>h _ _. parser_inv h) (ex_message_done e q c')" for q and c' :: "'a exec"
    using safe_message_done by (auto simp: safe_def)
  have marked: "marks_inv s_body_identity (marks (MARK body_mark p c))"
    using assms by (intro marks_inv_MARK) simp_all
  have "(marks (MARK body_mark p c))(body_mark := None) = (\<lambda>_. None)"
    using marked body_states_only(1) by (rule marks_cleared)
  with marked msg take_body_left [OF assms(5)] show ?thesis
    unfolding safe_def ex_body_identity_def Let_def
    by (intro sat_intros; simp add: assms exec_updates loop_inv_def parser_inv_def)
qed

lemma of_int_ne_ULLONG_MAX: "v \<in> {-1..15} \<Longrightarrow> v \<noteq> - 1 \<Longrightarrow> (of_int v :: u64) \<noteq> ULLONG_MAX"
  using chunk_size_bounded [of 0 v] by (auto simp: ULLONG_MAX_numeral)

lemma safe_chunk_size:
  assumes "http_errno (hp c) = HPE_OK" "marks c = (\<lambda>_. None)" "has_flag (hp c) F_CHUNKED"
  shows "cnt c = 1 \<Longrightarrow> safe (ex_chunk_size_start e p c)"
    "content_length (hp c) \<noteq> ULLONG_MAX \<Longrightarrow> p_state c = s_chunk_size \<Longrightarrow> safe (ex_chunk_size e p c)"
    "content_length (hp c) \<noteq> ULLONG_MAX \<Longrightarrow> p_state c = s_chunk_parameters \<Longrightarrow> safe (ex_chunk_parameters e p c)"
    "content_length (hp c) \<noteq> ULLONG_MAX \<Longrightarrow> safe (ex_chunk_size_almost_done e p c)"
    "safe (ex_chunk_data_done e p c)"
  using chunk_size_bounded [OF _ _ unhex_values] of_int_ne_ULLONG_MAX [OF unhex_values]
  unfolding safe_def ex_chunk_size_start_def ex_chunk_size_def ex_chunk_parameters_def
    ex_chunk_size_almost_done_def ex_chunk_data_done_def Let_def
  by (intro sat_intros; simp add: assms exec_updates loop_inv_def parser_inv_def)+

lemma safe_chunk_data:
  assumes "http_errno (hp c) = HPE_OK" "has_flag (hp c) F_CHUNKED" "marks_inv s_chunk_data (marks c)"
    "p_state c = s_chunk_data" "content_length (hp c) \<noteq> 0" "content_length (hp c) \<noteq> ULLONG_MAX"
  shows "safe (ex_chunk_data e p c)"
proof -
  have marked: "marks_inv s_chunk_data (marks (MARK body_mark p c))"
    using assms by (intro marks_inv_MARK) simp_all
  then have "marks_inv s_chunk_data_almost_done (marks (MARK body_mark p c))"
    using body_states_only(3) unfolding marks_inv_def by (metis insertCI mark_states.simps(4))
  with marked take_body_left [OF assms(6)] show ?thesis
    unfolding safe_def ex_chunk_data_def Let_def
    by (intro sat_intros; simp add: assms exec_updates loop_inv_def parser_inv_def)
qed

lemma safe_chunk_data_almost_done:
  assumes "http_errno (hp c) = HPE_OK" "has_flag (hp c) F_CHUNKED" "content_length (hp c) = 0"
    "marks_inv s_chunk_data_almost_done (marks c)"
  shows "safe (ex_chunk_data_almost_done e p c)"
  using marks_cleared [OF assms(4) body_states_only(4)]
  unfolding safe_def ex_chunk_data_almost_done_def
  by (intro sat_intros; simp add: assms exec_updates loop_inv_def parser_inv_def)

subsection \<open>Headers\<close>

lemma field_start_state_ok: "field_start_state c \<in> field_states"
  by (simp add: field_start_state_def field_states_def)

lemma safe_field_start:
  assumes "http_errno (hp c) = HPE_OK" "marks c = (\<lambda>_. None)"
  shows "safe (ex_header_field_start e p c)"
proof -
  note fin = safe_headers_almost_done [unfolded safe_def]
  have m: "marks_inv s_header_field (marks (MARK header_field_mark p c))"
    using assms by (intro marks_inv_MARK) simp_all
  show ?thesis unfolding safe_def ex_header_field_start_def Let_def
    by (intro sat_intros fin; simp add: assms m exec_updates loop_inv_def parser_inv_def field_start_state_ok)
qed

lemma safe_header_value_start:
  assumes "http_errno (hp c) = HPE_OK" "marks c = (\<lambda>_. None)"
  shows "safe (ex_header_value_start e p c)"
proof -
  have m: "marks_inv s_header_value (marks (MARK header_value_mark p c))"
    using assms by (intro marks_inv_MARK) simp_all
  show ?thesis unfolding safe_def ex_header_value_start_def connection_value_state_def Let_def
    by (intro sat_intros; simp add: assms m exec_updates loop_inv_def parser_inv_def)
qed

lemma header_flag_fields [simp]: "http_errno (header_flag h) = http_errno h"
  by (simp add: header_flag_def Let_def)

lemma safe_header_line:
  assumes "http_errno (hp c) = HPE_OK" "marks c = (\<lambda>_. None)"
  shows "p_state c = s_header_value_discard_ws \<Longrightarrow> safe (ex_header_value_discard_ws e p c)"
    "safe (ex_header_value_lws e p c)"
    "safe (ex_header_almost_done e p c)" "safe (ex_header_value_discard_ws_almost_done e p c)"
    "safe (ex_header_value_discard_lws e p c)"
proof -
  note field = safe_field_start [unfolded safe_def]
  note val = safe_header_value_start [unfolded safe_def]
  have m: "(marks (MARK header_value_mark p c'))(header_value_mark := None) = (\<lambda>_. None)"
    if "marks c' = (\<lambda>_. None)" for c' :: "'a exec"
    using that by (auto simp: MARK_def split: option.split)
  show "p_state c = s_header_value_discard_ws \<Longrightarrow> safe (ex_header_value_discard_ws e p c)"
    "safe (ex_header_value_lws e p c)"
    "safe (ex_header_almost_done e p c)" "safe (ex_header_value_discard_ws_almost_done e p c)"
    "safe (ex_header_value_discard_lws e p c)"
    unfolding safe_def ex_header_value_discard_ws_def ex_header_value_lws_def ex_header_almost_done_def
      ex_header_value_discard_ws_almost_done_def ex_header_value_discard_lws_def Let_def
    by (intro sat_intros field val; simp add: assms m exec_updates loop_inv_def parser_inv_def)+
qed

lemma match_step_fields:
  "match_step t c other found hs h = (hs', h') \<Longrightarrow>
     hs' \<in> {other, found, hs} \<and> http_errno h' = http_errno h"
  by (auto simp: match_step_def Let_def split: if_splits)

lemma match_next_fields [simp]:
  "header_state (match_next t c other found h) \<in> {other, found, header_state h}"
  "http_errno (match_next t c other found h) = http_errno h"
  using match_step_fields [of t c other found "header_state h" h]
  by (auto simp: match_next_def split: prod.splits)

lemma hf_char_ok:
  assumes "header_state h \<in> field_states" "header_state h \<noteq> h_general"
  shows "\<exists>h'. hf_char ch c h = Some h' \<and> header_state h' \<in> field_states \<and> http_errno h' = http_errno h"
proof -
  have m: "header_state (match_next t c h_general found h) \<in> field_states" if "found \<in> field_states" for t found
    using match_next_fields(1) [of t c h_general found h] assms(1) that
    by (auto simp: field_states_def)
  have te: "header_state (hf_matching_transfer_encoding c h) \<in> field_states"
    "http_errno (hf_matching_transfer_encoding c h) = http_errno h"
    using m [of h_transfer_encoding TRANSFER_ENCODING]
    by (auto simp: hf_matching_transfer_encoding_def Let_def field_states_def)
  from assms consider "header_state h = h_C" | "header_state h = h_CO" | "header_state h = h_CON"
    | "header_state h = h_matching_connection" | "header_state h = h_matching_proxy_connection"
    | "header_state h = h_matching_content_length" | "header_state h = h_matching_transfer_encoding"
    | "header_state h = h_matching_upgrade" | "header_state h = h_connection" | "header_state h = h_content_length"
    | "header_state h = h_transfer_encoding" | "header_state h = h_upgrade"
    by (auto simp: field_states_def)
  then show ?thesis
    by cases (use m te in \<open>simp_all add: hf_char_def Let_def\<close>, simp_all add: field_states_def)
qed

lemma hf_loop_ok:
  assumes "header_state h \<in> field_states"
  shows "\<exists>rest h'. hf_loop mhs xs h = Some (rest, h') \<and> header_state h' \<in> field_states \<and> http_errno h' = http_errno h"
  using assms
proof (induction mhs xs h rule: hf_loop.induct)
  case (2 mhs ch xs h)
  show ?case
  proof (cases "TOKEN ch = 0 \<or> header_state h = h_general")
    case True
    then show ?thesis using 2(1) 2(3) by auto
  next
    case False
    with hf_char_ok [OF 2(3)] obtain h' where
      "hf_char ch (TOKEN ch) h = Some h'" "header_state h' \<in> field_states" "http_errno h' = http_errno h" by blast
    with False 2(2) [of h'] show ?thesis by simp
  qed
qed simp

lemma safe_header_field:
  assumes "http_errno (hp c) = HPE_OK" "marks_inv s_header_field (marks c)" "p_state c = s_header_field"
    "header_state (hp c) \<in> field_states"
  shows "safe (ex_header_field e p c)"
proof -
  obtain rest h where r: "hf_loop (unat (max_header_size e)) (drop p (input e)) (hp c) = Some (rest, h)"
    "header_state h \<in> field_states" "http_errno h = HPE_OK"
    using hf_loop_ok [OF assms(4)] assms(1) by metis
  have "m' \<noteq> header_field_mark \<Longrightarrow> s_header_field \<notin> mark_states m'" for m'
    by (cases m') (simp_all add: url_schema_states_def url_tail_states_def)
  from marks_cleared [OF assms(2) this] show ?thesis
    unfolding safe_def ex_header_field_def Let_def r option.case prod.case
    by (intro sat_intros; simp add: assms r exec_updates loop_inv_def parser_inv_def)
qed

text \<open>The same for values: no assertion, no error without a code, and never back to the two name states.\<close>

definition hv_ok :: "http_errno \<Rightarrow> hv_result \<Rightarrow> bool" where
  "hv_ok er0 r =
     (case r of
        Hv_Next hs h \<Rightarrow> hs \<noteq> h_connection \<and> hs \<noteq> h_transfer_encoding \<and> http_errno h = er0
      | Hv_Err er h \<Rightarrow> er \<notin> {HPE_OK, HPE_PAUSED}
      | Hv_Assert \<Rightarrow> False)"

lemma hv_ok_simps [simp]:
  "hv_ok er0 (Hv_Next hs h) \<longleftrightarrow> hs \<noteq> h_connection \<and> hs \<noteq> h_transfer_encoding \<and> http_errno h = er0"
  "hv_ok er0 (Hv_Err er h) \<longleftrightarrow> er \<notin> {HPE_OK, HPE_PAUSED}"
  "\<not> hv_ok er0 Hv_Assert"
  by (simp_all add: hv_ok_def)

lemma hv_ok_if: "(b \<Longrightarrow> hv_ok er0 x) \<Longrightarrow> (\<not> b \<Longrightarrow> hv_ok er0 y) \<Longrightarrow> hv_ok er0 (if b then x else y)"
  by simp

lemma hv_match_ok:
  assumes "{other, found, hs} \<inter> {h_connection, h_transfer_encoding} = {}"
  shows "hv_ok (http_errno h) (hv_match t c other found hs h)"
  using assms match_step_fields [of t c other found hs h]
  by (auto simp: hv_match_def split: prod.split)

lemma hv_pieces_ok:
  "hv_ok (http_errno h) (hv_content_length_num ch h)"
  "{start, hs} \<inter> {h_connection, h_transfer_encoding} = {} \<Longrightarrow> hv_ok (http_errno h) (hv_list_token ch start hs h)"
  "hs \<notin> {h_connection, h_transfer_encoding} \<Longrightarrow> hv_ok (http_errno h) (hv_connection_option ch hs h)"
  by (auto simp: hv_content_length_num_def hv_list_token_def hv_connection_option_def Let_def)

lemma hv_char_ok:
  assumes "hs \<noteq> h_connection" "hs \<noteq> h_transfer_encoding"
  shows "hv_ok (http_errno h) (hv_char ch hs h)"
  unfolding hv_char_def Let_def
  by (intro hv_ok_if hv_match_ok hv_pieces_ok;
      use assms in \<open>simp add: hv_transfer_encoding_token_start_def hv_connection_token_start_def\<close>)

definition hv_stop_ok :: "http_errno \<Rightarrow> hv_stop \<Rightarrow> bool" where
  "hv_stop_ok er0 r =
     (case r of
        Hv_Stop rest hs h \<Rightarrow> hs \<noteq> h_connection \<and> hs \<noteq> h_transfer_encoding \<and> http_errno h = er0
      | Hv_Fail rest er h \<Rightarrow> er \<notin> {HPE_OK, HPE_PAUSED}
      | Hv_Abort \<Rightarrow> False)"

lemma hv_loop_ok:
  assumes "hs \<noteq> h_connection" "hs \<noteq> h_transfer_encoding"
  shows "hv_stop_ok (http_errno h) (hv_loop len mhs xs hs h)"
  using assms
proof (induction len mhs xs hs h rule: hv_loop.induct)
  case (2 len mhs ch xs hs h)
  show ?case
  proof (cases "ch = CR \<or> ch = LF \<or> (\<not> len \<and> \<not> IS_HEADER_CHAR ch)")
    case True
    then show ?thesis using 2(4,5) by (auto simp: hv_stop_ok_def)
  next
    case False
    note go = this
    show ?thesis
    proof (cases "hs = h_general")
      case True
      have "hv_stop_ok (http_errno h) (Hv_Fail rest HPE_INVALID_HEADER_TOKEN h)" for rest
        by (simp add: hv_stop_ok_def)
      then show ?thesis
        using go True 2(1,2) [OF _ _ True refl refl] 2(4,5) by (auto simp: Let_def)
    next
      case other: False
      have hv_fail: "er \<notin> {HPE_OK, HPE_PAUSED} \<Longrightarrow> hv_stop_ok (http_errno h) (Hv_Fail rest er h')" for rest er h'
        by (simp add: hv_stop_ok_def)
      have "hv_ok (http_errno h) (hv_char ch hs h)" using 2(4,5) by (rule hv_char_ok)
      then show ?thesis
        using go other 2(3) hv_fail by (cases "hv_char ch hs h") auto
    qed
  qed
qed (simp add: hv_stop_ok_def)

lemma safe_header_value:
  assumes "http_errno (hp c) = HPE_OK" "marks_inv s_header_value (marks c)" "p_state c = s_header_value"
    "header_state (hp c) \<noteq> h_connection" "header_state (hp c) \<noteq> h_transfer_encoding"
  shows "safe (ex_header_value e p c)"
proof -
  let ?r = "hv_loop (lenient e) (unat (max_header_size e)) (drop p (input e)) (header_state (hp c)) (hp c)"
  have ok: "hv_stop_ok HPE_OK ?r" using hv_loop_ok [OF assms(4,5)] assms(1) by metis
  have "m' \<noteq> header_value_mark \<Longrightarrow> s_header_value \<notin> mark_states m'" for m'
    by (cases m') (simp_all add: url_schema_states_def url_tail_states_def)
  note cleared = marks_cleared [OF assms(2) this]
  show ?thesis
  proof (cases ?r)
    case (Hv_Stop rest hs h)
    with ok have "hs \<noteq> h_connection" "hs \<noteq> h_transfer_encoding" "http_errno h = HPE_OK"
      by (simp_all add: hv_stop_ok_def)
    with cleared show ?thesis
      unfolding safe_def ex_header_value_def ex_header_almost_done_def Let_def Hv_Stop hv_stop.case
      by (intro sat_intros; simp add: assms exec_updates loop_inv_def parser_inv_def)
  next
    case (Hv_Fail rest er h)
    with ok show ?thesis unfolding safe_def ex_header_value_def Let_def Hv_Fail hv_stop.case
      by (intro sat_fail) (auto simp: hv_stop_ok_def parser_inv_def)
  qed (use ok in \<open>simp add: hv_stop_ok_def\<close>)
qed

subsection \<open>The first line\<close>

lemma method_switch_ok:
  assumes "lookup_method method_switch m i ch = Some m'"
  shows "Suc i \<le> length (method_strings m')"
  using assms by (auto simp: method_switch_def split: if_splits)

lemma start_method_ok: "start_method ch = Some m \<Longrightarrow> 1 \<le> length (method_strings m)"
  by (auto simp: start_method_def split: if_splits)

lemma index_plus_1: "unat (i :: 5 word) < 31 \<Longrightarrow> unat (i + 1) = Suc (unat i)"
  by (simp add: unat_word_ariths)

lemma method_strings_short: "length (method_strings m) \<le> 11"
  by (cases m) simp_all

lemma safe_start_req:
  assumes "http_errno (hp c) = HPE_OK" "marks c = (\<lambda>_. None)" "p_state c = s_start_req"
  shows "safe (ex_start_req e p c)"
  using start_method_ok [of "input e ! p"] unfolding safe_def ex_start_req_def Let_def
  by (intro sat_intros; auto simp: assms exec_updates reset_message_def loop_inv_def parser_inv_def)

lemma safe_start:
  assumes "http_errno (hp c) = HPE_OK" "marks c = (\<lambda>_. None)"
  shows "p_state c = s_dead \<Longrightarrow> safe (ex_dead e p c)"
    "p_state c = s_start_req_or_res \<Longrightarrow> safe (ex_start_req_or_res e p c)"
    "safe (ex_res_or_resp_H e p c)"
    "p_state c = s_start_res \<Longrightarrow> safe (ex_start_res e p c)"
    "p_state c = s_req_http_start \<Longrightarrow> safe (ex_req_http_start e p c)"
    "safe (ex_req_http_end e p c)"
    "p_state c = s_res_first_status_code \<Longrightarrow> safe (ex_res_first_status_code e p c)"
  unfolding safe_def ex_dead_def ex_start_req_or_res_def ex_res_or_resp_H_def ex_start_res_def
    ex_req_http_start_def ex_req_http_end_def ex_res_first_status_code_def Let_def
  by (intro sat_intros safe_start_req [unfolded safe_def];
      simp add: assms exec_updates reset_message_def loop_inv_def parser_inv_def)+

lemma safe_versions:
  assumes "http_errno (hp c) = HPE_OK" "marks c = (\<lambda>_. None)"
  shows "safe (ex_req_version e p c)" "safe (ex_res_version e p c)"
  unfolding safe_def ex_req_version_def ex_res_version_def expect_def digit_into_def Let_def
  by (intro sat_intros; simp add: assms exec_updates loop_inv_def parser_inv_def)+

lemma safe_req_method:
  assumes "http_errno (hp c) = HPE_OK" "marks c = (\<lambda>_. None)" "p_state c = s_req_method"
    "unat (index (hp c)) \<le> length (method_strings (pmethod (hp c)))"
  shows "safe (ex_req_method e p c)"
proof -
  let ?i = "index (hp c)" and ?m = "method_strings (pmethod (hp c))"
  have i: "unat (?i + 1) = Suc (unat ?i)"
    using assms(4) method_strings_short [of "pmethod (hp c)"] by (intro index_plus_1) simp
  have more: "unat (?i + 1) \<le> length ?m" if "input e ! p \<noteq> 0" "input e ! p = cstr_at ?m (unat ?i)"
    using that i by (auto simp: cstr_at_def split: if_splits)
  show ?thesis
    using more i method_switch_ok unfolding safe_def ex_req_method_def Let_def
    by (intro sat_intros; simp add: assms exec_updates loop_inv_def parser_inv_def)
qed

lemma parse_url_char_states:
  "parse_url_char s ch = s_dead \<or> parse_url_char s ch \<in> set (url_schema_states @ url_tail_states)"
  by (simp add: parse_url_char_def url_server_char_def url_schema_states_def url_tail_states_def)

lemma url_states_plain: "s \<in> set (url_schema_states @ url_tail_states) \<Longrightarrow> st_inv s h n"
  by (auto simp: url_schema_states_def url_tail_states_def)

abbreviation url_states :: "hstate set" where
  "url_states \<equiv> set (url_schema_states @ url_tail_states)"

lemma url_states_only: "s \<in> url_states \<Longrightarrow> m \<noteq> url_mark \<Longrightarrow> s \<notin> mark_states m"
  by (cases m) (auto simp: url_schema_states_def url_tail_states_def)

lemma marks_inv_url:
  assumes "s \<in> url_states"
  shows "marks_inv s M \<longleftrightarrow> (\<forall>m. m \<noteq> url_mark \<longrightarrow> M m = None)"
proof -
  have "s \<in> mark_states url_mark" using assms by simp
  then show ?thesis using url_states_only [OF assms] unfolding marks_inv_def by metis
qed

lemma safe_url_step:
  assumes "http_errno (hp c) = HPE_OK" "\<forall>m. m \<noteq> url_mark \<longrightarrow> marks c m = None"
  shows "safe (url_step e p c)"
proof -
  let ?s = "parse_url_char (p_state c) (input e ! p)"
  show ?thesis
  proof (cases "?s = s_dead")
    case True
    then show ?thesis by (simp add: safe_def url_step_def exec_updates fail_def error_label_def RETURN_def parser_inv_def)
  next
    case False
    then have "?s \<in> url_states" using parse_url_char_states by blast
    with assms False show ?thesis
      by (simp add: safe_def url_step_def exec_updates loop_inv_def url_states_plain marks_inv_url)
  qed
qed

lemma safe_url:
  assumes "http_errno (hp c) = HPE_OK" "\<forall>m. m \<noteq> url_mark \<longrightarrow> marks c m = None"
  shows "p_state c = s_req_spaces_before_url \<Longrightarrow> marks c = (\<lambda>_. None) \<Longrightarrow> safe (ex_req_spaces_before_url e p c)"
    "safe (ex_req_schema e p c)" "safe (ex_req_url e p c)"
proof -
  note step = safe_url_step [unfolded safe_def]
  have m: "\<forall>m. m \<noteq> url_mark \<longrightarrow> marks (MARK url_mark p c) m = None"
    using assms(2) by (auto simp: MARK_def split: option.split)
  have cl: "(marks c)(url_mark := None) = (\<lambda>_. None)" using assms(2) by auto
  show "p_state c = s_req_spaces_before_url \<Longrightarrow> marks c = (\<lambda>_. None) \<Longrightarrow> safe (ex_req_spaces_before_url e p c)"
    "safe (ex_req_schema e p c)" "safe (ex_req_url e p c)"
    unfolding safe_def ex_req_spaces_before_url_def ex_req_schema_def ex_req_url_def Let_def
    by (intro sat_intros step; use assms m cl in \<open>simp add: exec_updates loop_inv_def parser_inv_def\<close>)+
qed

lemma safe_res_status:
  assumes "http_errno (hp c) = HPE_OK" "marks_inv s_res_status (marks c)" "p_state c = s_res_status"
  shows "safe (ex_res_status e p c)"
proof -
  have "m' \<noteq> status_mark \<Longrightarrow> s_res_status \<notin> mark_states m'" for m'
    by (cases m') (simp_all add: url_schema_states_def url_tail_states_def)
  from marks_cleared [OF assms(2) this] show ?thesis
    unfolding safe_def ex_res_status_def Let_def
    by (intro sat_intros; simp add: assms exec_updates loop_inv_def parser_inv_def)
qed

lemma safe_status_code:
  assumes "http_errno (hp c) = HPE_OK" "marks c = (\<lambda>_. None)"
  shows "safe (ex_res_status_start e p c)" "p_state c = s_res_status_code \<Longrightarrow> safe (ex_res_status_code e p c)"
proof -
  have m: "marks_inv s_res_status (marks (MARK status_mark p c'))" if "marks c' = (\<lambda>_. None)" for c' :: "'a exec"
    using that by (intro marks_inv_MARK) simp_all
  have start: "safe (ex_res_status_start e p c')"
    if "http_errno (hp c') = HPE_OK" "marks c' = (\<lambda>_. None)" for c' :: "'a exec"
    unfolding safe_def ex_res_status_start_def Let_def
    by (intro sat_intros safe_res_status [unfolded safe_def];
        use that m in \<open>simp add: exec_updates loop_inv_def parser_inv_def\<close>)
  show "safe (ex_res_status_start e p c)" using assms by (rule start)
  show "p_state c = s_res_status_code \<Longrightarrow> safe (ex_res_status_code e p c)"
    unfolding safe_def ex_res_status_code_def Let_def
    by (intro sat_intros start [unfolded safe_def];
        use assms in \<open>simp add: exec_updates loop_inv_def parser_inv_def\<close>)
qed

section \<open>The call\<close>

lemma switch_marks_none:
  assumes "switch_inv c" "p_state c \<notin> url_states \<union> {s_header_field, s_header_value, s_res_status, s_body_identity,
      s_body_identity_eof, s_chunk_data, s_chunk_data_almost_done}"
  shows "marks c = (\<lambda>_. None)"
  using assms no_mark_states marks_none unfolding switch_inv_def by metis

lemma safe_if: "(b \<Longrightarrow> safe x) \<Longrightarrow> (\<not> b \<Longrightarrow> safe y) \<Longrightarrow> safe (if b then x else y)"
  by simp

lemmas safe_cases = safe_start safe_start_req safe_versions safe_req_method safe_url safe_res_status
  safe_status_code safe_message_done safe_headers_done safe_headers_almost_done safe_body_identity_eof
  safe_body_identity safe_chunk_size safe_chunk_data safe_chunk_data_almost_done safe_field_start
  safe_header_value_start safe_header_line safe_header_field safe_header_value

lemmas url_lists = url_schema_states_def url_tail_states_def

text \<open>The last branch of the \<open>switch\<close>, \<open>default: assert(0 && "unhandled state")\<close>, is not reached.\<close>

lemma all_states_handled:
  "s \<in> {s_dead, s_start_req_or_res, s_res_or_resp_H, s_start_res, s_res_first_status_code, s_res_status_code,
     s_res_status_start, s_res_status, s_start_req, s_req_method, s_req_spaces_before_url, s_req_http_start,
     s_req_http_end, s_header_field_start, s_header_field, s_header_value_discard_ws, s_header_value_start,
     s_header_value, s_header_almost_done, s_header_value_lws, s_header_value_discard_ws_almost_done,
     s_header_value_discard_lws, s_headers_almost_done, s_headers_done, s_body_identity, s_body_identity_eof,
     s_message_done, s_chunk_size_start, s_chunk_size, s_chunk_parameters, s_chunk_size_almost_done,
     s_chunk_data, s_chunk_data_almost_done, s_chunk_data_done}
   \<union> url_states \<union> set req_version_states \<union> set res_version_states"
  by (cases s) (simp_all add: url_lists req_version_states_def res_version_states_def)

lemma safe_switch:
  assumes "switch_inv c"
  shows "safe (ex_switch e p c)"
proof -
  have ok: "http_errno (hp c) = HPE_OK" and st: "st_inv (p_state c) (hp c) 0"
    and mk: "marks_inv (p_state c) (marks c)" and sz: "p_state c = s_chunk_size_start \<longrightarrow> cnt c = 1"
    using assms by (simp_all add: switch_inv_def)
  note none = switch_marks_none [OF assms]
  have url: "\<forall>m. m \<noteq> url_mark \<longrightarrow> marks c m = None"
    if "p_state c \<in> set url_schema_states \<or> p_state c \<in> set url_tail_states"
    using mk marks_inv_url [of "p_state c"] that by auto
  have ver: "marks c = (\<lambda>_. None)" if "p_state c \<in> set res_version_states \<or> p_state c \<in> set req_version_states"
    using that by (intro none) (auto simp: url_lists req_version_states_def res_version_states_def)
  show ?thesis
    unfolding ex_switch_def Let_def
    apply (intro safe_if safe_cases)
    apply (simp_all add: ok url ver)
    apply (use ok st mk sz none in \<open>simp_all add: url_lists\<close>)
    apply (use all_states_handled [of "p_state c"] in \<open>simp add: url_lists\<close>)
    done
qed

lemma safe_byte:
  assumes "loop_inv c"
  shows "safe (ex_byte e p c)"
proof (cases "PARSING_HEADER (p_state c)")
  case True
  have "switch_inv (c\<lparr>cnt := cnt c + 1\<rparr>)"
    using assms by (auto simp: loop_inv_def switch_inv_def st_inv_def)
  then have "safe (ex_switch e p (c\<lparr>cnt := cnt c + 1\<rparr>))" by (rule safe_switch)
  with True show ?thesis unfolding safe_def ex_byte_def if_True
    by (auto intro!: sat_COUNT simp: parser_inv_def)
next
  case False
  then have "p_state c \<noteq> s_chunk_size_start" by (auto simp: PARSING_HEADER_def)
  then have "switch_inv c" using assms by (auto simp: loop_inv_def switch_inv_def st_inv_def)
  with False show ?thesis by (simp add: ex_byte_def safe_switch)
qed

text \<open>At most one mark is set at the end of the buffer: the states of two marks are disjoint.\<close>

lemma mark_states_disjoint: "s \<in> mark_states m \<Longrightarrow> s \<in> mark_states m' \<Longrightarrow> m = m'"
  by (cases m; cases m'; auto simp: url_lists)

lemma one_mark:
  assumes "marks_inv s M"
  shows "length (filter (\<lambda>m. M m \<noteq> None) [header_field_mark, header_value_mark, url_mark, body_mark, status_mark]) \<le> 1"
proof (cases "\<exists>m. M m \<noteq> None")
  case True
  then obtain m where "M m \<noteq> None" by blast
  with assms have "M m' \<noteq> None \<longleftrightarrow> m' = m" for m'
    using mark_states_disjoint unfolding marks_inv_def by metis
  then show ?thesis by (cases m) simp_all
qed auto

lemma safe_finish:
  assumes "loop_inv c"
  shows "outcome_sat False (\<lambda>_ _. False) (\<lambda>h _ _. parser_inv h) (ex_finish e c)"
proof -
  have "http_errno (hp c) = HPE_OK" "st_inv (p_state c) (hp c) (cnt c)" "marks_inv (p_state c) (marks c)"
    using assms by (simp_all add: loop_inv_def)
  moreover have "st_inv (p_state c) (hp c) n" if "marks c m \<noteq> None" for m n
  proof -
    have "p_state c \<in> mark_states m" using that calculation by (auto simp: marks_inv_def)
    then have "p_state c \<noteq> s_chunk_size_start" by (cases m) (auto simp: url_lists)
    then show ?thesis using calculation by (simp add: st_inv_def)
  qed
  ultimately show ?thesis
    using one_mark [of "p_state c" "marks c"] unfolding ex_finish_def Let_def
    by (intro sat_intros; simp add: parser_inv_def)
qed

lemma safe_loop: "loop_inv c \<Longrightarrow> outcome_sat False (\<lambda>_ _. False) (\<lambda>h _ _. parser_inv h) (ex_loop e p c)"
proof (induction e p c rule: ex_loop.induct)
  case (1 e p c)
  show ?case
  proof (cases "p < length (input e)")
    case True
    then show ?thesis
      using 1(1) [OF True] safe_byte [OF 1(2), of e p]
      by (cases "ex_byte e p c") (simp_all add: ex_loop.simps [of e p c] safe_def)
  next
    case False
    then show ?thesis
      using safe_finish [OF 1(2)] by (simp add: ex_loop.simps [of e p c])
  qed
qed

lemma within_loop:
  assumes "p \<le> length (input e)"
  shows "outcome_sat True (\<lambda>_ _. True) (\<lambda>_ _ n. n \<le> length (input e)) (ex_loop e p c)"
  using assms
proof (induction e p c rule: ex_loop.induct)
  case (1 e p c)
  show ?case
  proof (cases "p < length (input e)")
    case True
    then show ?thesis
      using 1(1) [OF True] within_byte [OF True, of c]
      by (cases "ex_byte e p c") (auto simp: ex_loop.simps [of e p c] within_def)
  next
    case False
    have "outcome_sat True (\<lambda>_ _. True) (\<lambda>_ _ n. n \<le> length (input e)) (ex_finish e c)"
      unfolding ex_finish_def Let_def by (intro sat_intros; simp)
    with False show ?thesis by (simp add: ex_loop.simps [of e p c])
  qed
qed

lemma parser_inv_init: "parser_inv (http_parser_init t)"
  by (simp add: parser_inv_def http_parser_init_def)

lemma execute_safe:
  assumes "parser_inv h"
  obtains h' s' n where "http_parser_execute mhs st h s buf = Some (h', s', n)"
    "parser_inv h'" "n \<le> max 1 (length buf)"
proof -
  define e where "e = \<lparr>settings = st, max_header_size = mhs, input = buf, lenient = lenient_http_headers h,
               allow_chunked = allow_chunked_length h\<rparr>"
  define c where "c = \<lparr>hp = h, p_state = state h, cnt = nread h, marks = (\<lambda>_. None), app = s\<rparr>"
  have ex: "http_parser_execute mhs st h s buf =
      (if http_errno h \<noteq> HPE_OK then Some (h, s, 0)
       else case (if buf = [] then ex_eof e c else ex_loop e 0 (c\<lparr>marks := initial_marks (state h)\<rparr>)) of
              Done h s n \<Rightarrow> Some (h, s, n) | _ \<Rightarrow> None)"
    by (simp add: http_parser_execute_def e_def c_def Let_def)
  show thesis
  proof (cases "http_errno h = HPE_OK")
    case False
    with ex assms show ?thesis by (intro that) auto
  next
    case True
    have st: "st_inv (state h) h (nread h)" using assms True by (simp add: parser_inv_def)
    have eof: "outcome_sat False (\<lambda>_ _. False) (\<lambda>h _ n. parser_inv h \<and> n \<le> 1) (ex_eof e c)"
      using True st
      by (auto simp: ex_eof_def c_def parser_inv_def CALLBACK_NOTIFY_NOADVANCE_def CALLBACK_NOTIFY_er_def
          assert_that_def after_callback_def leave_callback_def exec_updates Let_def split: option.split prod.split)
    have "marks_inv (state h) (initial_marks (state h))"
      unfolding marks_inv_def
    proof
      show "initial_marks (state h) m \<noteq> None \<longrightarrow> state h \<in> mark_states m" for m
        by (cases m) (auto simp: initial_marks_def)
    qed
    then have "loop_inv (c\<lparr>marks := initial_marks (state h)\<rparr>)"
      using True st by (simp add: loop_inv_def c_def)
    from safe_loop [OF this, of e 0] within_loop [of 0 e "c\<lparr>marks := initial_marks (state h)\<rparr>"]
    have loop: "outcome_sat False (\<lambda>_ _. False) (\<lambda>h _ n. parser_inv h \<and> n \<le> length buf)
        (ex_loop e 0 (c\<lparr>marks := initial_marks (state h)\<rparr>))"
      by (cases "ex_loop e 0 (c\<lparr>marks := initial_marks (state h)\<rparr>)") (simp_all add: e_def)
    show ?thesis
    proof (cases "buf = []")
      case True
      with eof ex \<open>http_errno h = HPE_OK\<close> show ?thesis by (cases "ex_eof e c") (auto intro: that)
    next
      case False
      with loop ex \<open>http_errno h = HPE_OK\<close> show ?thesis
        by (cases "ex_loop e 0 (c\<lparr>marks := initial_marks (state h)\<rparr>)") (auto intro!: that)
    qed
  qed
qed

text \<open>A connection: the buffers of a stream given to one parser, in order.\<close>

fun execute_all ::
  "u32 \<Rightarrow> 's http_parser_settings \<Rightarrow> http_parser \<times> 's \<Rightarrow> bytes list \<Rightarrow> (http_parser \<times> 's) option" where
  "execute_all mhs st (h, s) [] = Some (h, s)"
| "execute_all mhs st (h, s) (buf # bufs) =
     (case http_parser_execute mhs st h s buf of
        None \<Rightarrow> None
      | Some (h, s, n) \<Rightarrow> execute_all mhs st (h, s) bufs)"

lemma execute_all_safe: "parser_inv h \<Longrightarrow> \<exists>h' s'. execute_all mhs st (h, s) bufs = Some (h', s') \<and> parser_inv h'"
proof (induction bufs arbitrary: h s)
  case (Cons buf bufs)
  obtain h1 s1 n where "http_parser_execute mhs st h s buf = Some (h1, s1, n)" "parser_inv h1"
    using execute_safe [OF Cons.prems] by metis
  with Cons.IH show ?case by simp
qed simp

text \<open>
  C13. Whatever the bytes, however the stream is cut into buffers, for every header limit and whatever
  the callbacks return and whether they pause: a parser that \<open>http_parser_init\<close> set up never fails one
  of the assertions of \<open>http_parser_execute\<close> (on the marks, on the lengths, on the chunk states, on the
  header states, "unhandled state") and never reads past the end of a method name; every call returns.
\<close>

theorem http_parser_never_aborts:
  "\<exists>h' s'. execute_all mhs st (http_parser_init t, s) bufs = Some (h', s') \<and> parser_inv h'"
  using parser_inv_init by (rule execute_all_safe)

text \<open>
  C27. A call of \<open>http_parser_execute\<close> on a parser in order reports a number of parsed bytes that lies
  inside the buffer (the single exception being the value 1 that reports an unexpected end of stream).
\<close>

theorem http_parser_execute_bounds:
  assumes "parser_inv h"
  shows "\<exists>h' s' n. http_parser_execute mhs st h s buf = Some (h', s', n) \<and> n \<le> max 1 (length buf)"
  using execute_safe [OF assms] by metis

theorem http_parser_execute_bounds_witness:
  "\<exists>h' s' n. http_parser_execute HTTP_MAX_HEADER_SIZE http_parser_settings_init
       (http_parser_init HTTP_REQUEST) () [71, 69, 84, 32] = Some (h', s', n)
     \<and> n \<le> max 1 (length [71, 69, 84, 32 :: byte])"
  by (rule http_parser_execute_bounds) (rule parser_inv_init)

end
