(* ===== verification/Http_Req.thy ===== *)
theory Http_Req
  imports Hp_Types
begin

text \<open>
  \<open>httpReq\<close> (\<open>src/src/core/httpReq.h\<close>, \<open>httpReq.cpp\<close>): the request a session assembles, the lazy
  \<open>query()\<close> and the loop of \<open>urlDecode\<close> that splits the query string. A \<open>std::string\<close> is the list of
  its bytes and an \<open>unordered_map\<close> from strings to strings is a map. What \<open>set_ip\<close> asks of libuv (the
  peer's address, as text and port) is an argument.
\<close>

section \<open>The request\<close>

type_synonym HttpParamMap = "bytes \<rightharpoonup> bytes"

record httpReq =
  url :: bytes
  headers :: "bytes \<rightharpoonup> bytes"
  body :: bytes
  rmethod :: http_method
  version :: bytes
  params :: HttpParamMap
  is_queryParams_parsed :: bool
  ip :: bytes
  port :: int
  queryParams :: HttpParamMap

text \<open>The constructor; the fields it does not initialise hold the value of an empty request.\<close>

definition httpReq_init :: httpReq where
  "httpReq_init = \<lparr>url = [], headers = Map.empty, body = [], rmethod = HTTP_DELETE, version = [],
     params = Map.empty, is_queryParams_parsed = False, ip = [], port = 0, queryParams = Map.empty\<rparr>"

text \<open>
  \<open>uv_tcp_getpeername\<close> fails, or gives an IPv4 or IPv6 address, as the text \<open>uv_ip4_name\<close> or
  \<open>uv_ip6_name\<close> writes and a port, or an address of another family. For another family the code reads
  the uninitialised array \<open>ip_\<close>: the argument of \<open>Peer_Other\<close> is what that array holds.
\<close>

datatype peer_name = Peer_Failed | Peer_Ip4 bytes int | Peer_Ip6 bytes int | Peer_Other bytes

definition set_ip :: "peer_name \<Rightarrow> httpReq \<Rightarrow> httpReq" where
  "set_ip peer req =
     (case peer of
        Peer_Failed \<Rightarrow> req\<lparr>ip := [], port := 0\<rparr>
      | Peer_Ip4 a p \<Rightarrow> req\<lparr>ip := a, port := p\<rparr>
      | Peer_Ip6 a p \<Rightarrow> req\<lparr>ip := a, port := p\<rparr>
      | Peer_Other a \<Rightarrow> req\<lparr>ip := a, port := 0\<rparr>)"

section \<open>The query string\<close>

text \<open>\<open>find\<close> from a position, as the piece before the character and what follows it, if it occurs.\<close>

fun split_at :: "byte \<Rightarrow> bytes \<Rightarrow> bytes \<times> bytes option" where
  "split_at c [] = ([], None)"
| "split_at c (x # xs) =
     (if x = c then ([], Some xs) else case split_at c xs of (a, r) \<Rightarrow> (x # a, r))"

text \<open>The characters \<open>'&'\<close>, \<open>'='\<close> and \<open>'?'\<close>.\<close>

abbreviation AMP :: byte where "AMP \<equiv> 38"
abbreviation EQ :: byte where "EQ \<equiv> 61"
abbreviation QM :: byte where "QM \<equiv> 63"

text \<open>One pair: the key up to the first \<open>'='\<close>, the value after it; an empty key is dropped.\<close>

definition store_pair :: "bytes \<Rightarrow> HttpParamMap \<Rightarrow> HttpParamMap" where
  "store_pair pair_str m =
     (case split_at EQ pair_str of
        (key, rest) \<Rightarrow>
          let value = (case rest of None \<Rightarrow> [] | Some v \<Rightarrow> v)
          in if key \<noteq> [] then m(key \<mapsto> value) else m)"

lemma split_at_length: "split_at c xs = (a, Some r) \<Longrightarrow> length r < length xs"
  by (induction xs arbitrary: a) (auto split: if_splits prod.splits)

text \<open>The \<open>while (pos < str.size())\<close> loop, on the part of the string from \<open>pos\<close> on.\<close>

function decode_loop :: "bytes \<Rightarrow> HttpParamMap \<Rightarrow> HttpParamMap" where
  "decode_loop str m =
     (if str = [] then m
      else case split_at AMP str of
             (pair_str, None) \<Rightarrow> store_pair pair_str m
           | (pair_str, Some rest) \<Rightarrow> decode_loop rest (store_pair pair_str m))"
  by pat_completeness auto
termination
  by (relation "measure (\<lambda>(str, _). length str)") (auto dest!: split_at_length [OF sym])

declare decode_loop.simps [simp del]

definition urlDecode :: "bytes \<Rightarrow> HttpParamMap \<Rightarrow> HttpParamMap" where
  "urlDecode str m = (case split_at QM str of (_, None) \<Rightarrow> m | (_, Some q) \<Rightarrow> decode_loop q m)"

definition query :: "httpReq \<Rightarrow> HttpParamMap \<times> httpReq" where
  "query req =
     (let req = (if is_queryParams_parsed req then req
                 else req\<lparr>queryParams := urlDecode (url req) Map.empty, is_queryParams_parsed := True\<rparr>)
      in (queryParams req, req))"

section \<open>Correctness of the decoding\<close>

lemma split_at_append:
  assumes "c \<notin> set xs"
  shows "split_at c (xs @ c # ys) = (xs, Some ys)" "split_at c xs = (xs, None)"
  using assms by (induction xs) auto

text \<open>A query string is written from its pairs by joining \<open>key=value\<close> with \<open>'&'\<close>.\<close>

definition pair_text :: "bytes \<times> bytes \<Rightarrow> bytes" where
  "pair_text kv = fst kv @ EQ # snd kv"

fun query_text :: "(bytes \<times> bytes) list \<Rightarrow> bytes" where
  "query_text [] = []"
| "query_text [kv] = pair_text kv"
| "query_text (kv # kvs) = pair_text kv @ AMP # query_text kvs"

definition pair_ok :: "bytes \<times> bytes \<Rightarrow> bool" where
  "pair_ok kv \<longleftrightarrow> fst kv \<noteq> [] \<and> EQ \<notin> set (fst kv) \<and> AMP \<notin> set (fst kv) \<and> AMP \<notin> set (snd kv)"

lemma store_pair_text: "pair_ok kv \<Longrightarrow> store_pair (pair_text kv) m = m(fst kv \<mapsto> snd kv)"
  by (simp add: store_pair_def pair_text_def pair_ok_def split_at_append)

lemma AMP_pair_text: "pair_ok kv \<Longrightarrow> AMP \<notin> set (pair_text kv)"
  by (simp add: pair_ok_def pair_text_def)

lemma decode_query_text:
  assumes "\<forall>kv \<in> set kvs. pair_ok kv"
  shows "decode_loop (query_text kvs) m = m ++ map_of (rev kvs)"
  using assms
proof (induction kvs arbitrary: m rule: query_text.induct)
  case 1
  then show ?case by (simp add: decode_loop.simps)
next
  case (2 kv)
  then have "AMP \<notin> set (pair_text kv)" "pair_text kv \<noteq> []"
    by (simp_all add: AMP_pair_text) (simp add: pair_text_def)
  with 2 show ?case
    by (cases kv) (simp add: decode_loop.simps [of "pair_text _"] split_at_append store_pair_text map_add_def fun_eq_iff)
next
  case (3 kv kv' kvs)
  have "AMP \<notin> set (pair_text kv)" using 3 by (simp add: AMP_pair_text)
  then have "decode_loop (query_text (kv # kv' # kvs)) m = decode_loop (query_text (kv' # kvs)) (m(fst kv \<mapsto> snd kv))"
    using 3(2) by (subst decode_loop.simps) (simp add: split_at_append store_pair_text)
  also have "\<dots> = m(fst kv \<mapsto> snd kv) ++ map_of (rev (kv' # kvs))"
    using 3 by simp
  finally show ?case by (cases kv) (auto simp: map_add_def fun_eq_iff split: option.split)
qed

text \<open>
  C24. Decoding inverts writing: for a target whose query string joins key and value pairs, \<open>query()\<close>
  gives exactly those pairs, the last one winning where a key is repeated, whatever the path before
  the question mark is and whatever an earlier request left in \<open>queryParams\<close>; a second call
  gives the same map without decoding again.
\<close>

theorem query_roundtrip:
  assumes "QM \<notin> set path" "\<forall>kv \<in> set kvs. pair_ok kv"
    and "\<not> is_queryParams_parsed req" "url req = path @ QM # query_text kvs"
  shows "fst (query req) = map_of (rev kvs) \<and> query (snd (query req)) = query req"
  using assms by (simp add: query_def Let_def urlDecode_def split_at_append decode_query_text)

text \<open>\<open>/find?k=v&n=7&k=w\<close>, with the fields of the request before it still stored.\<close>

theorem query_roundtrip_witness:
  "fst (query (httpReq_init\<lparr>url := bstr ''/find?k=v&n=7&k=w'', queryParams := [bstr ''old'' \<mapsto> []]\<rparr>))
   = [bstr ''k'' \<mapsto> bstr ''w'', bstr ''n'' \<mapsto> bstr ''7'']"
  using query_roundtrip [of "bstr ''/find''"
      "[(bstr ''k'', bstr ''v''), (bstr ''n'', bstr ''7''), (bstr ''k'', bstr ''w'')]"
      "httpReq_init\<lparr>url := bstr ''/find?k=v&n=7&k=w'', queryParams := [bstr ''old'' \<mapsto> []]\<rparr>"]
  by (simp add: pair_ok_def pair_text_def httpReq_init_def fun_upd_twist)

end
