(* ===== verification/Http_Router.thy ===== *)
theory Http_Router
  imports Http_Req
begin

text \<open>
  \<open>httpRouter\<close> (\<open>src/src/core/httpRouter.h\<close>, \<open>httpRouter.cpp\<close>): route templates, the route table and
  \<open>dispatch\<close>. The three fixed regular expressions that \<open>parse_path_to_regex\<close> runs over a template are
  written out as scans. Compiling and matching the pattern it builds is the standard library's
  \<open>std::regex\<close>: \<open>rx_compile\<close> gives \<open>None\<close> where the constructor throws \<open>regex_error\<close>, and \<open>rx_match\<close>
  gives the strings of the match results, the whole match first.
\<close>

section \<open>Templates\<close>

text \<open>\<open>\w\<close>\<close>

definition word_char :: "byte \<Rightarrow> bool" where
  "word_char c \<longleftrightarrow> (48 \<le> c \<and> c \<le> 57) \<or> (65 \<le> c \<and> c \<le> 90) \<or> (97 \<le> c \<and> c \<le> 122) \<or> c = 95"

text \<open>The characters \<open>':'\<close>, \<open>'('\<close> and \<open>')'\<close>.\<close>

abbreviation COLON :: byte where "COLON \<equiv> 58"
abbreviation LPAR :: byte where "LPAR \<equiv> 40"
abbreviation RPAR :: byte where "RPAR \<equiv> 41"

text \<open>A match of \<open>:(\w+)\<close> at the head of the string: the name and what follows.\<close>

definition param_at :: "bytes \<Rightarrow> (bytes \<times> bytes) option" where
  "param_at xs =
     (case xs of
        [] \<Rightarrow> None
      | c # cs \<Rightarrow>
          let n = takeWhile word_char cs
          in if c = COLON \<and> n \<noteq> [] then Some (n, dropWhile word_char cs) else None)"

lemma param_at_length [termination_simp]: "param_at xs = Some (n, rest) \<Longrightarrow> length rest < length xs"
  unfolding param_at_def
  by (auto simp: Let_def less_Suc_eq_le length_dropWhile_le split: list.splits if_splits)

text \<open>The \<open>sregex_iterator\<close> over \<open>:(\w+)\<close>.\<close>

function extract_names :: "bytes \<Rightarrow> bytes list" where
  "extract_names xs =
     (case param_at xs of
        Some (n, rest) \<Rightarrow> n # extract_names rest
      | None \<Rightarrow> (case xs of [] \<Rightarrow> [] | _ # cs \<Rightarrow> extract_names cs))"
  by pat_completeness auto
termination
  by (relation "measure length") (auto dest: param_at_length)

text \<open>\<open>regex_replace\<close> of \<open>:(\w+)\<close> by \<open>([^/]+)\<close>.\<close>

definition SEGMENT :: bytes where "SEGMENT = bstr ''([^/]+)''"

function replace_params :: "bytes \<Rightarrow> bytes" where
  "replace_params xs =
     (case param_at xs of
        Some (n, rest) \<Rightarrow> SEGMENT @ replace_params rest
      | None \<Rightarrow> (case xs of [] \<Rightarrow> [] | c # cs \<Rightarrow> c # replace_params cs))"
  by pat_completeness auto
termination
  by (relation "measure length") (auto dest: param_at_length)

text \<open>
  A match of \<open>:(\w+)\((.+?)\)\<close> at the head of the string: at least one character, none a line
  terminator, up to the nearest \<open>')'\<close>.
\<close>

definition line_end :: "byte \<Rightarrow> bool" where "line_end c \<longleftrightarrow> c = 10 \<or> c = 13"

definition custom_at :: "bytes \<Rightarrow> (bytes \<times> bytes) option" where
  "custom_at xs =
     (case param_at xs of
        Some (n, p # x # ys) \<Rightarrow>
          let inner = takeWhile (\<lambda>c. c \<noteq> RPAR \<and> \<not> line_end c) ys;
              rest = dropWhile (\<lambda>c. c \<noteq> RPAR \<and> \<not> line_end c) ys
          in if p = LPAR \<and> \<not> line_end x \<and> rest \<noteq> [] \<and> hd rest = RPAR then Some (x # inner, tl rest) else None
      | _ \<Rightarrow> None)"

lemma custom_at_length: 
  assumes "custom_at xs = Some (inner, rest)"
  shows "length rest < length xs"
proof -
  from assms obtain n p x ys where pa: "param_at xs = Some (n, p # x # ys)"
    and rest: "rest = tl (dropWhile (\<lambda>c. c \<noteq> RPAR \<and> \<not> line_end c) ys)"
    unfolding custom_at_def by (auto simp: Let_def split: option.splits list.splits if_splits)
  have "length rest \<le> length ys" unfolding rest
    by (metis diff_le_self le_trans length_dropWhile_le length_tl)
  with param_at_length [OF pa] show ?thesis by simp
qed

function replace_custom :: "bytes \<Rightarrow> bytes" where
  "replace_custom xs =
     (case custom_at xs of
        Some (inner, rest) \<Rightarrow> LPAR # inner @ RPAR # replace_custom rest
      | None \<Rightarrow> (case xs of [] \<Rightarrow> [] | c # cs \<Rightarrow> c # replace_custom cs))"
  by pat_completeness auto
termination
  by (relation "measure length") (auto dest: custom_at_length)

declare extract_names.simps [simp del] replace_params.simps [simp del] replace_custom.simps [simp del]

definition parse_path_to_regex :: "bytes \<Rightarrow> bytes \<times> bytes list" where
  "parse_path_to_regex path_template =
     (bstr ''^'' @ replace_params (replace_custom path_template) @ bstr ''$'', extract_names path_template)"

section \<open>The table\<close>

record ('rx, 'h) Route =
  pattern :: 'rx
  handler :: 'h
  paramNames :: "bytes list"

type_synonym ('rx, 'h) httpRouter = "http_method \<rightharpoonup> ('rx, 'h) Route list"

definition addRoute ::
  "(bytes \<Rightarrow> 'rx option) \<Rightarrow> http_method \<Rightarrow> bytes \<Rightarrow> 'h \<Rightarrow> ('rx, 'h) httpRouter \<Rightarrow> ('rx, 'h) httpRouter" where
  "addRoute rx_compile m pattern_template h routes =
     (case parse_path_to_regex pattern_template of
        (regex_str, param_names) \<Rightarrow>
          (case rx_compile regex_str of
             None \<Rightarrow> routes
           | Some rx \<Rightarrow>
               routes(m \<mapsto> (case routes m of None \<Rightarrow> [] | Some rs \<Rightarrow> rs)
                            @ [\<lparr>pattern = rx, handler = h, paramNames = param_names\<rparr>])))"

text \<open>The loop \<open>for (i = 1; i < param_len; i++)\<close>, entered with \<open>i\<close>.\<close>

function bind_params :: "nat \<Rightarrow> nat \<Rightarrow> bytes list \<Rightarrow> bytes list \<Rightarrow> HttpParamMap \<Rightarrow> HttpParamMap" where
  "bind_params i param_len names res m =
     (if i < param_len then bind_params (i + 1) param_len names res (m(names ! (i - 1) \<mapsto> res ! i)) else m)"
  by pat_completeness auto
termination
  by (relation "measure (\<lambda>(i, n, _). n - i)") auto

declare bind_params.simps [simp del]

fun first_match ::
  "('rx \<Rightarrow> bytes \<Rightarrow> bytes list option) \<Rightarrow> bytes \<Rightarrow> ('rx, 'h) Route list \<Rightarrow> httpReq \<Rightarrow> 'h option \<times> httpReq" where
  "first_match rx_match path [] req = (None, req\<lparr>params := Map.empty\<rparr>)"
| "first_match rx_match path (r # rs) req =
     (case rx_match (pattern r) path of
        Some res \<Rightarrow>
          let param_len = min (length res) (length (paramNames r))
          in (Some (handler r), req\<lparr>params := bind_params 1 param_len (paramNames r) res (params req)\<rparr>)
      | None \<Rightarrow> first_match rx_match path rs req)"

definition dispatch ::
  "('rx \<Rightarrow> bytes \<Rightarrow> bytes list option) \<Rightarrow> ('rx, 'h) httpRouter \<Rightarrow> httpReq \<Rightarrow> 'h option \<times> httpReq" where
  "dispatch rx_match routes req =
     (case routes (rmethod req) of
        None \<Rightarrow> (None, req)
      | Some method_routes \<Rightarrow> first_match rx_match (fst (split_at QM (url req))) method_routes req)"

section \<open>Which handler runs\<close>

text \<open>A registration: method, template, handler; the table after a sequence of them.\<close>

definition register ::
  "(bytes \<Rightarrow> 'rx option) \<Rightarrow> (http_method \<times> bytes \<times> 'h) list \<Rightarrow> ('rx, 'h) httpRouter" where
  "register rx_compile regs = fold (\<lambda>(m, t, h). addRoute rx_compile m t h) regs Map.empty"

definition template_matches ::
  "(bytes \<Rightarrow> 'rx option) \<Rightarrow> ('rx \<Rightarrow> bytes \<Rightarrow> bytes list option) \<Rightarrow> bytes \<Rightarrow> bytes \<Rightarrow> bool" where
  "template_matches rx_compile rx_match t path =
     (case rx_compile (fst (parse_path_to_regex t)) of
        None \<Rightarrow> False
      | Some rx \<Rightarrow> rx_match rx path \<noteq> None)"

abbreviation routes_of :: "('rx, 'h) httpRouter \<Rightarrow> http_method \<Rightarrow> ('rx, 'h) Route list" where
  "routes_of rt m \<equiv> (case rt m of None \<Rightarrow> [] | Some rs \<Rightarrow> rs)"

lemma routes_of_addRoute:
  "routes_of (addRoute rx_compile m t h rt) m' =
     routes_of rt m' @
       (case rx_compile (fst (parse_path_to_regex t)) of
          Some rx \<Rightarrow> if m = m' then [\<lparr>pattern = rx, handler = h, paramNames = snd (parse_path_to_regex t)\<rparr>] else []
        | None \<Rightarrow> [])"
  by (auto simp: addRoute_def split: prod.split option.split)

definition as_route ::
  "(bytes \<Rightarrow> 'rx option) \<Rightarrow> http_method \<Rightarrow> http_method \<times> bytes \<times> 'h \<Rightarrow> ('rx, 'h) Route option" where
  "as_route rx_compile m reg =
     (case reg of (m', t, h) \<Rightarrow>
        case rx_compile (fst (parse_path_to_regex t)) of
          Some rx \<Rightarrow> if m' = m then Some \<lparr>pattern = rx, handler = h, paramNames = snd (parse_path_to_regex t)\<rparr> else None
        | None \<Rightarrow> None)"

text \<open>The routes of a method are its compilable registrations, in registration order.\<close>

lemma routes_of_register:
  "routes_of (fold (\<lambda>(m, t, h). addRoute rx_compile m t h) regs rt) m =
     routes_of rt m @
       List.map_filter (as_route rx_compile m) regs"
proof (induction regs arbitrary: rt)
  case (Cons r regs)
  obtain m' t h where "r = (m', t, h)" by (cases r)
  with Cons.IH show ?case
    by (simp add: routes_of_addRoute List.map_filter_simps as_route_def split: option.split)
qed (simp add: List.map_filter_simps)

lemma fst_first_match:
  "fst (first_match rx_match path rs req) = map_option handler (find (\<lambda>r. rx_match (pattern r) path \<noteq> None) rs)"
  by (induction rs) (auto simp: Let_def split: option.split)

lemma fst_dispatch:
  "fst (dispatch rx_match rt req) =
     map_option handler (find (\<lambda>r. rx_match (pattern r) (fst (split_at QM (url req))) \<noteq> None) (routes_of rt (rmethod req)))"
  by (simp add: dispatch_def fst_first_match split: option.split)

text \<open>
  C14. The table implements first-match routing: after any sequence of registrations, \<open>dispatch\<close> gives
  the handler of the earliest registration with the request's method whose template, turned into a
  regular expression, compiles and matches the target up to its question mark, and none if there is
  no such registration. This holds for whatever the regular expression engine accepts and matches.
\<close>

theorem dispatch_first_match:
  "fst (dispatch rx_match (register rx_compile regs) req) =
     map_option (\<lambda>(m, t, h). h)
       (find (\<lambda>(m, t, h). m = rmethod req
                \<and> template_matches rx_compile rx_match t (fst (split_at QM (url req)))) regs)"
proof -
  have "map_option handler (find (\<lambda>r. rx_match (pattern r) path \<noteq> None) (List.map_filter (as_route rx_compile m) regs))
    = map_option (\<lambda>(m, t, h). h) (find (\<lambda>(m', t, h). m' = m \<and> template_matches rx_compile rx_match t path) regs)"
    for path m
  proof (induction regs)
    case (Cons r regs)
    obtain m' t h where "r = (m', t, h)" by (cases r)
    with Cons.IH show ?case
      by (cases "rx_compile (fst (parse_path_to_regex t))")
         (simp_all add: List.map_filter_simps as_route_def template_matches_def)
  qed (simp add: List.map_filter_simps)
  then show ?thesis
    by (simp add: fst_dispatch register_def routes_of_register)
qed

section \<open>Parameters\<close>

lemma bind_params_eq:
  assumes "param_len \<le> length names" "param_len \<le> length res" "1 \<le> i"
  shows "bind_params i param_len names res m =
    m ++ map_of (rev (zip (take (param_len - i) (drop (i - 1) names)) (drop i res)))"
  using assms
proof (induction i param_len names res m rule: bind_params.induct)
  case (1 i param_len names res m)
  show ?case
  proof (cases "i < param_len")
    case True
    then have n: "drop (i - 1) names = names ! (i - 1) # drop i names"
      using 1(2,4) by (metis Cons_nth_drop_Suc Suc_diff_1 less_le_trans less_imp_diff_less not_less_zero gr0I not_one_le_zero)
    have r: "drop i res = res ! i # drop (Suc i) res" using True 1(3) by (simp add: Cons_nth_drop_Suc)
    have t: "param_len - i = Suc (param_len - Suc i)" using True by simp
    let ?z = "zip (take (param_len - Suc i) (drop i names)) (drop (Suc i) res)"
    have "bind_params i param_len names res m =
        bind_params (i + 1) param_len names res (m(names ! (i - 1) \<mapsto> res ! i))"
      using True by (subst bind_params.simps) simp
    also have "\<dots> = m(names ! (i - 1) \<mapsto> res ! i) ++ map_of (rev ?z)"
      using 1(1) [OF True] 1(2,3,4) True by (simp add: fun_upd_def)
    also have "\<dots> = m ++ map_of (rev ((names ! (i - 1), res ! i) # ?z))"
      by (auto simp: map_add_def fun_eq_iff split: option.split)
    finally show ?thesis by (simp only: n r t take_Suc_Cons zip_Cons_Cons)
  qed (simp add: bind_params.simps)
qed

lemma first_match_params:
  assumes "find (\<lambda>r. rx_match (pattern r) path \<noteq> None) rs = Some r" "rx_match (pattern r) path = Some res"
  shows "params (snd (first_match rx_match path rs req)) =
    params req ++ map_of (rev (zip (take (min (length res) (length (paramNames r)) - 1) (paramNames r)) (drop 1 res)))"
  using assms by (induction rs) (auto simp: Let_def bind_params_eq split: if_splits option.splits)

text \<open>
  C40. The loop that binds the captures runs to \<open>min(match_results.size(), paramNames.size())\<close>
  exclusively, while captures are numbered from 1. So when the selected route has distinct parameter
  names, the last of them is never bound: its entry in \<open>params\<close> is the one that was there before,
  absent or left over from an earlier request of the connection. A route with one parameter binds none.
\<close>

theorem last_param_unbound:
  assumes "routes (rmethod req) = Some rs"
    and "find (\<lambda>r. rx_match (pattern r) (fst (split_at QM (url req))) \<noteq> None) rs = Some r"
    and "paramNames r \<noteq> []" "distinct (paramNames r)"
  shows "params (snd (dispatch rx_match routes req)) (last (paramNames r)) = params req (last (paramNames r))"
proof -
  obtain res where res: "rx_match (pattern r) (fst (split_at QM (url req))) = Some res"
    using assms(2) by (auto simp: find_Some_iff)
  let ?n = "min (length res) (length (paramNames r)) - 1"
  have "?n \<le> length (paramNames r) - 1" by simp
  then have "set (take ?n (paramNames r)) \<subseteq> set (butlast (paramNames r))"
    by (metis butlast_conv_take set_take_subset_set_take)
  moreover have "last (paramNames r) \<notin> set (butlast (paramNames r))"
    using assms(3,4) by (metis append_butlast_last_id distinct_butlast not_distinct_conv_prefix)
  ultimately have "last (paramNames r) \<notin> set (take ?n (paramNames r))" by blast
  then have "map_of (rev (zip (take ?n (paramNames r)) (drop 1 res))) (last (paramNames r)) = None"
    by (auto simp: map_of_eq_None_iff dest: set_zip_leftD)
  with first_match_params [where rx_match = rx_match and path = "fst (split_at QM (url req))", OF assms(2) res, of req]
    assms(1) show ?thesis
    by (simp add: dispatch_def map_add_def)
qed

text \<open>
  The route \<open>/users/:id\<close> and a request for \<open>/users/42\<close>, with a matcher that gives the captures of
  \<open>^/users/([^/]+)$\<close> on the paths under \<open>/users/\<close>: no parameter is bound.
\<close>

definition users_match :: "bytes \<Rightarrow> bytes \<Rightarrow> bytes list option" where
  "users_match rx path =
     (if rx = bstr ''^/users/([^/]+)$'' \<and> take 7 path = bstr ''/users/'' \<and> B CHR ''/'' \<notin> set (drop 7 path)
         \<and> drop 7 path \<noteq> []
      then Some [path, drop 7 path] else None)"

theorem last_param_unbound_witness:
  "params (snd (dispatch users_match
     [HTTP_GET \<mapsto> [\<lparr>pattern = bstr ''^/users/([^/]+)$'', handler = (), paramNames = [bstr ''id'']\<rparr>]]
     (httpReq_init\<lparr>rmethod := HTTP_GET, url := bstr ''/users/42''\<rparr>))) (bstr ''id'') = None"
  using last_param_unbound [where req = "httpReq_init\<lparr>rmethod := HTTP_GET, url := bstr ''/users/42''\<rparr>"
      and routes = "[HTTP_GET \<mapsto> [\<lparr>pattern = bstr ''^/users/([^/]+)$'', handler = (), paramNames = [bstr ''id'']\<rparr>]]"
      and rx_match = users_match and rs = "[\<lparr>pattern = bstr ''^/users/([^/]+)$'', handler = (), paramNames = [bstr ''id'']\<rparr>]"
      and r = "\<lparr>pattern = bstr ''^/users/([^/]+)$'', handler = (), paramNames = [bstr ''id'']\<rparr>"]
  by (simp add: httpReq_init_def users_match_def)

section \<open>Templates as they are meant\<close>

text \<open>A template is a sequence of literal pieces and parameters.\<close>

datatype segment = Lit bytes | Param bytes

primrec seg_text :: "segment \<Rightarrow> bytes" where
  "seg_text (Lit l) = l"
| "seg_text (Param n) = COLON # n"

primrec seg_regex :: "segment \<Rightarrow> bytes" where
  "seg_regex (Lit l) = l"
| "seg_regex (Param n) = SEGMENT"

definition template :: "segment list \<Rightarrow> bytes" where
  "template segs = concat (map seg_text segs)"

definition names_of :: "segment list \<Rightarrow> bytes list" where
  "names_of segs = concat (map (\<lambda>s. case s of Lit _ \<Rightarrow> [] | Param n \<Rightarrow> [n]) segs)"

text \<open>
  Literals contain no colon; names are words; a parameter is not followed by a character that would
  extend its name, nor by the parenthesis of a custom expression.
\<close>

primrec seg_ok :: "segment \<Rightarrow> bool" where
  "seg_ok (Lit l) \<longleftrightarrow> COLON \<notin> set l"
| "seg_ok (Param n) \<longleftrightarrow> n \<noteq> [] \<and> (\<forall>c \<in> set n. word_char c)"

definition stops :: "bytes \<Rightarrow> bool" where
  "stops xs \<longleftrightarrow> (case xs of [] \<Rightarrow> True | c # _ \<Rightarrow> \<not> word_char c \<and> c \<noteq> LPAR)"

fun template_ok :: "segment list \<Rightarrow> bool" where
  "template_ok [] \<longleftrightarrow> True"
| "template_ok (Lit l # segs) \<longleftrightarrow> seg_ok (Lit l) \<and> template_ok segs"
| "template_ok (Param n # segs) \<longleftrightarrow> seg_ok (Param n) \<and> stops (template segs) \<and> template_ok segs"

lemma param_at_literal: "c \<noteq> COLON \<Longrightarrow> param_at (c # xs) = None" "param_at [] = None"
  by (simp_all add: param_at_def Let_def)

lemma custom_at_literal: "c \<noteq> COLON \<Longrightarrow> custom_at (c # xs) = None" "custom_at [] = None"
  by (simp_all add: custom_at_def param_at_literal)

lemma stops_takeWhile: "stops xs \<Longrightarrow> takeWhile word_char xs = [] \<and> dropWhile word_char xs = xs"
  by (cases xs) (simp_all add: stops_def)

lemma param_at_param:
  assumes "seg_ok (Param n)" "stops xs"
  shows "param_at (COLON # n @ xs) = Some (n, xs)"
  using assms stops_takeWhile [OF assms(2)]
  by (simp add: param_at_def takeWhile_append dropWhile_append Let_def)

lemma custom_at_param:
  assumes "seg_ok (Param n)" "stops xs"
  shows "custom_at (COLON # n @ xs) = None"
  using assms param_at_param [OF assms]
  by (auto simp: custom_at_def stops_def Let_def split: list.split)

lemma scan_literal:
  assumes "COLON \<notin> set l"
  shows "extract_names (l @ xs) = extract_names xs"
    "replace_params (l @ xs) = l @ replace_params xs"
    "replace_custom (l @ xs) = l @ replace_custom xs"
  using assms
  by (induction l) (simp_all add: extract_names.simps [of "_ # _"] replace_params.simps [of "_ # _"]
        replace_custom.simps [of "_ # _"] param_at_literal custom_at_literal)

text \<open>Past a name, whose characters are not colons, the custom scan changes nothing.\<close>

lemma word_not_colon: "word_char c \<Longrightarrow> c \<noteq> COLON"
  by (auto simp: word_char_def)

lemma scan_template:
  "template_ok segs \<Longrightarrow>
     extract_names (template segs) = names_of segs
     \<and> replace_params (template segs) = concat (map seg_regex segs)
     \<and> replace_custom (template segs) = template segs"
proof (induction segs rule: template_ok.induct)
  case 1
  then show ?case
    by (simp add: template_def names_of_def extract_names.simps [of "[]"] replace_params.simps [of "[]"]
        replace_custom.simps [of "[]"] param_at_literal custom_at_literal)
next
  case (2 l segs)
  have "template (Lit l # segs) = l @ template segs" by (simp add: template_def)
  with 2 show ?case by (simp add: scan_literal names_of_def)
next
  case (3 n segs)
  then have ok: "seg_ok (Param n)" "stops (template segs)" by simp_all
  have t: "template (Param n # segs) = COLON # n @ template segs" by (simp add: template_def)
  have "COLON \<notin> set n" using ok(1) word_not_colon by auto
  with 3 ok show ?case
    unfolding t
    by (subst extract_names.simps, subst replace_params.simps, subst replace_custom.simps)
       (simp add: param_at_param custom_at_param scan_literal names_of_def)
qed

text \<open>
  C23. Template translation: a template of literal pieces and \<open>:name\<close> parameters becomes the expression
  in which every parameter is the group \<open>([^/]+)\<close> and every literal stands as written, anchored at both
  ends, and the parameter names are listed in the order of their groups.
\<close>

theorem template_to_regex:
  assumes "template_ok segs"
  shows "parse_path_to_regex (template segs) =
    (bstr ''^'' @ concat (map seg_regex segs) @ bstr ''$'', names_of segs)"
  using scan_template [OF assms] by (simp add: parse_path_to_regex_def)

theorem template_to_regex_witness:
  "parse_path_to_regex (bstr ''/users/:id/posts/:post_id'') =
     (bstr ''^/users/([^/]+)/posts/([^/]+)$'', [bstr ''id'', bstr ''post_id''])"
  using template_to_regex [of "[Lit (bstr ''/users/''), Param (bstr ''id''), Lit (bstr ''/posts/''), Param (bstr ''post_id'')]"]
  by (simp add: template_def names_of_def stops_def word_char_def SEGMENT_def)

end
