(* ===== verification/File_Reader.thy ===== *)
theory File_Reader
  imports Prelude
begin

text \<open>
  \<open>FileReader\<close> (\<open>src/src/core/FileReader.h\<close>, \<open>FileReader.cpp\<close>): the asynchronous reader that fills a
  vector of buffers through libuv's \<open>uv_fs_open\<close>, \<open>uv_fs_read\<close> and \<open>uv_fs_close\<close>. Each completion
  callback is one operation; what libuv reports (the result, and for a read the bytes it put into the
  buffer) is its argument, and the requests it submits are recorded in order. The two application
  callbacks may delete the reader, as the one \<open>httpResp\<close> installs does; an access to the reader after
  that is the outcome \<open>Use_After_Free\<close>.
\<close>

section \<open>State\<close>

datatype FileReaderErr = read_success | open_failed | read_failed | close_failed

definition DEFAULT_FILE_READER_BUFF_SIZE :: nat where
  "DEFAULT_FILE_READER_BUFF_SIZE = 1024"

record uv_buf_t =
  base :: bytes
  blen :: nat

text \<open>\<open>new char[DEFAULT_FILE_READER_BUFF_SIZE]\<close>; its contents are written before they are read.\<close>

definition new_buf :: uv_buf_t where
  "new_buf = \<lparr>base = replicate DEFAULT_FILE_READER_BUFF_SIZE 0, blen = DEFAULT_FILE_READER_BUFF_SIZE\<rparr>"

record FileReader =
  m_bufferVec :: "uv_buf_t list"
  m_buffUsed :: nat
  m_result :: FileReaderErr
  m_fd :: int
  m_path :: bytes
  m_readByte :: nat

text \<open>\<open>m_result\<close> and \<open>m_fd\<close> are not initialised by the constructor; they are written before use.\<close>

definition FileReader_init :: FileReader where
  "FileReader_init = \<lparr>m_bufferVec = [new_buf], m_buffUsed = 0, m_result = read_success, m_fd = - 1,
     m_path = [], m_readByte = 0\<rparr>"

text \<open>What the reader asks of libuv, and the application callbacks it runs.\<close>

datatype reader_io =
    Fs_Open bytes
  | Fs_Read int nat
  | Fs_Close int
  | Cb_Error FileReaderErr
  | Cb_Close

text \<open>A callback gives whether it deleted the reader, and the application state.\<close>

type_synonym 's reader_cb = "FileReader \<Rightarrow> 's \<Rightarrow> bool \<times> 's"

record 's reader_callbacks =
  m_onClose :: "'s reader_cb option"
  m_onError :: "'s reader_cb option"

record 's reader_state =
  self :: FileReader
  alive :: bool
  client :: 's
  rio :: "reader_io list"

datatype 's reader_outcome = Ok "'s reader_state" | Use_After_Free

section \<open>Operations\<close>

definition fr_io :: "reader_io \<Rightarrow> 's reader_state \<Rightarrow> 's reader_state" where
  "fr_io ev st = st\<lparr>rio := rio st @ [ev]\<rparr>"

definition touch :: "('s reader_state \<Rightarrow> 's reader_outcome) \<Rightarrow> 's reader_state \<Rightarrow> 's reader_outcome" where
  "touch k st = (if alive st then k st else Use_After_Free)"

text \<open>\<open>FILE_CALLBACK\<close>\<close>

definition FILE_CALLBACK :: "'s reader_cb option \<Rightarrow> reader_io \<Rightarrow> 's reader_state \<Rightarrow> 's reader_state" where
  "FILE_CALLBACK cb ev st =
     (case cb of
        None \<Rightarrow> st
      | Some f \<Rightarrow>
          (case f (self st) (client st) of
             (deleted, s) \<Rightarrow> fr_io ev (st\<lparr>alive := alive st \<and> \<not> deleted, client := s\<rparr>)))"

definition FILE_ON_ERROR ::
  "'s reader_callbacks \<Rightarrow> int \<Rightarrow> FileReaderErr \<Rightarrow> 's reader_state \<Rightarrow> 's reader_state" where
  "FILE_ON_ERROR cbs res err st =
     (if res < 0
      then FILE_CALLBACK (m_onError cbs) (Cb_Error err) (st\<lparr>self := (self st)\<lparr>m_result := err\<rparr>\<rparr>)
      else st)"

definition getReadByte :: "FileReader \<Rightarrow> nat" where
  "getReadByte r = m_readByte r"

text \<open>\<open>getBuff\<close> assigns to its own parameter: the caller's pointer is not set.\<close>

definition getBuff :: "FileReader \<Rightarrow> 'p \<Rightarrow> 'p \<times> nat" where
  "getBuff r buff = (buff, m_buffUsed r)"

definition appendToBuff :: "FileReader \<Rightarrow> uv_buf_t list \<Rightarrow> uv_buf_t list" where
  "appendToBuff r buff = buff @ map (\<lambda>i. m_bufferVec r ! i) [0..<m_buffUsed r]"

definition fileRead :: "bytes \<Rightarrow> 's reader_state \<Rightarrow> 's reader_state" where
  "fileRead path st =
     fr_io (Fs_Open path) (st\<lparr>self := (self st)\<lparr>m_path := path, m_buffUsed := 0, m_readByte := 0\<rparr>\<rparr>)"

definition onOpen :: "'s reader_callbacks \<Rightarrow> int \<Rightarrow> 's reader_state \<Rightarrow> 's reader_outcome" where
  "onOpen cbs res st =
     touch (\<lambda>st.
       if res < 0 then Ok st
       else
         let r = self st;
             r = (if m_bufferVec r = [] then r\<lparr>m_bufferVec := [new_buf]\<rparr> else r);
             r = r\<lparr>m_buffUsed := 0, m_fd := res\<rparr>
         in Ok (fr_io (Fs_Read (m_fd r) 0) (st\<lparr>self := r\<rparr>)))
     (FILE_ON_ERROR cbs res open_failed st)"

text \<open>
  \<open>onRead\<close> with the bytes the read stored at the start of buffer \<open>m_buffUsed\<close>; \<open>res\<close> is their number, or
  negative.
\<close>

definition put_data :: "bytes \<Rightarrow> FileReader \<Rightarrow> FileReader" where
  "put_data d r =
     (let i = m_buffUsed r; b = m_bufferVec r ! i
      in r\<lparr>m_bufferVec := (m_bufferVec r)[i := b\<lparr>base := d @ drop (length d) (base b)\<rparr>]\<rparr>)"

definition onRead :: "'s reader_callbacks \<Rightarrow> bytes + int \<Rightarrow> 's reader_state \<Rightarrow> 's reader_outcome" where
  "onRead cbs res st =
     (case res of
        Inr err \<Rightarrow> Ok (FILE_ON_ERROR cbs err read_failed st)
      | Inl d \<Rightarrow>
          let r = put_data d (self st); n = length d;
              r = r\<lparr>m_readByte := m_readByte r + n\<rparr>
          in if n = blen (m_bufferVec r ! m_buffUsed r) then
               let r = r\<lparr>m_buffUsed := m_buffUsed r + 1\<rparr>;
                   r = (if m_buffUsed r = length (m_bufferVec r)
                        then r\<lparr>m_bufferVec := m_bufferVec r @ [new_buf]\<rparr> else r)
               in Ok (fr_io (Fs_Read (m_fd r) (m_buffUsed r)) (st\<lparr>self := r\<rparr>))
             else
               let b = m_bufferVec r ! m_buffUsed r;
                   r = r\<lparr>m_bufferVec := (m_bufferVec r)[m_buffUsed r := b\<lparr>blen := n\<rparr>]\<rparr>;
                   r = r\<lparr>m_buffUsed := m_buffUsed r + 1\<rparr>
               in Ok (fr_io (Fs_Close (m_fd r)) (st\<lparr>self := r\<rparr>)))"

definition onClose :: "'s reader_callbacks \<Rightarrow> int \<Rightarrow> 's reader_state \<Rightarrow> 's reader_outcome" where
  "onClose cbs res st =
     touch (\<lambda>st. Ok (FILE_CALLBACK (m_onClose cbs) Cb_Close st)) (FILE_ON_ERROR cbs res close_failed st)"

section \<open>Reading a content\<close>

text \<open>
  The completions of the reads of a file: each gives as many bytes as the buffer takes and the file has left. The
  code takes a read that gives less than the buffer holds for the end of the file, so that a file system that
  gives fewer bytes than it has is one with the content read until then.
\<close>

function run_reads :: "'s reader_callbacks \<Rightarrow> bytes \<Rightarrow> 's reader_state \<Rightarrow> 's reader_outcome" where
  "run_reads cbs content st =
     (let d = take DEFAULT_FILE_READER_BUFF_SIZE content
      in case onRead cbs (Inl d) st of
           Use_After_Free \<Rightarrow> Use_After_Free
         | Ok st \<Rightarrow>
             if length d < DEFAULT_FILE_READER_BUFF_SIZE then Ok st
             else run_reads cbs (drop DEFAULT_FILE_READER_BUFF_SIZE content) st)"
  by pat_completeness auto
termination
  by (relation "measure (\<lambda>(_, content, _). length content)") (auto simp: DEFAULT_FILE_READER_BUFF_SIZE_def)

declare run_reads.simps [simp del]

definition buf_data :: "uv_buf_t \<Rightarrow> bytes" where
  "buf_data b = take (blen b) (base b)"

definition buffered :: "FileReader \<Rightarrow> bytes" where
  "buffered r = concat (map buf_data (appendToBuff r []))"

text \<open>
  The reader while a read is under way: every buffer before the current one is used and holds its
  data, the current one is empty and last, and \<open>m_readByte\<close> counts what is buffered.
\<close>

definition reading :: "FileReader \<Rightarrow> bool" where
  "reading r \<longleftrightarrow> (\<exists>pre b. m_bufferVec r = pre @ [b] \<and> length pre = m_buffUsed r
      \<and> blen b = DEFAULT_FILE_READER_BUFF_SIZE \<and> length (base b) = DEFAULT_FILE_READER_BUFF_SIZE
      \<and> m_readByte r = length (buffered r))"

lemma map_nth_upt: "n \<le> length xs \<Longrightarrow> map (\<lambda>i. xs ! i) [0..<n] = take n xs"
  by (simp add: list_eq_iff_nth_eq)

lemma buffered_eq: "m_buffUsed r \<le> length (m_bufferVec r) \<Longrightarrow>
    buffered r = concat (map buf_data (take (m_buffUsed r) (m_bufferVec r)))"
  unfolding buffered_def appendToBuff_def by (simp only: map_nth_upt append_Nil)

lemma reading_init: "reading (r\<lparr>m_buffUsed := 0, m_fd := fd\<rparr>)"
  if "m_bufferVec r = [new_buf]" "m_readByte r = 0"
  using that by (auto simp: reading_def buffered_def appendToBuff_def new_buf_def)

lemma onRead_data:
  assumes "reading (self st)" "length d \<le> DEFAULT_FILE_READER_BUFF_SIZE"
  obtains st' where "onRead cbs (Inl d) st = Ok st'"
    "buffered (self st') = buffered (self st) @ d"
    "m_readByte (self st') = m_readByte (self st) + length d"
    "m_fd (self st') = m_fd (self st)" "m_buffUsed (self st') = m_buffUsed (self st) + 1"
    "alive st' = alive st" "client st' = client st"
    "length d = DEFAULT_FILE_READER_BUFF_SIZE \<Longrightarrow> reading (self st')"
    "rio st' = rio st @ [if length d = DEFAULT_FILE_READER_BUFF_SIZE
                          then Fs_Read (m_fd (self st)) (m_buffUsed (self st) + 1) else Fs_Close (m_fd (self st))]"
proof -
  let ?r = "self st"
  obtain pre b where v: "m_bufferVec ?r = pre @ [b]" and u: "length pre = m_buffUsed ?r"
    and b: "blen b = DEFAULT_FILE_READER_BUFF_SIZE" "length (base b) = DEFAULT_FILE_READER_BUFF_SIZE"
    and n: "m_readByte ?r = length (buffered ?r)"
    using assms(1) by (auto simp: reading_def)
  have buf: "buffered ?r = concat (map buf_data pre)" using v u by (simp add: buffered_eq)
  show thesis
  proof (cases "length d = DEFAULT_FILE_READER_BUFF_SIZE")
    case True
    let ?b = "b\<lparr>base := d\<rparr>"
    let ?r' = "?r\<lparr>m_readByte := m_readByte ?r + length d, m_buffUsed := m_buffUsed ?r + 1, m_bufferVec := pre @ [?b, new_buf]\<rparr>"
    have "buffered ?r' = buffered ?r @ d"
      using u b True by (simp add: buffered_eq buf buf_data_def)
    moreover have "onRead cbs (Inl d) st = Ok (fr_io (Fs_Read (m_fd ?r) (m_buffUsed ?r + 1)) (st\<lparr>self := ?r'\<rparr>))"
      using v u b True by (simp add: onRead_def put_data_def Let_def nth_append list_update_append flip: u)
    moreover have "reading ?r'"
      using u n True calculation(1) by (auto simp: reading_def new_buf_def intro!: exI [of _ "pre @ [?b]"])
    ultimately show ?thesis
      using True by (intro that [of "fr_io (Fs_Read (m_fd ?r) (m_buffUsed ?r + 1)) (st\<lparr>self := ?r'\<rparr>)"]) (simp_all add: fr_io_def)
  next
    case False
    let ?b = "b\<lparr>base := d @ drop (length d) (base b), blen := length d\<rparr>"
    let ?r' = "?r\<lparr>m_readByte := m_readByte ?r + length d, m_bufferVec := pre @ [?b], m_buffUsed := m_buffUsed ?r + 1\<rparr>"
    have "buffered ?r' = buffered ?r @ d"
      using u by (simp add: buffered_eq buf buf_data_def)
    moreover have "onRead cbs (Inl d) st = Ok (fr_io (Fs_Close (m_fd ?r)) (st\<lparr>self := ?r'\<rparr>))"
      using v u b False by (simp add: onRead_def put_data_def Let_def nth_append list_update_append flip: u)
    ultimately show ?thesis
      using False by (intro that [of "fr_io (Fs_Close (m_fd ?r)) (st\<lparr>self := ?r'\<rparr>)"]) (simp_all add: fr_io_def)
  qed
qed

lemma run_reads_complete:
  assumes "reading (self st)"
  shows "\<exists>st'. run_reads cbs content st = Ok st' \<and> buffered (self st') = buffered (self st) @ content
    \<and> m_readByte (self st') = m_readByte (self st) + length content
    \<and> alive st' = alive st \<and> client st' = client st
    \<and> rio st' = rio st @ map (Fs_Read (m_fd (self st)))
          [m_buffUsed (self st) + 1..<m_buffUsed (self st) + 1 + length content div DEFAULT_FILE_READER_BUFF_SIZE]
        @ [Fs_Close (m_fd (self st))]"
  using assms
proof (induction cbs content st rule: run_reads.induct)
  case (1 cbs content st)
  let ?N = DEFAULT_FILE_READER_BUFF_SIZE
  let ?d = "take ?N content"
  have N: "?N = 1024" by (simp add: DEFAULT_FILE_READER_BUFF_SIZE_def)
  obtain st1 where o: "onRead cbs (Inl ?d) st = Ok st1"
    and st1: "buffered (self st1) = buffered (self st) @ ?d"
      "m_readByte (self st1) = m_readByte (self st) + length ?d"
      "m_fd (self st1) = m_fd (self st)" "m_buffUsed (self st1) = m_buffUsed (self st) + 1"
      "alive st1 = alive st" "client st1 = client st"
      "length ?d = ?N \<Longrightarrow> reading (self st1)"
      "rio st1 = rio st @ [if length ?d = ?N then Fs_Read (m_fd (self st)) (m_buffUsed (self st) + 1)
                            else Fs_Close (m_fd (self st))]"
    using onRead_data [OF 1(2), of ?d cbs] by (metis length_take min.cobounded2)
  show ?case
  proof (cases "length ?d < ?N")
    case True
    then have "length content < ?N" by simp
    with o st1 True show ?thesis by (subst run_reads.simps) simp
  next
    case False
    then have len: "?N \<le> length content" by simp
    then obtain st' where "run_reads cbs (drop ?N content) st1 = Ok st'"
      and st': "buffered (self st') = buffered (self st1) @ drop ?N content"
        "m_readByte (self st') = m_readByte (self st1) + length (drop ?N content)"
        "alive st' = alive st1" "client st' = client st1"
        "rio st' = rio st1 @ map (Fs_Read (m_fd (self st1)))
          [m_buffUsed (self st1) + 1..<m_buffUsed (self st1) + 1 + length (drop ?N content) div ?N] @ [Fs_Close (m_fd (self st1))]"
      using 1(1) [OF refl o False] st1(7) by auto
    moreover have "length content div ?N = Suc (length (drop ?N content) div ?N)"
      using len by (simp add: N le_div_geq)
    moreover from this have "[m_buffUsed (self st) + 1..<m_buffUsed (self st) + 1 + length content div ?N] =
        (m_buffUsed (self st) + 1) # [m_buffUsed (self st1) + 1..<m_buffUsed (self st1) + 1 + length (drop ?N content) div ?N]"
      using st1(4) by (simp add: upt_conv_Cons)
    ultimately show ?thesis
      using o st1 False len by (subst run_reads.simps) simp
  qed
qed

text \<open>A read of a file from the completion of the open to that of the close, and from the request on.\<close>

definition finish_read ::
  "'s reader_callbacks \<Rightarrow> int \<Rightarrow> bytes \<Rightarrow> int \<Rightarrow> 's reader_state \<Rightarrow> 's reader_outcome" where
  "finish_read cbs fd content close_res st =
     (case onOpen cbs fd st of
        Use_After_Free \<Rightarrow> Use_After_Free
      | Ok st \<Rightarrow>
          (case run_reads cbs content st of
             Use_After_Free \<Rightarrow> Use_After_Free
           | Ok st \<Rightarrow> onClose cbs close_res st))"

definition read_file ::
  "'s reader_callbacks \<Rightarrow> bytes \<Rightarrow> int \<Rightarrow> bytes \<Rightarrow> int \<Rightarrow> 's reader_state \<Rightarrow> 's reader_outcome" where
  "read_file cbs path fd content close_res st = finish_read cbs fd content close_res (fileRead path st)"

definition new_reader :: "'s \<Rightarrow> 's reader_state" where
  "new_reader s = \<lparr>self = FileReader_init, alive = True, client = s, rio = []\<rparr>"

text \<open>
  A read that fails with \<open>err\<close> once reads have filled buffers with the start of a content: as many as it has
  whole buffers.
\<close>

fun read_blocks :: "'s reader_callbacks \<Rightarrow> bytes list \<Rightarrow> 's reader_state \<Rightarrow> 's reader_outcome" where
  "read_blocks cbs [] st = Ok st"
| "read_blocks cbs (d # ds) st =
     (case onRead cbs (Inl d) st of Use_After_Free \<Rightarrow> Use_After_Free | Ok st \<Rightarrow> read_blocks cbs ds st)"

definition full_blocks :: "bytes \<Rightarrow> bytes list" where
  "full_blocks content =
     map (\<lambda>k. take DEFAULT_FILE_READER_BUFF_SIZE (drop (k * DEFAULT_FILE_READER_BUFF_SIZE) content))
       [0..<length content div DEFAULT_FILE_READER_BUFF_SIZE]"

definition broken_read ::
  "'s reader_callbacks \<Rightarrow> int \<Rightarrow> bytes \<Rightarrow> int \<Rightarrow> 's reader_state \<Rightarrow> 's reader_outcome" where
  "broken_read cbs fd content err st =
     (case onOpen cbs fd st of
        Use_After_Free \<Rightarrow> Use_After_Free
      | Ok st \<Rightarrow>
          (case read_blocks cbs (full_blocks content) st of
             Use_After_Free \<Rightarrow> Use_After_Free
           | Ok st \<Rightarrow> onRead cbs (Inr err) st))"

lemma read_blocks_keep:
  "\<exists>st'. read_blocks cbs ds st = Ok st' \<and> alive st' = alive st \<and> client st' = client st"
proof (induction ds arbitrary: st)
  case (Cons d ds)
  have "\<exists>st1. onRead cbs (Inl d) st = Ok st1 \<and> alive st1 = alive st \<and> client st1 = client st"
    by (auto simp: onRead_def Let_def fr_io_def)
  then obtain st1 where "onRead cbs (Inl d) st = Ok st1" "alive st1 = alive st" "client st1 = client st" by blast
  with Cons.IH [of st1] show ?case by simp
qed simp

text \<open>Wherever the read fails, the error callback gets the client as it was when the file was asked for.\<close>

lemma broken_read_client:
  assumes "0 \<le> fd" "err < 0" "m_onError cbs = Some f"
  shows "\<exists>r st'. broken_read cbs fd content err (fileRead path (new_reader s)) = Ok st'
    \<and> alive st' = (\<not> fst (f r s)) \<and> client st' = snd (f r s) \<and> m_result r = read_failed"
proof -
  obtain st where st: "onOpen cbs fd (fileRead path (new_reader s)) = Ok st" "alive st" "client st = s"
    using assms(1) by (simp add: onOpen_def FILE_ON_ERROR_def touch_def fileRead_def new_reader_def fr_io_def Let_def)
  obtain st1 where st1: "read_blocks cbs (full_blocks content) st = Ok st1" "alive st1" "client st1 = s"
    using read_blocks_keep [of cbs "full_blocks content" st] st by auto
  let ?r = "(self st1)\<lparr>m_result := read_failed\<rparr>"
  obtain d s' where "f ?r s = (d, s')" by (cases "f ?r s")
  with st st1 assms show ?thesis
    by (intro exI [of _ ?r]) (simp add: broken_read_def onRead_def FILE_ON_ERROR_def FILE_CALLBACK_def fr_io_def)
qed

lemma read_file_buffers:
  assumes "0 \<le> fd"
  obtains r where "buffered r = content" "getReadByte r = length content"
    "\<And>close_res. 0 \<le> close_res \<Longrightarrow>
       read_file cbs path fd content close_res (new_reader s) =
         Ok (FILE_CALLBACK (m_onClose cbs) Cb_Close
           \<lparr>self = r, alive = True, client = s,
            rio = Fs_Open path # map (Fs_Read fd) [0..<Suc (length content div DEFAULT_FILE_READER_BUFF_SIZE)] @ [Fs_Close fd]\<rparr>)"
proof -
  let ?r0 = "FileReader_init\<lparr>m_path := path, m_buffUsed := 0, m_readByte := 0\<rparr>"
  let ?st = "\<lparr>self = ?r0\<lparr>m_buffUsed := 0, m_fd := fd\<rparr>, alive = True, client = s, rio = [Fs_Open path, Fs_Read fd 0]\<rparr>"
  have "reading (self ?st)"
    unfolding reader_state.simps by (rule reading_init) (simp_all add: FileReader_init_def)
  from run_reads_complete [OF this, of cbs content] obtain st' where
    "run_reads cbs content ?st = Ok st'" "buffered (self st') = content" "m_readByte (self st') = length content"
    "alive st'" "client st' = s"
    "rio st' = Fs_Open path # map (Fs_Read fd) [0..<Suc (length content div DEFAULT_FILE_READER_BUFF_SIZE)] @ [Fs_Close fd]"
    by (auto simp: buffered_def appendToBuff_def FileReader_init_def upt_conv_Cons simp del: upt_Suc)
  moreover have "onOpen cbs fd (fileRead path (new_reader s)) = Ok ?st"
    using assms by (simp add: onOpen_def FILE_ON_ERROR_def touch_def fileRead_def new_reader_def fr_io_def
        Let_def FileReader_init_def)
  moreover from calculation obtain r where "st' = \<lparr>self = r, alive = True, client = s,
      rio = Fs_Open path # map (Fs_Read fd) [0..<Suc (length content div DEFAULT_FILE_READER_BUFF_SIZE)] @ [Fs_Close fd]\<rparr>"
    by (cases st') simp
  ultimately show thesis
    by (intro that [of r])
       (simp_all add: getReadByte_def read_file_def finish_read_def onClose_def FILE_ON_ERROR_def touch_def del: upt_Suc)
qed

text \<open>
  C16. Reading a file to its end: for every file, when the open and the close succeed, the reader
  submits one read per full buffer and one more, then exactly one close of the same descriptor, and
  then runs the close callback once, with buffers whose used parts are, in order, exactly the bytes
  of the file and with \<open>getReadByte()\<close> their number. A file whose size is a multiple of the buffer
  size ends with an empty buffer.
\<close>

theorem file_read_complete:
  assumes "0 \<le> fd" "0 \<le> close_res" "m_onClose cbs = Some f"
  shows "\<exists>r. buffered r = content \<and> getReadByte r = length content
    \<and> read_file cbs path fd content close_res (new_reader s) =
        Ok \<lparr>self = r, alive = (\<not> fst (f r s)), client = snd (f r s),
            rio = Fs_Open path # map (Fs_Read fd) [0..<Suc (length content div DEFAULT_FILE_READER_BUFF_SIZE)]
                  @ [Fs_Close fd, Cb_Close]\<rparr>"
proof -
  let ?io = "Fs_Open path # map (Fs_Read fd) [0..<Suc (length content div DEFAULT_FILE_READER_BUFF_SIZE)] @ [Fs_Close fd]"
  obtain r where r: "buffered r = content" "getReadByte r = length content"
    "read_file cbs path fd content close_res (new_reader s) =
       Ok (FILE_CALLBACK (m_onClose cbs) Cb_Close \<lparr>self = r, alive = True, client = s, rio = ?io\<rparr>)"
    using read_file_buffers [OF assms(1), of content cbs path s] assms(2) by metis
  obtain d s' where "f r s = (d, s')" by (cases "f r s")
  with r assms(3) show ?thesis
    by (intro exI [of _ r]) (simp add: FILE_CALLBACK_def fr_io_def del: upt_Suc)
qed

text \<open>A file of 1024 bytes, kept by the close callback as the buffered bytes.\<close>

theorem file_read_complete_witness:
  "\<exists>r. buffered r = replicate 1024 7 \<and> getReadByte r = 1024
    \<and> read_file \<lparr>m_onClose = Some (\<lambda>r s. (False, buffered r)), m_onError = None\<rparr> [65] 3 (replicate 1024 7) 0 (new_reader []) =
        Ok \<lparr>self = r, alive = True, client = replicate 1024 7,
            rio = [Fs_Open [65], Fs_Read 3 0, Fs_Read 3 1, Fs_Close 3, Cb_Close]\<rparr>"
  using file_read_complete [of 3 0 "\<lparr>m_onClose = Some (\<lambda>r s. (False, buffered r)), m_onError = None\<rparr>"
      "\<lambda>r s. (False, buffered r)" "replicate 1024 7" "[65]" "[]"]
  by (auto simp: DEFAULT_FILE_READER_BUFF_SIZE_def)

text \<open>
  C28. The error paths, for an error callback that deletes the reader (the one \<open>httpResp::initReader\<close>
  installs does): after a failed open and after a failed close the code goes on to use the deleted
  reader, reading \<open>req->result\<close> and running \<open>m_onClose\<close>; after a failed read it does not, but it
  never submits the close of the descriptor it opened.
\<close>

theorem reader_error_paths:
  assumes "m_onError cbs = Some f" "\<And>r s. fst (f r s)" "res < 0"
  shows "onOpen cbs res st = Use_After_Free \<and> onClose cbs res st = Use_After_Free
    \<and> (\<exists>st'. onRead cbs (Inr res) st = Ok st' \<and> \<not> alive st' \<and> rio st' = rio st @ [Cb_Error read_failed])"
proof -
  have e: "\<not> alive (FILE_ON_ERROR cbs res err st) \<and> rio (FILE_ON_ERROR cbs res err st) = rio st @ [Cb_Error err]" for err
  proof -
    let ?r = "(self st)\<lparr>m_result := err\<rparr>"
    obtain d s where "f ?r (client st) = (d, s)" by (cases "f ?r (client st)")
    with assms(2) [of ?r "client st"] show ?thesis
      using assms(1,3) by (simp add: FILE_ON_ERROR_def FILE_CALLBACK_def fr_io_def)
  qed
  then show ?thesis by (auto simp: onOpen_def onClose_def onRead_def touch_def)
qed

text \<open>The reader of \<open>sendFile\<close>, with its error callback, and a file that does not exist (\<open>UV_ENOENT\<close>).\<close>

theorem reader_error_paths_witness:
  "onOpen \<lparr>m_onClose = None, m_onError = Some (\<lambda>r s. (True, s + 1))\<rparr> (- 2) (fileRead [65] (new_reader (0 :: nat))) = Use_After_Free
   \<and> onClose \<lparr>m_onClose = None, m_onError = Some (\<lambda>r s. (True, s + 1))\<rparr> (- 2) (fileRead [65] (new_reader (0 :: nat))) = Use_After_Free"
  using reader_error_paths [of "\<lparr>m_onClose = None, m_onError = Some (\<lambda>r s. (True, s + 1))\<rparr>" "\<lambda>r s. (True, s + 1)"
      "- 2" "fileRead [65] (new_reader (0 :: nat))"] by simp

end
