(* ===== verification/Http_Resp.thy ===== *)
theory Http_Resp
  imports File_Reader Hp_Types "HOL-Library.AList"
begin

text \<open>
  \<open>httpResp\<close> (\<open>src/src/core/httpResp.h\<close>, \<open>httpResp.cpp\<close>): the response a handler fills and sends. A
  response is written by one \<open>uv_write\<close> of a head and the body, or of a head and the buffers of a
  \<open>FileReader\<close>; the writes are recorded in order. \<open>m_headers\<close> is an \<open>unordered_map\<close>: an association list,
  and \<open>iter\<close> the order in which a range-for visits it, which the standard leaves open.
\<close>

section \<open>Status and type tables\<close>

datatype httpStatus = SWITCHING_PROTOCOLS | OK | CREATED | ACCEPTED | NO_CONTENT | MOVED_PERMANENTLY
  | FOUND | NOT_MODIFIED | BAD_REQUEST | UNAUTHORIZED | FORBIDDEN | NOT_FOUND
  | INTERNAL_SERVER_ERROR | NOT_IMPLEMENTED | BAD_GATEWAY | SERVICE_UNAVAILABLE | GATEWAY_TIMEOUT

primrec httpStatus_str :: "httpStatus \<Rightarrow> bytes" where
  "httpStatus_str SWITCHING_PROTOCOLS = bstr ''101 Web Socket Protocol Handshake''"
| "httpStatus_str OK = bstr ''200 OK''"
| "httpStatus_str CREATED = bstr ''201 Created''"
| "httpStatus_str ACCEPTED = bstr ''202 Accepted''"
| "httpStatus_str NO_CONTENT = bstr ''204 No Content''"
| "httpStatus_str MOVED_PERMANENTLY = bstr ''301 Moved Permanently''"
| "httpStatus_str FOUND = bstr ''302 Found''"
| "httpStatus_str NOT_MODIFIED = bstr ''304 Not Modified''"
| "httpStatus_str BAD_REQUEST = bstr ''400 Bad Request''"
| "httpStatus_str UNAUTHORIZED = bstr ''401 Unauthorized''"
| "httpStatus_str FORBIDDEN = bstr ''403 Forbidden''"
| "httpStatus_str NOT_FOUND = bstr ''404 Not Found''"
| "httpStatus_str INTERNAL_SERVER_ERROR = bstr ''500 Internal Server Error''"
| "httpStatus_str NOT_IMPLEMENTED = bstr ''501 Not Implemented''"
| "httpStatus_str BAD_GATEWAY = bstr ''502 Bad Gateway''"
| "httpStatus_str SERVICE_UNAVAILABLE = bstr ''503 Service Unavailable''"
| "httpStatus_str GATEWAY_TIMEOUT = bstr ''504 Gateway Timeout''"

definition mimeTypes :: "(bytes \<times> bytes) list" where
  "mimeTypes = map (\<lambda>(e, t). (bstr e, bstr t))
    [(''.html'', ''text/html''), (''.htm'', ''text/html''), (''.css'', ''text/css''),
     (''.js'', ''application/javascript''), (''.json'', ''application/json''),
     (''.txt'', ''text/plain''), (''.map'', ''application/json''), (''.ttf'', ''font/ttf''),
     (''.woff'', ''font/woff''), (''.woff2'', ''font/woff2''),
     (''.eot'', ''application/vnd.ms-fontobject''), (''.otf'', ''font/otf''), (''.png'', ''image/png''),
     (''.jpg'', ''image/jpeg''), (''.jpeg'', ''image/jpeg''), (''.gif'', ''image/gif''),
     (''.svg'', ''image/svg+xml''), (''.ico'', ''image/x-icon''), (''.webp'', ''image/webp''),
     (''.mp3'', ''audio/mpeg''), (''.mp4'', ''video/mp4'')]"

text \<open>
  \<open>fs::path(path).extension()\<close>: the file name's part from its last dot on, empty when there is no dot,
  when the only dot is the first character, and for the names \<open>.\<close> and \<open>..\<close>.
\<close>

definition filename :: "bytes \<Rightarrow> bytes" where
  "filename path = rev (takeWhile (\<lambda>c. c \<noteq> 47) (rev path))"

definition extension :: "bytes \<Rightarrow> bytes" where
  "extension path =
     (let n = filename path; suf = rev (takeWhile (\<lambda>c. c \<noteq> 46) (rev n)); stem = length n - length suf
      in if n = [46] \<or> n = [46, 46] \<or> length suf = length n \<or> stem = 1 then [] else 46 # suf)"

definition getMimeType :: "bytes \<Rightarrow> bytes" where
  "getMimeType path =
     (case map_of mimeTypes (extension path) of
        Some t \<Rightarrow> t
      | None \<Rightarrow> bstr ''application/octet-stream'')"

text \<open>\<open>std::to_string\<close> of a \<open>size_t\<close>.\<close>

fun to_string :: "nat \<Rightarrow> bytes" where
  "to_string n = (if n < 10 then [48 + of_nat n] else to_string (n div 10) @ [48 + of_nat (n mod 10)])"

declare to_string.simps [simp del]

section \<open>The response\<close>

datatype SendType = Send_NONE | Send_STR | Send_JSON | Send_FILE

record httpResp =
  m_body :: bytes
  m_status :: httpStatus
  m_headers :: "(bytes \<times> bytes) list"
  m_filePath :: bytes
  m_sendType :: SendType
  m_head :: bytes
  m_buffers :: "uv_buf_t list"
  writes :: "uv_buf_t list list"

definition httpResp_init :: httpResp where
  "httpResp_init = \<lparr>m_body = [], m_status = OK, m_headers = [], m_filePath = [], m_sendType = Send_NONE,
     m_head = [], m_buffers = [], writes = []\<rparr>"

type_synonym header_iter = "(bytes \<times> bytes) list \<Rightarrow> (bytes \<times> bytes) list"

abbreviation CRLF :: bytes where "CRLF \<equiv> [13, 10]"

definition setHeader :: "bytes \<Rightarrow> bytes \<Rightarrow> httpResp \<Rightarrow> httpResp" where
  "setHeader k v resp = resp\<lparr>m_headers := AList.update k v (m_headers resp)\<rparr>"

definition setStatus :: "httpStatus \<Rightarrow> httpResp \<Rightarrow> httpResp" where
  "setStatus s resp = resp\<lparr>m_status := s\<rparr>"

definition uv_buf_init :: "bytes \<Rightarrow> uv_buf_t" where
  "uv_buf_init s = \<lparr>base = s, blen = length s\<rparr>"

definition header_line :: "bytes \<times> bytes \<Rightarrow> bytes" where
  "header_line h = fst h @ bstr '': '' @ snd h @ CRLF"

text \<open>\<open>send()\<close>, with the state of the reader \<open>m_reader\<close> points to.\<close>

definition send :: "header_iter \<Rightarrow> FileReader \<Rightarrow> httpResp \<Rightarrow> httpResp" where
  "send iter reader resp =
     (let head = bstr ''HTTP/1.1 '' @ httpStatus_str (m_status resp) @ CRLF;
          head = fold (\<lambda>h acc. acc @ header_line h) (iter (m_headers resp)) head;
          n = (if m_sendType resp = Send_FILE then getReadByte reader else length (m_body resp));
          head = head @ bstr ''Content-Length: '' @ to_string n @ CRLF @ CRLF;
          bufs = [uv_buf_init head];
          bufs = (if m_sendType resp = Send_FILE then appendToBuff reader bufs
                  else bufs @ [uv_buf_init (m_body resp)])
      in resp\<lparr>m_head := head, m_buffers := bufs, writes := writes resp @ [bufs]\<rparr>)"

definition sendStr :: "header_iter \<Rightarrow> FileReader \<Rightarrow> bytes \<Rightarrow> httpResp \<Rightarrow> httpResp" where
  "sendStr iter reader str resp =
     send iter reader
       ((setHeader (bstr ''Content-Type'') (bstr ''text/plain'') (resp\<lparr>m_body := str\<rparr>))\<lparr>m_sendType := Send_STR\<rparr>)"

text \<open>\<open>sendJson\<close>, given the text \<open>json.stringify()\<close> produces.\<close>

definition sendJson :: "header_iter \<Rightarrow> FileReader \<Rightarrow> bytes \<Rightarrow> httpResp \<Rightarrow> httpResp" where
  "sendJson iter reader json resp =
     send iter reader
       ((setHeader (bstr ''Content-Type'') (bstr ''application/json'') (resp\<lparr>m_body := json\<rparr>))\<lparr>m_sendType := Send_JSON\<rparr>)"

definition sendErr :: "header_iter \<Rightarrow> FileReader \<Rightarrow> httpResp \<Rightarrow> httpResp" where
  "sendErr iter reader resp =
     sendStr iter reader (httpStatus_str INTERNAL_SERVER_ERROR)
       (setStatus INTERNAL_SERVER_ERROR (resp\<lparr>m_body := [], m_headers := []\<rparr>))"

definition clearContent :: "httpResp \<Rightarrow> httpResp" where
  "clearContent resp = resp\<lparr>m_body := [], m_headers := [], m_status := OK, m_sendType := Send_NONE, m_filePath := []\<rparr>"

text \<open>
  \<open>initReader\<close>: the callbacks on the reader. The error callback answers with an error and deletes the
  reader, the close callback sends.
\<close>

definition initReader :: "header_iter \<Rightarrow> httpResp reader_callbacks" where
  "initReader iter =
     \<lparr>m_onClose = Some (\<lambda>reader resp. (False, send iter reader resp)),
      m_onError = Some (\<lambda>reader resp. (True, sendErr iter reader resp))\<rparr>"

definition sendFile :: "bytes \<Rightarrow> httpResp \<Rightarrow> httpResp reader_state" where
  "sendFile path resp =
     fileRead path
       (new_reader ((resp\<lparr>m_headers := AList.update (bstr ''Content-Type'') (getMimeType path) (m_headers resp)\<rparr>)
                      \<lparr>m_filePath := path, m_sendType := Send_FILE\<rparr>))"

text \<open>
  \<open>onWriteEnd\<close>: the reader is deleted after a file, and the \<open>onSent\<close> callback runs whatever the status
  of the write. The result says whether \<open>m_reader\<close> was deleted.
\<close>

definition onWriteEnd :: "(httpResp \<Rightarrow> 's \<Rightarrow> 's) option \<Rightarrow> int \<Rightarrow> httpResp \<Rightarrow> 's \<Rightarrow> bool \<times> 's" where
  "onWriteEnd m_onSent status resp s =
     (m_sendType resp = Send_FILE, case m_onSent of None \<Rightarrow> s | Some f \<Rightarrow> f resp s)"

section \<open>What a client reads\<close>

text \<open>The bytes of a write.\<close>

definition wire :: "uv_buf_t list \<Rightarrow> bytes" where
  "wire bufs = concat (map buf_data bufs)"

text \<open>
  A reader of responses, as RFC 9112 frames them: lines end in CRLF, an empty line ends the head, and
  \<open>Content-Length\<close> bytes follow. It gives the status line, the header fields, the body, and the rest.
\<close>

fun read_line :: "bytes \<Rightarrow> (bytes \<times> bytes) option" where
  "read_line (a # b # xs) =
     (if a = 13 \<and> b = 10 then Some ([], xs)
      else case read_line (b # xs) of None \<Rightarrow> None | Some (l, r) \<Rightarrow> Some (a # l, r))"
| "read_line _ = None"

lemma read_line_length: "read_line xs = Some (l, r) \<Longrightarrow> length r < length xs"
  by (induction xs arbitrary: l rule: read_line.induct) (auto split: if_splits option.splits)

fun parse_field :: "bytes \<Rightarrow> bytes \<times> bytes" where
  "parse_field [] = ([], [])"
| "parse_field [c] = ([c], [])"
| "parse_field (a # b # xs) =
     (if a = 58 \<and> b = 32 then ([], xs) else case parse_field (b # xs) of (k, v) \<Rightarrow> (a # k, v))"

function read_fields :: "bytes \<Rightarrow> ((bytes \<times> bytes) list \<times> bytes) option" where
  "read_fields xs =
     (case read_line xs of
        None \<Rightarrow> None
      | Some (l, r) \<Rightarrow>
          if l = [] then Some ([], r)
          else case read_fields r of None \<Rightarrow> None | Some (fs, r) \<Rightarrow> Some (parse_field l # fs, r))"
  by pat_completeness auto
termination
  by (relation "measure length") (auto dest: read_line_length)

declare read_fields.simps [simp del]

definition parse_dec :: "bytes \<Rightarrow> nat" where
  "parse_dec ds = foldl (\<lambda>n d. n * 10 + unat (d - 48)) 0 ds"

definition read_response :: "bytes \<Rightarrow> (bytes \<times> (bytes \<times> bytes) list \<times> bytes \<times> bytes) option" where
  "read_response xs =
     (case read_line xs of
        None \<Rightarrow> None
      | Some (status, r) \<Rightarrow>
          (case read_fields r of
             None \<Rightarrow> None
           | Some (fs, r) \<Rightarrow>
               (case map_of fs (bstr ''Content-Length'') of
                  None \<Rightarrow> None
                | Some v \<Rightarrow> Some (status, fs, take (parse_dec v) r, drop (parse_dec v) r))))"

section \<open>Responses are framed correctly\<close>

definition clean :: "bytes \<Rightarrow> bool" where
  "clean xs \<longleftrightarrow> 13 \<notin> set xs"

definition field_ok :: "bytes \<times> bytes \<Rightarrow> bool" where
  "field_ok kv \<longleftrightarrow> clean (fst kv) \<and> clean (snd kv) \<and> 58 \<notin> set (fst kv)"

lemma to_string_digits: "set (to_string n) \<subseteq> {48..57}"
proof (induction n rule: to_string.induct)
  case (1 n)
  have d: "(48 + of_nat k :: byte) \<in> {48..57}" if "k < 10" for k
  proof -
    have "k \<in> {0, 1, 2, 3, 4, 5, 6, 7, 8, 9}" using that by auto
    then show ?thesis by auto
  qed
  show ?case
  proof (cases "n < 10")
    case True
    then show ?thesis by (simp add: to_string.simps [of n] d del: atLeastAtMost_iff)
  next
    case False
    then show ?thesis
      using 1 d [of "n mod 10"] by (simp add: to_string.simps [of n] del: atLeastAtMost_iff)
  qed
qed

lemma parse_dec_to_string: "parse_dec (to_string n) = n"
proof (induction n rule: to_string.induct)
  case (1 n)
  have d: "unat ((48 + of_nat k :: byte) - 48) = k" if "k < 10" for k
    using that by (simp add: unat_of_nat take_bit_nat_eq_self)
  show ?case
  proof (cases "n < 10")
    case True
    then show ?thesis using d [of n] by (simp add: to_string.simps [of n] parse_dec_def)
  next
    case False
    then show ?thesis
      using 1 d [of "n mod 10"] by (simp add: to_string.simps [of n] parse_dec_def)
  qed
qed

lemma read_line_clean: "clean l \<Longrightarrow> read_line (l @ 13 # 10 # r) = Some (l, r)"
proof (induction l)
  case (Cons a l)
  then obtain b xs where "l @ 13 # 10 # r = b # xs" by (cases l) auto
  with Cons show ?case by (auto simp: clean_def)
qed simp

lemma parse_field_line: "58 \<notin> set k \<Longrightarrow> parse_field (k @ 58 # 32 # v) = (k, v)"
proof (induction k)
  case (Cons a k)
  then obtain b xs where "k @ 58 # 32 # v = b # xs" by (cases k) auto
  with Cons show ?case by auto
qed simp

lemma read_fields_lines:
  assumes "\<forall>kv \<in> set hs. field_ok kv"
  shows "read_fields (concat (map header_line hs) @ 13 # 10 # r) = Some (hs, r)"
  using assms
proof (induction hs)
  case Nil
  show ?case by (simp add: read_fields.simps)
next
  case (Cons h hs)
  obtain k v where h: "h = (k, v)" by (cases h)
  have "clean (k @ 58 # 32 # v)" using Cons.prems by (auto simp: h field_ok_def clean_def)
  from read_line_clean [OF this] have "read_line (concat (map header_line (h # hs)) @ 13 # 10 # r)
      = Some (k @ 58 # 32 # v, concat (map header_line hs) @ 13 # 10 # r)"
    by (simp add: h header_line_def)
  with Cons show ?case
    by (subst read_fields.simps) (simp add: h field_ok_def parse_field_line)
qed

abbreviation CL :: bytes where "CL \<equiv> bstr ''Content-Length''"

definition response_text :: "httpStatus \<Rightarrow> (bytes \<times> bytes) list \<Rightarrow> bytes \<Rightarrow> bytes" where
  "response_text s hs b =
     bstr ''HTTP/1.1 '' @ httpStatus_str s @ CRLF @ concat (map header_line (hs @ [(CL, to_string (length b))])) @ CRLF @ b"

lemma clean_status: "clean (bstr ''HTTP/1.1 '' @ httpStatus_str s)"
  by (cases s) (simp_all add: clean_def)

lemma read_response_text:
  assumes "\<forall>kv \<in> set hs. field_ok kv" "CL \<notin> fst ` set hs"
  shows "read_response (response_text s hs b @ rest) =
    Some (bstr ''HTTP/1.1 '' @ httpStatus_str s, hs @ [(CL, to_string (length b))], b, rest)"
proof -
  let ?hs = "hs @ [(CL, to_string (length b))]"
  have "13 \<notin> set (to_string (length b))" using to_string_digits [of "length b"] by auto
  then have "\<forall>kv \<in> set ?hs. field_ok kv" using assms(1) by (simp add: field_ok_def clean_def)
  then have f: "read_fields (concat (map header_line ?hs) @ 13 # 10 # b @ rest) = Some (?hs, b @ rest)"
    by (rule read_fields_lines)
  have m: "map_of ?hs CL = Some (to_string (length b))"
    using assms(2) by (simp add: map_add_def map_of_eq_None_iff [THEN iffD2])
  have l: "read_line (response_text s hs b @ rest) =
      Some (bstr ''HTTP/1.1 '' @ httpStatus_str s, concat (map header_line ?hs) @ 13 # 10 # b @ rest)"
    using read_line_clean [OF clean_status [of s], of "concat (map header_line ?hs) @ 13 # 10 # b @ rest"]
    by (simp add: response_text_def)
  show ?thesis unfolding read_response_def l option.case prod.case f m
    by (simp add: parse_dec_to_string)
qed

definition head_text :: "httpStatus \<Rightarrow> (bytes \<times> bytes) list \<Rightarrow> nat \<Rightarrow> bytes" where
  "head_text s hs n =
     bstr ''HTTP/1.1 '' @ httpStatus_str s @ CRLF @ concat (map header_line hs) @ header_line (CL, to_string n) @ CRLF"

lemma response_text_head: "response_text s hs b = head_text s hs (length b) @ b"
  by (simp only: response_text_def head_text_def map_append concat_append list.map concat.simps append_assoc append_Nil2)

lemma writes_send:
  "writes (send iter rd resp) = writes resp @
     [if m_sendType resp = Send_FILE
      then appendToBuff rd [uv_buf_init (head_text (m_status resp) (iter (m_headers resp)) (getReadByte rd))]
      else [uv_buf_init (head_text (m_status resp) (iter (m_headers resp)) (length (m_body resp))), uv_buf_init (m_body resp)]]"
proof -
  have "bstr ''Content-Length: '' @ to_string n @ CRLF @ CRLF = header_line (CL, to_string n) @ CRLF" for n
    by (simp add: header_line_def)
  then show ?thesis
    unfolding send_def Let_def fold_append_concat head_text_def by (simp add: header_line_def)
qed

lemma wire_send:
  assumes "m_sendType resp = Send_FILE \<Longrightarrow> getReadByte rd = length (buffered rd)"
  shows "\<exists>w. writes (send iter rd resp) = writes resp @ [w]
    \<and> wire w = response_text (m_status resp) (iter (m_headers resp))
        (if m_sendType resp = Send_FILE then buffered rd else m_body resp)"
proof -
  have "wire (appendToBuff rd [uv_buf_init h]) = h @ buffered rd" "wire [uv_buf_init h, uv_buf_init b] = h @ b" for h b
    unfolding wire_def buffered_def appendToBuff_def by (simp_all add: buf_data_def uv_buf_init_def)
  then show ?thesis
    using assms unfolding writes_send response_text_head
    by (cases "m_sendType resp = Send_FILE") simp_all
qed

lemma set_alist_update: "set (AList.update k v al) \<subseteq> insert (k, v) (set al)"
  by (induction al) auto

definition headers_ok :: "(bytes \<times> bytes) list \<Rightarrow> bool" where
  "headers_ok hs \<longleftrightarrow> (\<forall>kv \<in> set hs. field_ok kv \<and> fst kv \<noteq> CL)"

lemma headers_ok_update:
  assumes "headers_ok hs" "field_ok (k, v)" "k \<noteq> CL"
  shows "headers_ok (AList.update k v hs)"
  unfolding headers_ok_def
proof
  fix kv
  assume "kv \<in> set (AList.update k v hs)"
  then have "kv = (k, v) \<or> kv \<in> set hs" using set_alist_update [of k v hs] by blast
  then show "field_ok kv \<and> fst kv \<noteq> CL" using assms unfolding headers_ok_def by (elim disjE) simp_all
qed

lemma read_response_headers_ok:
  assumes "headers_ok hs" "set (iter hs) = set hs"
  shows "read_response (response_text s (iter hs) b @ rest) =
    Some (bstr ''HTTP/1.1 '' @ httpStatus_str s, iter hs @ [(CL, to_string (length b))], b, rest)"
  using assms by (intro read_response_text) (auto simp: headers_ok_def)

lemma sendStr_reads:
  assumes "headers_ok (m_headers resp)" "\<And>hs. set (iter hs) = set hs"
  shows "\<exists>w. writes (sendStr iter rd str resp) = writes resp @ [w]
    \<and> read_response (wire w @ rest) =
        Some (bstr ''HTTP/1.1 '' @ httpStatus_str (m_status resp),
              iter (AList.update (bstr ''Content-Type'') (bstr ''text/plain'') (m_headers resp))
                @ [(CL, to_string (length str))], str, rest)"
proof -
  let ?resp = "(setHeader (bstr ''Content-Type'') (bstr ''text/plain'') (resp\<lparr>m_body := str\<rparr>))\<lparr>m_sendType := Send_STR\<rparr>"
  have "headers_ok (AList.update (bstr ''Content-Type'') (bstr ''text/plain'') (m_headers resp))"
    by (rule headers_ok_update [OF assms(1)]) (simp_all add: field_ok_def clean_def)
  from read_response_headers_ok [where iter = iter, OF this assms(2)] wire_send [of ?resp rd iter] show ?thesis
    by (auto simp: sendStr_def setHeader_def)
qed

text \<open>
  C15. What \<open>sendStr\<close> writes, a client reads back: one write, whose bytes are a response from which a
  reader of HTTP responses recovers the status line, the headers of the response with the content type
  and length added, exactly the string as the body, and the bytes of whatever follows on the
  connection as the rest. The hypotheses are that the headers the handler set contain no carriage
  return and no colon in a name and do not include \<open>Content-Length\<close>, which the code does not check,
  and that iterating the header map visits its entries.
\<close>

theorem sendStr_roundtrip:
  assumes "headers_ok (m_headers resp)" "\<And>hs. set (iter hs) = set hs"
  shows "\<exists>w. writes (sendStr iter rd str resp) = writes resp @ [w]
    \<and> read_response (wire w @ rest) =
        Some (bstr ''HTTP/1.1 '' @ httpStatus_str (m_status resp),
              iter (AList.update (bstr ''Content-Type'') (bstr ''text/plain'') (m_headers resp))
                @ [(CL, to_string (length str))], str, rest)"
  using assms by (rule sendStr_reads)

theorem sendStr_roundtrip_witness:
  "\<exists>w. writes (sendStr rev FileReader_init (bstr ''404 Not Found'') (setStatus NOT_FOUND httpResp_init)) = [w]
    \<and> read_response (wire w @ bstr ''HTTP'') =
        Some (bstr ''HTTP/1.1 404 Not Found'',
              [(bstr ''Content-Type'', bstr ''text/plain''), (CL, bstr ''13'')], bstr ''404 Not Found'', bstr ''HTTP'')"
  using sendStr_roundtrip [of "setStatus NOT_FOUND httpResp_init" rev FileReader_init "bstr ''404 Not Found''" "bstr ''HTTP''"]
  by (simp add: setStatus_def httpResp_init_def headers_ok_def to_string.simps)

text \<open>What \<open>sendFile\<close> writes, through the reader.\<close>

lemma sendFile_writes:
  assumes "0 \<le> fd" "0 \<le> close_res"
  shows "\<exists>st w. finish_read (initReader iter) fd content close_res (sendFile path resp) = Ok st
    \<and> alive st \<and> writes (client st) = writes resp @ [w]
    \<and> wire w = response_text (m_status resp)
        (iter (AList.update (bstr ''Content-Type'') (getMimeType path) (m_headers resp))) content"
proof -
  let ?resp = "(resp\<lparr>m_headers := AList.update (bstr ''Content-Type'') (getMimeType path) (m_headers resp)\<rparr>)
                      \<lparr>m_filePath := path, m_sendType := Send_FILE\<rparr>"
  obtain r io where r: "buffered r = content" "getReadByte r = length content"
    "read_file (initReader iter) path fd content close_res (new_reader ?resp) =
       Ok (FILE_CALLBACK (m_onClose (initReader iter)) Cb_Close \<lparr>self = r, alive = True, client = ?resp, rio = io\<rparr>)"
    using read_file_buffers [OF assms(1), of content "initReader iter" path ?resp] assms(2) by metis
  obtain w where "writes (send iter r ?resp) = writes resp @ [w]" "wire w = response_text (m_status resp)
        (iter (AList.update (bstr ''Content-Type'') (getMimeType path) (m_headers resp))) content"
    using wire_send [of ?resp r iter] r by auto
  with r show ?thesis by (auto simp: sendFile_def read_file_def FILE_CALLBACK_def initReader_def fr_io_def)
qed

text \<open>
  C17. The same for \<open>sendFile\<close>, through the reader: when the open and the close succeed, the response
  is written once, when the reader closes, with the file's type and with exactly the bytes of the file
  as the body, whatever its size.
\<close>

theorem sendFile_roundtrip:
  assumes "headers_ok (m_headers resp)" "\<And>hs. set (iter hs) = set hs" "0 \<le> fd" "0 \<le> close_res"
  shows "\<exists>st w. finish_read (initReader iter) fd content close_res (sendFile path resp) = Ok st
    \<and> alive st \<and> writes (client st) = writes resp @ [w]
    \<and> read_response (wire w @ rest) =
        Some (bstr ''HTTP/1.1 '' @ httpStatus_str (m_status resp),
              iter (AList.update (bstr ''Content-Type'') (getMimeType path) (m_headers resp))
                @ [(CL, to_string (length content))], content, rest)"
proof -
  have "field_ok (bstr ''Content-Type'', getMimeType path)"
  proof -
    have "\<forall>kv \<in> set mimeTypes. clean (snd kv)" by (simp add: mimeTypes_def clean_def)
    then have "clean t" if "map_of mimeTypes (extension path) = Some t" for t
      using map_of_SomeD [OF that] by fastforce
    then have "clean (getMimeType path)"
      by (simp add: getMimeType_def split: option.split) (simp add: clean_def)
    then show ?thesis by (simp add: field_ok_def clean_def)
  qed
  then have "headers_ok (AList.update (bstr ''Content-Type'') (getMimeType path) (m_headers resp))"
    by (rule headers_ok_update [OF assms(1)]) simp
  from read_response_headers_ok [where iter = iter, OF this assms(2)] sendFile_writes [OF assms(3,4), of iter content path resp]
  show ?thesis by auto
qed

theorem sendFile_roundtrip_witness:
  "\<exists>st w. finish_read (initReader id) 5 (bstr ''<p>hi</p>'') 0 (sendFile (bstr ''/srv/index.html'') httpResp_init) = Ok st
    \<and> alive st \<and> writes (client st) = [w]
    \<and> read_response (wire w) = Some (bstr ''HTTP/1.1 200 OK'',
         [(bstr ''Content-Type'', bstr ''text/html''), (CL, bstr ''9'')], bstr ''<p>hi</p>'', [])"
proof -
  have "getMimeType (bstr ''/srv/index.html'') = bstr ''text/html''" by code_simp
  then show ?thesis
    using sendFile_roundtrip [of httpResp_init id 5 0 "bstr ''<p>hi</p>''" "bstr ''/srv/index.html''" "[]"]
    by (simp add: httpResp_init_def headers_ok_def to_string.simps)
qed

end
