(* ===== verification/Recv_Buffer.thy ===== *)
theory Recv_Buffer
  imports Prelude "HOL-Library.Monad_Syntax"
begin

text \<open>
  The receive buffers of the two session classes. \<open>HttpServer::Session::recv_alloc_cb\<close> and
  \<open>WsSession::recv_alloc_cb\<close> contain the same loop, which triples the buffer until it holds what
  libuv asks for; it does not stop when the current length is 0, so it is modelled as a partial
  function whose value is \<open>None\<close> when the loop never ends.
\<close>

unbundle bit_operations_syntax

definition HTTP_DEFAULT_RECV_BUF_SIZE :: size_t where
  "HTTP_DEFAULT_RECV_BUF_SIZE = push_bit 16 1"

partial_function (option) grow_buf :: "size_t \<Rightarrow> size_t \<Rightarrow> size_t option" where
  "grow_buf bufSize suggested =
     (if bufSize < suggested
      then grow_buf (bufSize + push_bit 1 bufSize) suggested
      else Some bufSize)"

text \<open>
  The allocation callback on the length of \<open>m_recvBuf\<close>: the new length, which is also the length
  of the buffer handed to libuv.
\<close>

definition recv_alloc_cb :: "size_t \<Rightarrow> size_t \<Rightarrow> size_t option" where
  "recv_alloc_cb len suggested = (if len < suggested then grow_buf len suggested else Some len)"

text \<open>\<open>transferBufferToWsSession\<close>: the target takes the buffer, the HTTP session keeps none.\<close>

definition transferBufferToWsSession :: "size_t \<Rightarrow> size_t \<times> size_t" where
  "transferBufferToWsSession http_len = (http_len, 0)"

text \<open>
  What libuv then reports to a read callback: an error code, the end of the stream, or bytes it has put
  into the buffer.
\<close>

datatype uv_read = Read_error int | Read_eof | Read_data bytes

section \<open>Termination and size\<close>

lemma triple_unat:
  assumes "unat b < 2 ^ 62"
  shows "unat (b + push_bit 1 b :: size_t) = 3 * unat b"
proof -
  have "b + push_bit 1 b = 3 * b" by (simp add: push_bit_eq_mult)
  then show ?thesis using assms by (simp add: unat_word_ariths)
qed

lemma grow_buf_total:
  assumes "0 < unat b" "unat s \<le> 2 ^ 62"
  shows "\<exists>r. grow_buf b s = Some r \<and> s \<le> r \<and> (b < s \<longrightarrow> unat r < 3 * unat s)
               \<and> (\<not> b < s \<longrightarrow> r = b)"
  using assms
proof (induction "unat s - unat b" arbitrary: b rule: less_induct)
  case less
  show ?case
  proof (cases "b < s")
    case False
    then show ?thesis by (subst grow_buf.simps) (auto simp: not_less dest: leD)
  next
    case True
    let ?c = "b + push_bit 1 b"
    have lt: "unat b < unat s" using True by (simp add: word_less_nat_alt)
    then have c: "unat ?c = 3 * unat b" using less.prems(2) by (intro triple_unat) simp
    have "unat s - unat ?c < unat s - unat b" "0 < unat ?c"
      using lt c less.prems(1) by simp_all
    from less.hyps [OF this less.prems(2)] obtain r where
      r: "grow_buf ?c s = Some r" "s \<le> r" "?c < s \<longrightarrow> unat r < 3 * unat s" "\<not> ?c < s \<longrightarrow> r = ?c"
      by auto
    have "unat r < 3 * unat s"
      using r(3,4) c lt by (cases "?c < s") auto
    then show ?thesis using True r by (subst grow_buf.simps) simp
  qed
qed

lemma grow_buf_zero: "0 < s \<Longrightarrow> grow_buf 0 s = None"
proof (rule ccontr)
  assume s: "0 < s" and "grow_buf 0 s \<noteq> None"
  then obtain r where ret: "grow_buf 0 s = Some r" by auto
  have "0 < s \<longrightarrow> (0 :: size_t) \<noteq> 0"
  proof (rule grow_buf.raw_induct [where P = "\<lambda>b s r. 0 < s \<longrightarrow> b \<noteq> 0", OF _ ret])
    fix f :: "size_t \<Rightarrow> size_t \<Rightarrow> size_t option" and b s r :: size_t
    assume IH: "\<And>b s r. f b s = Some r \<Longrightarrow> 0 < s \<longrightarrow> b \<noteq> 0"
      and eq: "(if b < s then f (b + push_bit 1 b) s else Some b) = Some r"
    show "0 < s \<longrightarrow> b \<noteq> (0 :: size_t)"
      using IH [of 0 s r] eq by auto
  qed
  with s show False by simp
qed

text \<open>
  The allocation callback of a session ends and its buffer is large enough: from a buffer that
  is not empty and a request of at most \<open>2\<^sup>6\<^sup>2\<close> bytes the loop returns a length that holds the
  request, keeps a buffer that already does, and never grows beyond three times the request.
\<close>

theorem recv_alloc_ok:
  assumes "0 < len" "unat suggested \<le> 2 ^ 62"
  shows "\<exists>r. recv_alloc_cb len suggested = Some r \<and> suggested \<le> r
           \<and> (len < suggested \<longrightarrow> unat r < 3 * unat suggested) \<and> (suggested \<le> len \<longrightarrow> r = len)"
  using grow_buf_total [of len suggested] assms
  by (auto simp: recv_alloc_cb_def word_less_nat_alt word_le_nat_alt)

theorem recv_alloc_ok_witness:
  "\<exists>r. recv_alloc_cb HTTP_DEFAULT_RECV_BUF_SIZE 70000 = Some r \<and> 70000 \<le> r
      \<and> (HTTP_DEFAULT_RECV_BUF_SIZE < 70000 \<longrightarrow> unat r < 3 * unat (70000 :: size_t))
      \<and> (70000 \<le> HTTP_DEFAULT_RECV_BUF_SIZE \<longrightarrow> r = HTTP_DEFAULT_RECV_BUF_SIZE)"
  by (rule recv_alloc_ok) (simp_all add: HTTP_DEFAULT_RECV_BUF_SIZE_def)

text \<open>
  The loop does not end on an empty buffer: once \<open>transferBufferToWsSession\<close> has taken the
  buffer of an HTTP session, an allocation request on that session would spin forever.
\<close>

theorem recv_alloc_after_transfer_diverges:
  assumes "0 < suggested"
  shows "recv_alloc_cb (snd (transferBufferToWsSession len)) suggested = None"
  using assms by (simp add: recv_alloc_cb_def transferBufferToWsSession_def grow_buf_zero)

theorem recv_alloc_after_transfer_diverges_witness:
  "recv_alloc_cb (snd (transferBufferToWsSession HTTP_DEFAULT_RECV_BUF_SIZE)) 65536 = None"
  by (rule recv_alloc_after_transfer_diverges) simp

end
