(* ===== verification/Ws_Util.thy ===== *)
theory Ws_Util
  imports Hp_Types
begin

text \<open>
  \<open>src/src/util/ssl.h\<close> and \<open>ssl.cpp\<close>: the key of the WebSocket handshake. OpenSSL is a parameter:
  \<open>sha1\<close> is \<open>SHA1\<close>, and \<open>bio\<close> what the base64 filter has written into the memory BIO after the flush,
  or \<open>None\<close> when \<open>BIO_write\<close> reports a failure, which the code turns into an exception.
\<close>

unbundle bit_operations_syntax

section \<open>The code\<close>

datatype ssl_error = Bio_write_failed

definition WS_GUID :: bytes where
  "WS_GUID = bstr ''258EAFA5-E914-47DA-95CA-C5AB0DC85B11''"

definition SHA_DIGEST_LENGTH :: nat where "SHA_DIGEST_LENGTH = 20"

text \<open>\<open>base64_encode\<close> of the first \<open>n\<close> bytes at \<open>input\<close>; a null pointer is \<open>None\<close>.\<close>

definition base64_encode :: "(bytes \<Rightarrow> bytes option) \<Rightarrow> bytes option \<Rightarrow> int \<Rightarrow> ssl_error + bytes" where
  "base64_encode bio input n =
     (case input of
        None \<Rightarrow> Inr []
      | Some bs \<Rightarrow>
          if n \<le> 0 then Inr []
          else case bio (take (nat n) bs) of None \<Rightarrow> Inl Bio_write_failed | Some r \<Rightarrow> Inr r)"

definition calculate_accept_key ::
  "(bytes \<Rightarrow> bytes) \<Rightarrow> (bytes \<Rightarrow> bytes option) \<Rightarrow> bytes \<Rightarrow> ssl_error + bytes" where
  "calculate_accept_key sha1 bio client_key =
     base64_encode bio (Some (sha1 (client_key @ WS_GUID))) (int SHA_DIGEST_LENGTH)"

section \<open>Base64\<close>

text \<open>
  The encoding of RFC 4648, which the filter is documented to write (without line breaks under
  \<open>BIO_FLAGS_BASE64_NO_NL\<close>), and its decoder.
\<close>

definition b64_alphabet :: bytes where
  "b64_alphabet = bstr ''ABCDEFGHIJKLMNOPQRSTUVWXYZabcdefghijklmnopqrstuvwxyz0123456789+/''"

definition b64_digit :: "nat \<Rightarrow> byte" where
  "b64_digit n = b64_alphabet ! (n mod 64)"

fun base64 :: "bytes \<Rightarrow> bytes" where
  "base64 [] = []"
| "base64 [a] =
     [b64_digit (unat a div 4), b64_digit (unat a mod 4 * 16), B CHR ''='', B CHR ''='']"
| "base64 [a, b] =
     [b64_digit (unat a div 4), b64_digit (unat a mod 4 * 16 + unat b div 16),
      b64_digit (unat b mod 16 * 4), B CHR ''='']"
| "base64 (a # b # c # bs) =
     b64_digit (unat a div 4) # b64_digit (unat a mod 4 * 16 + unat b div 16)
       # b64_digit (unat b mod 16 * 4 + unat c div 64) # b64_digit (unat c mod 64) # base64 bs"

fun index_of :: "byte \<Rightarrow> bytes \<Rightarrow> nat option" where
  "index_of c [] = None"
| "index_of c (x # xs) = (if x = c then Some 0 else map_option Suc (index_of c xs))"

definition b64_value :: "byte \<Rightarrow> nat option" where
  "b64_value c = index_of c b64_alphabet"

text \<open>The bytes of a quantum of two, three or four digits.\<close>

definition quantum :: "nat list \<Rightarrow> bytes" where
  "quantum ds =
     (case ds of
        [p, q] \<Rightarrow> [of_nat (p * 4 + q div 16)]
      | [p, q, r] \<Rightarrow> [of_nat (p * 4 + q div 16), of_nat (q mod 16 * 16 + r div 4)]
      | [p, q, r, s] \<Rightarrow>
          [of_nat (p * 4 + q div 16), of_nat (q mod 16 * 16 + r div 4), of_nat (r mod 4 * 64 + s)]
      | _ \<Rightarrow> [])"

fun base64_decode :: "bytes \<Rightarrow> bytes option" where
  "base64_decode [] = Some []"
| "base64_decode (w # x # y # z # rest) =
     (if rest = [] \<and> y = B CHR ''='' \<and> z = B CHR ''='' then
        (case (b64_value w, b64_value x) of (Some p, Some q) \<Rightarrow> Some (quantum [p, q]) | _ \<Rightarrow> None)
      else if rest = [] \<and> z = B CHR ''='' then
        (case (b64_value w, b64_value x, b64_value y) of
           (Some p, Some q, Some r) \<Rightarrow> Some (quantum [p, q, r]) | _ \<Rightarrow> None)
      else
        (case (b64_value w, b64_value x, b64_value y, b64_value z, base64_decode rest) of
           (Some p, Some q, Some r, Some s, Some bs) \<Rightarrow> Some (quantum [p, q, r, s] @ bs)
         | _ \<Rightarrow> None))"
| "base64_decode _ = None"

lemma index_of_nth: "distinct xs \<Longrightarrow> i < length xs \<Longrightarrow> index_of (xs ! i) xs = Some i"
proof (induction xs arbitrary: i)
  case (Cons x xs)
  then show ?case by (cases i) auto
qed simp

lemma b64_alphabet: "distinct b64_alphabet" "length b64_alphabet = 64" "B CHR ''='' \<notin> set b64_alphabet"
  by (simp_all add: b64_alphabet_def)

lemma b64_value_digit [simp]: "b64_value (b64_digit n) = Some (n mod 64)"
  by (simp add: b64_value_def b64_digit_def index_of_nth b64_alphabet)

lemma b64_digit_in: "b64_digit n \<in> set b64_alphabet"
  by (simp add: b64_digit_def b64_alphabet)

lemma b64_digit_pad [simp]: "b64_digit n \<noteq> 61"
  using b64_digit_in [of n] b64_alphabet(3) by auto

lemma sextets:
  fixes x y z :: nat
  assumes "x < 256"
  shows "y < 16 \<Longrightarrow> x div 4 mod 64 * 4 + (x mod 4 * 16 + y) mod 64 div 16 = x"
    and "x div 4 mod 64 * 4 + x mod 4 = x"
    and "z < 4 \<Longrightarrow> (y * 16 + x div 16) mod 64 mod 16 * 16 + (x mod 16 * 4 + z) mod 64 div 4 = x"
    and "(y * 16 + x div 16) mod 64 mod 16 * 16 + x mod 16 = x"
    and "(y * 4 + x div 64) mod 64 mod 4 * 64 + x mod 64 = x"
proof -
  have d: "x div 4 < 64" "x div 16 < 16" "x div 64 < 4" using assms by simp_all
  have m: "n mod 64 mod 16 = n mod 16" "n mod 64 mod 4 = n mod 4" for n :: nat
    by (simp_all add: mod_mod_cancel)
  have "x mod 4 * 16 + y < 64" if "y < 16"
    using that mod_less_divisor [of 4 x] by linarith
  then show "y < 16 \<Longrightarrow> x div 4 mod 64 * 4 + (x mod 4 * 16 + y) mod 64 div 16 = x"
    using d by simp
  show "x div 4 mod 64 * 4 + x mod 4 = x" using d by simp
  have "x mod 16 * 4 + z < 64" if "z < 4"
    using that mod_less_divisor [of 16 x] by linarith
  then show "z < 4 \<Longrightarrow> (y * 16 + x div 16) mod 64 mod 16 * 16 + (x mod 16 * 4 + z) mod 64 div 4 = x"
    using d by (simp add: m)
  show "(y * 16 + x div 16) mod 64 mod 16 * 16 + x mod 16 = x"
    "(y * 4 + x div 64) mod 64 mod 4 * 64 + x mod 64 = x"
    using d by (simp_all add: m)
qed

lemma byte_bounds: "unat (a :: byte) < 256" "unat a div 16 < 16" "unat a div 64 < 4"
  using unsigned_less [where ?'a = nat, of a] by simp_all

lemma base64_decode_base64: "base64_decode (base64 bs) = Some bs"
  by (induction bs rule: base64.induct)
    (simp_all add: quantum_def sextets byte_bounds del: of_nat_add of_nat_mult mod_mod_trivial)

lemma length_base64: "length (base64 bs) = (length bs + 2) div 3 * 4"
proof (induction bs rule: base64.induct)
  case (4 a b c bs)
  have "(length bs + 3 + 2) div 3 = (length bs + 2) div 3 + 1" by simp
  with 4 show ?case by simp
qed simp_all

lemma set_base64: "set (base64 bs) \<subseteq> insert 61 (set b64_alphabet)"
  by (induction bs rule: base64.induct) (auto simp: b64_digit_in)

section \<open>The accept key\<close>

text \<open>
  C32. The accept key of the handshake. When \<open>SHA1\<close> yields twenty bytes and the filter writes the base64
  text of what it is given, \<open>calculate_accept_key\<close> does not throw and returns, for every client key, the
  text RFC 6455 prescribes: the base64 encoding of the digest of the key followed by the GUID. The text
  is 28 characters long, consists of base64 characters only (so it cannot break a header line), and
  decodes to exactly the digest.
\<close>

theorem accept_key_rfc6455:
  assumes "\<And>m. length (sha1 m) = 20" "\<And>bs. bs \<noteq> [] \<Longrightarrow> bio bs = Some (base64 bs)"
  shows "\<exists>k. calculate_accept_key sha1 bio client_key = Inr k
    \<and> k = base64 (sha1 (client_key @ WS_GUID)) \<and> length k = 28
    \<and> set k \<subseteq> insert (B CHR ''='') (set b64_alphabet)
    \<and> base64_decode k = Some (sha1 (client_key @ WS_GUID))"
proof -
  have "sha1 (client_key @ WS_GUID) \<noteq> []" using assms(1) [of "client_key @ WS_GUID"] by auto
  then show ?thesis
    using assms set_base64 [of "sha1 (client_key @ WS_GUID)"]
    by (simp add: calculate_accept_key_def base64_encode_def SHA_DIGEST_LENGTH_def
        length_base64 base64_decode_base64)
qed

text \<open>
  The key of the example of RFC 6455, with the first twenty bytes of the message for the digest.
\<close>

theorem accept_key_rfc6455_witness:
  "\<exists>k. calculate_accept_key (\<lambda>m. take 20 (m @ replicate 20 0)) (\<lambda>bs. Some (base64 bs))
          (bstr ''dGhlIHNhbXBsZSBub25jZQ=='') = Inr k
    \<and> k = base64 (bstr ''dGhlIHNhbXBsZSBub25j'') \<and> length k = 28
    \<and> set k \<subseteq> insert (B CHR ''='') (set b64_alphabet)
    \<and> base64_decode k = Some (bstr ''dGhlIHNhbXBsZSBub25j'')"
  using accept_key_rfc6455 [of "\<lambda>m. take 20 (m @ replicate 20 0)" "\<lambda>bs. Some (base64 bs)"
      "bstr ''dGhlIHNhbXBsZSBub25jZQ==''"]
  by simp

end
