(* ===== verification/Http_Session.thy ===== *)
theory Http_Session
  imports Hp_Sim Hp_Safety Http_Router Http_Resp Recv_Buffer Ws_Util
begin

text \<open>
  \<open>HttpServer::Session\<close> of \<open>include/httpserver.h\<close> and \<open>src/core/httpserver.cpp\<close>: the callbacks the parser
  drives, the request they assemble, the dispatch of a complete request to its handler, the responses
  of the connection with their pending writes, the keep-alive timer, and the upgrade.

  A connection is the \<open>Session\<close> object together with what belongs to its socket: the responses created
  for it, the queue of writes libuv has not completed, whether the socket is read, and how often it has
  been closed. What the code takes from elsewhere is an argument: the regular expressions of the router,
  the order in which a header map is visited, OpenSSL, and the handlers of the application.
\<close>

section \<open>State\<close>

text \<open>
  The callback \<open>m_onSent\<close> of a response: the closure of \<open>initResp\<close>, the closure of \<open>upgradeToWs\<close>, or
  one the application has put in their place.
\<close>

datatype sent_cb = Sent_session | Sent_upgrade | Sent_application

record http_response =
  resp :: httpResp
  m_onSent :: sent_cb
  m_reader :: "httpResp reader_state option"

text \<open>The timer handle; its \<open>data\<close> points to the session or is null.\<close>

record uv_timer_t =
  tm_active :: bool
  tm_data :: bool
  tm_timeout :: int

record Session =
  m_hparser :: http_parser
  m_tmpKey :: bytes
  m_req :: httpReq
  m_recvBuf :: size_t
  m_keepAliveTimer :: uv_timer_t
  m_isKeepAlive :: bool

record conn =
  sess :: Session
  resps :: "http_response list"
  wq :: "nat list"
  reading :: bool
  closes :: nat
  live :: bool
  upgraded :: bool
  crashed :: bool

text \<open>
  A handler reads and may change the request, calls the response, and may as its last action send a
  file.
\<close>

datatype resp_call =
    Call_setStatus httpStatus
  | Call_setHeader bytes bytes
  | Call_sendStr bytes
  | Call_sendJson bytes
  | Call_clearContent
  | Call_onSent

type_synonym RouterHandler = "httpReq \<Rightarrow> httpReq \<times> resp_call list \<times> bytes option"

record 'rx http_env =
  m_router :: "('rx, RouterHandler) httpRouter"
  rx_match :: "'rx \<Rightarrow> bytes \<Rightarrow> bytes list option"
  hdr_order :: header_iter
  sha1_of :: "bytes \<Rightarrow> bytes"
  bio_of :: "bytes \<Rightarrow> bytes option"
  m_keepAliveTimeout :: int

definition upd_sess :: "(Session \<Rightarrow> Session) \<Rightarrow> conn \<Rightarrow> conn" where
  "upd_sess f c = c\<lparr>sess := f (sess c)\<rparr>"

definition upd_req :: "(httpReq \<Rightarrow> httpReq) \<Rightarrow> conn \<Rightarrow> conn" where
  "upd_req f = upd_sess (\<lambda>s. s\<lparr>m_req := f (m_req s)\<rparr>)"

text \<open>The constructor of a session.\<close>

definition Session_init :: Session where
  "Session_init =
     \<lparr>m_hparser = http_parser_init HTTP_REQUEST, m_tmpKey = [], m_req = httpReq_init,
      m_recvBuf = HTTP_DEFAULT_RECV_BUF_SIZE,
      m_keepAliveTimer = \<lparr>tm_active = False, tm_data = True, tm_timeout = 0\<rparr>, m_isKeepAlive = False\<rparr>"

section \<open>Responses\<close>

definition upd_resp :: "nat \<Rightarrow> (http_response \<Rightarrow> http_response) \<Rightarrow> conn \<Rightarrow> conn" where
  "upd_resp i f c = c\<lparr>resps := (resps c)[i := f (resps c ! i)]\<rparr>"

text \<open>
  A call of a method of response \<open>i\<close>: every \<open>uv_write\<close> it makes joins the queue of the socket. \<open>rd\<close> is
  the state of the reader \<open>m_reader\<close> points to.
\<close>

definition reader_of :: "http_response \<Rightarrow> FileReader" where
  "reader_of r = (case m_reader r of None \<Rightarrow> FileReader_init | Some st \<Rightarrow> self st)"

definition on_resp :: "nat \<Rightarrow> (FileReader \<Rightarrow> httpResp \<Rightarrow> httpResp) \<Rightarrow> conn \<Rightarrow> conn" where
  "on_resp i f c =
     (let r = resps c ! i; old = resp r; new = f (reader_of r) old
      in (upd_resp i (\<lambda>r. r\<lparr>resp := new\<rparr>) c)
           \<lparr>wq := wq c @ replicate (length (writes new) - length (writes old)) i\<rparr>)"

text \<open>\<open>initResp\<close>: a response of its own, with the closure that continues or ends the connection.\<close>

definition initResp :: "conn \<Rightarrow> nat \<times> conn" where
  "initResp c =
     (length (resps c),
      c\<lparr>resps := resps c @ [\<lparr>resp = httpResp_init, m_onSent = Sent_session, m_reader = None\<rparr>]\<rparr>)"

fun run_call :: "header_iter \<Rightarrow> nat \<Rightarrow> resp_call \<Rightarrow> conn \<Rightarrow> conn" where
  "run_call it i (Call_setStatus st) c = on_resp i (\<lambda>_. setStatus st) c"
| "run_call it i (Call_setHeader k v) c = on_resp i (\<lambda>_. setHeader k v) c"
| "run_call it i (Call_sendStr str) c = on_resp i (\<lambda>rd. sendStr it rd str) c"
| "run_call it i (Call_sendJson txt) c = on_resp i (\<lambda>rd. sendJson it rd txt) c"
| "run_call it i Call_clearContent c = on_resp i (\<lambda>_. clearContent) c"
| "run_call it i Call_onSent c = upd_resp i (\<lambda>r. r\<lparr>m_onSent := Sent_application\<rparr>) c"

definition run_calls :: "header_iter \<Rightarrow> nat \<Rightarrow> resp_call list \<Rightarrow> conn \<Rightarrow> conn" where
  "run_calls it i cs c = fold (run_call it i) cs c"

definition start_file :: "nat \<Rightarrow> bytes \<Rightarrow> conn \<Rightarrow> conn" where
  "start_file i path =
     upd_resp i (\<lambda>r. let st = Http_Resp.sendFile path (resp r) in r\<lparr>resp := client st, m_reader := Some st\<rparr>)"

text \<open>
  What the file system answers to a file response: the descriptor, the content and the result of the
  close, a failed open, or the descriptor, a content and the error of the read that fails after the whole
  buffers of that content. The callbacks of \<open>initReader\<close> then send the response.
\<close>

datatype file_result = File_content int bytes int | File_open_error int | File_read_error int bytes int

definition file_run :: "header_iter \<Rightarrow> file_result \<Rightarrow> httpResp reader_state \<Rightarrow> httpResp reader_outcome" where
  "file_run it fr st =
     (case fr of
        File_content fd content close_res \<Rightarrow> finish_read (initReader it) fd content close_res st
      | File_open_error err \<Rightarrow> onOpen (initReader it) err st
      | File_read_error fd content err \<Rightarrow> broken_read (initReader it) fd content err st)"

definition file_done :: "header_iter \<Rightarrow> nat \<Rightarrow> file_result \<Rightarrow> conn \<Rightarrow> conn" where
  "file_done it i fr c =
     (case m_reader (resps c ! i) of
        None \<Rightarrow> c
      | Some st \<Rightarrow>
          (case file_run it fr st of
             Use_After_Free \<Rightarrow> c\<lparr>crashed := True\<rparr>
           | Ok st' \<Rightarrow>
               (upd_resp i (\<lambda>r. r\<lparr>resp := client st', m_reader := Some st'\<rparr>) c)
                 \<lparr>wq := wq c @ replicate (length (writes (client st')) - length (writes (resp (resps c ! i)))) i\<rparr>))"

section \<open>Requests\<close>

abbreviation CONNECTION_KEY :: bytes where "CONNECTION_KEY \<equiv> bstr ''connection''"

definition needKeepConnection :: "httpReq \<Rightarrow> bool" where
  "needKeepConnection req =
     (case headers req CONNECTION_KEY of None \<Rightarrow> False | Some v \<Rightarrow> v = bstr ''keep-alive'')"

definition handle_errReq :: "header_iter \<Rightarrow> nat \<Rightarrow> conn \<Rightarrow> conn" where
  "handle_errReq it i c =
     on_resp i (\<lambda>rd. sendStr it rd (bstr ''404 Not Found'')) (on_resp i (\<lambda>_. setStatus NOT_FOUND) c)"

text \<open>
  \<open>upgradeToWs\<close>. \<open>m_req.headers["sec-websocket-key"]\<close> adds an empty entry when there is none; the
  exception of \<open>base64_encode\<close> leaves through the parser's C frames and ends the process.
\<close>

definition upgradeToWs :: "'rx http_env \<Rightarrow> nat \<Rightarrow> conn \<Rightarrow> conn" where
  "upgradeToWs env i c =
     (let key = bstr ''sec-websocket-key'';
          c = on_resp i (\<lambda>_. setStatus SWITCHING_PROTOCOLS) c;
          c = on_resp i (\<lambda>_. setHeader (bstr ''upgrade'') (bstr ''websocket'')) c;
          c = on_resp i (\<lambda>_. setHeader (bstr ''connection'') (bstr ''Upgrade'')) c;
          client_key = (case headers (m_req (sess c)) key of None \<Rightarrow> [] | Some v \<Rightarrow> v);
          c = upd_req (\<lambda>r. r\<lparr>headers := (headers r)(key \<mapsto> client_key)\<rparr>) c
      in case calculate_accept_key (sha1_of env) (bio_of env) client_key of
           Inl err \<Rightarrow> c\<lparr>crashed := True\<rparr>
         | Inr accept_key \<Rightarrow>
             let c = on_resp i (\<lambda>_. setHeader (bstr ''sec-websocket-accept'') accept_key) c;
                 c = upd_resp i (\<lambda>r. r\<lparr>m_onSent := Sent_upgrade\<rparr>) c
             in on_resp i (\<lambda>rd. sendStr (hdr_order env) rd []) c)"

definition run_handler :: "header_iter \<Rightarrow> nat \<Rightarrow> RouterHandler \<Rightarrow> conn \<Rightarrow> conn" where
  "run_handler it i hnd c =
     (case hnd (m_req (sess c)) of
        (req, calls, path_opt) \<Rightarrow>
          let c = run_calls it i calls (upd_req (\<lambda>_. req) c)
          in case path_opt of None \<Rightarrow> c | Some path \<Rightarrow> start_file i path c)"

text \<open>\<open>handle_request\<close>; the flag is \<open>m_parser.upgrade\<close>.\<close>

definition handle_request :: "'rx http_env \<Rightarrow> bool \<Rightarrow> conn \<Rightarrow> conn" where
  "handle_request env upg c =
     (case initResp c of
        (i, c) \<Rightarrow>
          let c = upd_sess (\<lambda>s. s\<lparr>m_isKeepAlive := needKeepConnection (m_req s)\<rparr>) c
          in if upg then upgradeToWs env i c
             else case dispatch (rx_match env) (m_router env) (m_req (sess c)) of
                    (Some hnd, req) \<Rightarrow> run_handler (hdr_order env) i hnd (upd_req (\<lambda>_. req) c)
                  | (None, req) \<Rightarrow> handle_errReq (hdr_order env) i (upd_req (\<lambda>_. req) c))"

section \<open>The parser's callbacks\<close>

definition tolower :: "byte \<Rightarrow> byte" where
  "tolower b = (if 65 \<le> b \<and> b \<le> 90 then b + 32 else b)"

definition onReqMessageBegin :: "conn notify_cb" where
  "onReqMessageBegin h c =
     (0, False, upd_req (\<lambda>r. r\<lparr>headers := Map.empty, body := [], url := [], is_queryParams_parsed := False\<rparr>) c)"

definition onReqHeaderComplete :: "conn notify_cb" where
  "onReqHeaderComplete h c =
     (0, False, upd_req (\<lambda>r. r\<lparr>rmethod := pmethod h,
        version := to_string (unat (http_major h)) @ bstr ''.'' @ to_string (unat (http_minor h))\<rparr>) c)"

definition onReqMessageComplete :: "'rx http_env \<Rightarrow> conn notify_cb" where
  "onReqMessageComplete env h c = (0, False, handle_request env (upgrade h) c)"

definition onReqURL :: "conn data_cb" where
  "onReqURL h dat c = (0, False, upd_req (\<lambda>r. r\<lparr>url := dat\<rparr>) c)"

definition onReqHeaderField :: "conn data_cb" where
  "onReqHeaderField h dat c = (0, False, upd_sess (\<lambda>s. s\<lparr>m_tmpKey := map tolower dat\<rparr>) c)"

text \<open>\<open>unordered_map::insert\<close> keeps an entry that is already there.\<close>

definition map_insert :: "bytes \<Rightarrow> bytes \<Rightarrow> HttpParamMap \<Rightarrow> HttpParamMap" where
  "map_insert k v m = (case m k of None \<Rightarrow> m(k \<mapsto> v) | Some _ \<Rightarrow> m)"

definition onReqHeaderValue :: "conn data_cb" where
  "onReqHeaderValue h dat c =
     (0, False, upd_req (\<lambda>r. r\<lparr>headers := map_insert (m_tmpKey (sess c)) dat (headers r)\<rparr>) c)"

definition onReqBody :: "conn data_cb" where
  "onReqBody h dat c = (0, False, upd_req (\<lambda>r. r\<lparr>body := body r @ dat\<rparr>) c)"

definition m_settings :: "'rx http_env \<Rightarrow> conn http_parser_settings" where
  "m_settings env = http_parser_settings_init
     \<lparr>on_message_begin := Some onReqMessageBegin, on_url := Some onReqURL,
      on_header_field := Some onReqHeaderField, on_header_value := Some onReqHeaderValue,
      on_headers_complete := Some onReqHeaderComplete, on_body := Some onReqBody,
      on_message_complete := Some (onReqMessageComplete env)\<rparr>"

section \<open>The keep-alive timer and reading\<close>

text \<open>
  The timeout is an \<open>int\<close> number of seconds, here unbounded; the multiplication by 1000 is that of the code as long
  as the number is not negative and at most 2147483, which \<open>setKeepAliveTimeout\<close> does not check.
\<close>

definition startKeepAliveTimer :: "'rx http_env \<Rightarrow> conn \<Rightarrow> conn" where
  "startKeepAliveTimer env =
     upd_sess (\<lambda>s. s\<lparr>m_keepAliveTimer := \<lparr>tm_active = True, tm_data = True, tm_timeout = m_keepAliveTimeout env * 1000\<rparr>,
                     m_isKeepAlive := True\<rparr>)"

definition stopKeepAliveTimer :: "conn \<Rightarrow> conn" where
  "stopKeepAliveTimer =
     upd_sess (\<lambda>s. s\<lparr>m_isKeepAlive := False,
                     m_keepAliveTimer := (m_keepAliveTimer s)\<lparr>tm_data := False, tm_active := False\<rparr>\<rparr>)"

text \<open>
  \<open>recv_cb\<close> for \<open>nread >= 0\<close>. The number of parsed bytes is only compared for a message on the error
  stream; \<open>mhs\<close> is the parser's global header limit. \<open>buf->base\<close> is null when the buffer has been
  handed on.
\<close>

definition recv_data :: "u32 \<Rightarrow> 'rx http_env \<Rightarrow> bytes \<Rightarrow> conn \<Rightarrow> conn" where
  "recv_data mhs env buf c =
     (let c = (if m_isKeepAlive (sess c) then stopKeepAliveTimer c else c)
      in if m_recvBuf (sess c) = 0 then c
         else case http_parser_execute mhs (m_settings env) (m_hparser (sess c)) c buf of
                None \<Rightarrow> c\<lparr>crashed := True\<rparr>
              | Some (h, c, nparsed) \<Rightarrow> upd_sess (\<lambda>s. s\<lparr>m_hparser := h\<rparr>) c)"

section \<open>The parser as a source of events\<close>

text \<open>What the callbacks do, event by event.\<close>

fun on_event :: "'rx http_env \<Rightarrow> http_event \<Rightarrow> conn \<Rightarrow> conn" where
  "on_event env Ev_Begin c = snd (snd (onReqMessageBegin (http_parser_init HTTP_REQUEST) c))"
| "on_event env (Ev_Url b) c = snd (snd (onReqURL (http_parser_init HTTP_REQUEST) b c))"
| "on_event env (Ev_Field b) c = snd (snd (onReqHeaderField (http_parser_init HTTP_REQUEST) b c))"
| "on_event env (Ev_Value b) c = snd (snd (onReqHeaderValue (http_parser_init HTTP_REQUEST) b c))"
| "on_event env (Ev_Headers m major minor) c =
     snd (snd (onReqHeaderComplete ((http_parser_init HTTP_REQUEST)
       \<lparr>pmethod := m, http_major := major, http_minor := minor\<rparr>) c))"
| "on_event env (Ev_Body b) c = snd (snd (onReqBody (http_parser_init HTTP_REQUEST) b c))"
| "on_event env (Ev_Complete upg) c = handle_request env upg c"

lemma m_settings_events: "m_settings env = settings_of (on_event env)"
  by (simp add: m_settings_def settings_of_def http_parser_settings_init_def fun_eq_iff onReqMessageBegin_def
      onReqURL_def onReqHeaderField_def onReqHeaderValue_def onReqHeaderComplete_def onReqBody_def
      onReqMessageComplete_def)

lemma recv_data_events:
  assumes "execute_events mhs (m_hparser (sess c)) buf = Some (h, evs, n)" "m_recvBuf (sess c) \<noteq> 0"
  shows "recv_data mhs env buf c =
    upd_sess (\<lambda>s. s\<lparr>m_hparser := h\<rparr>)
      (fold (on_event env) evs (if m_isKeepAlive (sess c) then stopKeepAliveTimer c else c))"
  using assms
  by (simp add: recv_data_def m_settings_events execute_fold stopKeepAliveTimer_def upd_sess_def Let_def)

end
