(* ===== verification/Registry.thy ===== *)
theory Registry
  imports Prelude "HOL-Library.Multiset"
begin

text \<open>
  The session tables of \<open>WsServer\<close> and \<open>HttpServer\<close>: a vector of shared pointers that grows at its
  back and removes an element by moving the last one into its place. The contract both offer their
  server is a bag of sessions, stated as a locale; the sessions are named by their addresses.
\<close>

section \<open>The contract\<close>

locale session_registry =
  fixes push :: "'a \<Rightarrow> 'a list \<Rightarrow> 'a list"
    and remove :: "'a \<Rightarrow> 'a list \<Rightarrow> 'a list"
  assumes push_mset: "mset (push x v) = add_mset x (mset v)"
    and remove_mset: "mset (remove x v) = mset v - {#x#}"
begin

lemma set_push: "set (push x v) = insert x (set v)"
  by (metis push_mset set_mset_add_mset_insert set_mset_mset)

lemma distinct_push: "distinct v \<Longrightarrow> x \<notin> set v \<Longrightarrow> distinct (push x v)"
  using mset_eq_imp_distinct_iff [of "push x v" "x # v"] by (simp add: push_mset)

lemma distinct_remove: "distinct v \<Longrightarrow> distinct (remove x v)"
  by (metis distinct_count_atmost_1 distinct_remove1 mset_remove1 remove_mset
      mset_eq_imp_distinct_iff)

lemma set_remove: "distinct v \<Longrightarrow> set (remove x v) = set v - {x}"
  by (metis mset_eq_setD mset_remove1 remove_mset set_remove1_eq)

lemma length_push: "length (push x v) = Suc (length v)"
  by (metis push_mset size_add_mset size_mset)

lemma length_remove:
  "length (remove x v) = (if x \<in> set v then length v - 1 else length v)"
  by (metis length_remove1 mset_remove1 remove_mset size_mset)

lemma remove_absent: "x \<notin> set v \<Longrightarrow> mset (remove x v) = mset v"
  by (simp add: remove_mset)

lemma remove_push: "mset (remove x (push x v)) = mset v"
  by (simp add: push_mset remove_mset)

end

section \<open>Removal by swapping with the back\<close>

text \<open>\<open>std::find\<close>: the index of the first occurrence, or the length of the vector.\<close>

fun find_index :: "'a \<Rightarrow> 'a list \<Rightarrow> nat" where
  "find_index x [] = 0"
| "find_index x (y # ys) = (if y = x then 0 else Suc (find_index x ys))"

definition swap_pop :: "nat \<Rightarrow> 'a list \<Rightarrow> 'a list" where
  "swap_pop i v = butlast (v[i := last v, length v - 1 := v ! i])"

lemma find_index_less: "find_index x v < length v \<longleftrightarrow> x \<in> set v"
  by (induction v) auto

lemma nth_find_index: "x \<in> set v \<Longrightarrow> v ! find_index x v = x"
  by (induction v) auto

lemma find_index_le: "find_index x v \<le> length v"
  by (induction v) auto

lemma mset_swap_pop:
  assumes "i < length v"
  shows "mset (swap_pop i v) = mset v - {#v ! i#}"
proof -
  let ?w = "v[i := last v, length v - 1 := v ! i]"
  have l: "last v = v ! (length v - 1)" using assms by (intro last_conv_nth) auto
  then have "mset ?w = mset v" using assms by (simp add: mset_swap)
  moreover have "?w \<noteq> []" using assms by auto
  moreover from this have "last ?w = v ! i" using assms by (simp add: last_conv_nth)
  moreover from calculation have "mset ?w = mset (butlast ?w) + {#v ! i#}"
    by (metis append_butlast_last_id mset.simps(1) mset.simps(2) mset_append)
  ultimately show ?thesis by (simp add: swap_pop_def)
qed

lemma mset_find_swap_pop:
  "mset (let i = find_index x v in if i \<noteq> length v then swap_pop i v else v) = mset v - {#x#}"
proof (cases "x \<in> set v")
  case True
  then have "find_index x v < length v" by (simp add: find_index_less)
  then show ?thesis
    using True by (simp add: Let_def mset_swap_pop nth_find_index)
next
  case False
  then have "find_index x v = length v"
    using find_index_less [of x v] find_index_le [of x v] by simp
  then show ?thesis using False by simp
qed

end
