(* ===== verification/Http_Server.thy ===== *)
theory Http_Server
  imports Http_Session Registry
begin

text \<open>
  \<open>HttpServer\<close> of \<open>include/httpserver.h\<close> and \<open>src/core/httpserver.cpp\<close>: accepting connections, the table
  of sessions, closing and upgrading them, and the runs of the server as a step relation over the events
  libuv and the application produce. The mutex only guards the table; every step runs on the event loop.
  The state \<open>'w\<close> is that of whoever takes over upgraded sessions.
\<close>

section \<open>State\<close>

definition HTTP_DEFAULT_KEEP_ALIVE_TIMEOUT :: int where
  "HTTP_DEFAULT_KEEP_ALIVE_TIMEOUT = 20"

record 'w HttpServer =
  m_sessions :: "nat list"
  conns :: "nat \<Rightarrow> conn option"
  m_running :: bool
  onUpgradeCb :: "(nat \<Rightarrow> Session \<Rightarrow> 'w \<Rightarrow> Session \<times> 'w) option"
  ws_world :: 'w
  terminated :: bool

text \<open>
  The constructor, on the results of \<open>uv_tcp_init\<close>, \<open>uv_tcp_bind\<close> and \<open>uv_listen\<close>; \<open>None\<close> is a failed
  assertion.
\<close>

definition HttpServer_init :: "int \<Rightarrow> int \<Rightarrow> int \<Rightarrow> 'w \<Rightarrow> 'w HttpServer option" where
  "HttpServer_init init_ret bind_ret listen_ret w =
     (if init_ret \<noteq> 0 then None
      else if bind_ret \<noteq> 0 then None
      else if listen_ret \<noteq> 0 then None
      else Some \<lparr>m_sessions = [], conns = Map.empty, m_running = False, onUpgradeCb = None,
                 ws_world = w, terminated = False\<rparr>)"

text \<open>\<open>start\<close>: whether this call runs the loop.\<close>

definition start :: "'w HttpServer \<Rightarrow> bool \<times> 'w HttpServer" where
  "start sv = (\<not> m_running sv, sv\<lparr>m_running := True\<rparr>)"

definition post ::
  "(bytes \<Rightarrow> 'rx option) \<Rightarrow> bytes \<Rightarrow> RouterHandler \<Rightarrow> 'rx http_env \<Rightarrow> 'rx http_env" where
  "post rx_compile url_template callback env =
     env\<lparr>m_router := addRoute rx_compile HTTP_POST url_template callback (m_router env)\<rparr>"

definition get ::
  "(bytes \<Rightarrow> 'rx option) \<Rightarrow> bytes \<Rightarrow> RouterHandler \<Rightarrow> 'rx http_env \<Rightarrow> 'rx http_env" where
  "get rx_compile url_template callback env =
     env\<lparr>m_router := addRoute rx_compile HTTP_GET url_template callback (m_router env)\<rparr>"

definition setKeepAliveTimeout :: "int \<Rightarrow> 'rx http_env \<Rightarrow> 'rx http_env" where
  "setKeepAliveTimeout timeout env = env\<lparr>m_keepAliveTimeout := timeout\<rparr>"

definition set_onUpgrade ::
  "(nat \<Rightarrow> Session \<Rightarrow> 'w \<Rightarrow> Session \<times> 'w) \<Rightarrow> 'w HttpServer \<Rightarrow> 'w HttpServer" where
  "set_onUpgrade callback sv = sv\<lparr>onUpgradeCb := Some callback\<rparr>"

section \<open>The table\<close>

definition pushSession :: "'a \<Rightarrow> 'a list \<Rightarrow> 'a list" where
  "pushSession ss v = v @ [ss]"

definition removeSession :: "'a \<Rightarrow> 'a list \<Rightarrow> 'a list" where
  "removeSession ss v =
     (let it = find_index ss v in if it \<noteq> length v then swap_pop it v else v)"

definition getSessionCount :: "'w HttpServer \<Rightarrow> nat" where
  "getSessionCount sv = length (m_sessions sv)"

interpretation http_reg: session_registry pushSession removeSession
  by unfold_locales (simp_all add: pushSession_def removeSession_def mset_find_swap_pop)

definition upd_conn :: "nat \<Rightarrow> (conn \<Rightarrow> conn) \<Rightarrow> 'w HttpServer \<Rightarrow> 'w HttpServer" where
  "upd_conn sid f sv =
     (case conns sv sid of
        None \<Rightarrow> sv
      | Some c \<Rightarrow> sv\<lparr>conns := (conns sv)(sid \<mapsto> f c), terminated := terminated sv \<or> crashed (f c)\<rparr>)"

section \<open>Closing and upgrading\<close>

definition closeSession :: "nat \<Rightarrow> bool \<Rightarrow> 'w HttpServer \<Rightarrow> 'w HttpServer" where
  "closeSession sid isUpgrade sv =
     (let sv = upd_conn sid (\<lambda>c. c\<lparr>reading := False\<rparr>) sv;
          sv = (if \<not> isUpgrade then upd_conn sid (\<lambda>c. c\<lparr>closes := closes c + 1\<rparr>) sv else sv)
      in sv\<lparr>m_sessions := removeSession sid (m_sessions sv)\<rparr>)"

text \<open>
  A shared pointer to a session goes out of scope: when the table holds none either, the object is
  destroyed.
\<close>

definition release :: "nat \<Rightarrow> 'w HttpServer \<Rightarrow> 'w HttpServer" where
  "release sid sv =
     (if sid \<in> set (m_sessions sv) then sv else upd_conn sid (\<lambda>c. c\<lparr>live := False\<rparr>) sv)"

text \<open>\<open>Session::close\<close>.\<close>

definition session_close :: "nat \<Rightarrow> 'w HttpServer \<Rightarrow> 'w HttpServer" where
  "session_close sid sv = release sid (closeSession sid False sv)"

text \<open>\<open>assert(onUpgradeCb != nullptr)\<close> ends the process.\<close>

definition upgradeSession :: "nat \<Rightarrow> 'w HttpServer \<Rightarrow> 'w HttpServer" where
  "upgradeSession sid sv =
     (case onUpgradeCb sv of
        None \<Rightarrow> sv\<lparr>terminated := True\<rparr>
      | Some cb \<Rightarrow>
          let sv = closeSession sid True sv
          in case conns sv sid of
               None \<Rightarrow> sv
             | Some c \<Rightarrow>
                 (case cb sid (sess c) (ws_world sv) of
                    (s, w) \<Rightarrow> upd_conn sid (\<lambda>c. c\<lparr>sess := s, upgraded := True\<rparr>) (sv\<lparr>ws_world := w\<rparr>)))"

text \<open>
  The \<open>onSent\<close> closures. Both hold a weak pointer: when the session is gone they do nothing.
\<close>

definition on_sent :: "'rx http_env \<Rightarrow> nat \<Rightarrow> sent_cb \<Rightarrow> 'w HttpServer \<Rightarrow> 'w HttpServer" where
  "on_sent env sid cb sv =
     (case conns sv sid of
        None \<Rightarrow> sv
      | Some c \<Rightarrow>
          if \<not> live c then sv
          else case cb of
                 Sent_session \<Rightarrow>
                   if m_isKeepAlive (sess c) then upd_conn sid (startKeepAliveTimer env) sv
                   else session_close sid sv
               | Sent_upgrade \<Rightarrow> release sid (upgradeSession sid sv)
               | Sent_application \<Rightarrow> sv)"

section \<open>The callbacks of libuv\<close>

text \<open>The oldest write of a socket completes.\<close>

definition write_complete :: "'rx http_env \<Rightarrow> nat \<Rightarrow> int \<Rightarrow> 'w HttpServer \<Rightarrow> 'w HttpServer" where
  "write_complete env sid status sv =
     (case conns sv sid of
        None \<Rightarrow> sv
      | Some c \<Rightarrow>
          (case wq c of
             [] \<Rightarrow> sv
           | i # q \<Rightarrow>
               let r = resps c ! i; sv = upd_conn sid (\<lambda>c. c\<lparr>wq := q\<rparr>) sv
               in snd (onWriteEnd (Some (\<lambda>_. on_sent env sid (m_onSent r))) status (resp r) sv)))"

fun recv_cb :: "u32 \<Rightarrow> 'rx http_env \<Rightarrow> nat \<Rightarrow> uv_read \<Rightarrow> 'w HttpServer \<Rightarrow> 'w HttpServer" where
  "recv_cb mhs env sid (Read_data buf) sv = upd_conn sid (recv_data mhs env buf) sv"
| "recv_cb mhs env sid _ sv = session_close sid (upd_conn sid stopKeepAliveTimer sv)"

text \<open>The timer has expired: it is no longer active, and its \<open>data\<close> may be null.\<close>

definition keepAliveTimerCb :: "nat \<Rightarrow> 'w HttpServer \<Rightarrow> 'w HttpServer" where
  "keepAliveTimerCb sid sv =
     (case conns sv sid of
        None \<Rightarrow> sv
      | Some c \<Rightarrow> if tm_data (m_keepAliveTimer (sess c)) then session_close sid sv else sv)"

definition expire :: "conn \<Rightarrow> conn" where
  "expire = upd_sess (\<lambda>s. s\<lparr>m_keepAliveTimer := (m_keepAliveTimer s)\<lparr>tm_active := False\<rparr>\<rparr>)"

definition conn_init :: conn where
  "conn_init = \<lparr>sess = Session_init, resps = [], wq = [], reading = False, closes = 0, live = True,
                upgraded = False, crashed = False\<rparr>"

definition handle_connect :: "nat \<Rightarrow> peer_name \<Rightarrow> 'w HttpServer \<Rightarrow> 'w HttpServer" where
  "handle_connect sid peer sv =
     (let sv = sv\<lparr>conns := (conns sv)(sid \<mapsto> conn_init)\<rparr>;
          sv = sv\<lparr>m_sessions := pushSession sid (m_sessions sv)\<rparr>;
          sv = upd_conn sid (upd_req (set_ip peer)) sv
      in upd_conn sid (\<lambda>c. c\<lparr>reading := True\<rparr>) sv)"

text \<open>
  \<open>inter_on_connect\<close>, with the result of \<open>uv_accept\<close>; a handle that could not be accepted is closed
  and no session is made for it.
\<close>

definition inter_on_connect :: "int \<Rightarrow> int \<Rightarrow> nat \<Rightarrow> peer_name \<Rightarrow> 'w HttpServer \<Rightarrow> 'w HttpServer" where
  "inter_on_connect status accept_ret sid peer sv =
     (if status < 0 then sv
      else if accept_ret = 0 then handle_connect sid peer sv
      else sv)"

text \<open>\<open>recv_alloc_cb\<close> on the session's buffer, when its loop ends.\<close>

definition alloc_to :: "size_t \<Rightarrow> conn \<Rightarrow> conn" where
  "alloc_to len = upd_sess (\<lambda>s. s\<lparr>m_recvBuf := len\<rparr>)"

section \<open>Runs\<close>

text \<open>
  A step: a connection arrives; libuv allocates and delivers on a socket that is read; a write or a file
  completes; a timer that is active in a session expires; the application calls a response it holds.
\<close>

inductive http_step :: "u32 \<Rightarrow> 'rx http_env \<Rightarrow> 'w HttpServer \<Rightarrow> 'w HttpServer \<Rightarrow> bool"
  for mhs env where
  connected: "\<not> terminated sv \<Longrightarrow> conns sv sid = None \<Longrightarrow>
     http_step mhs env sv (inter_on_connect status accept_ret sid peer sv)"
| received: "\<not> terminated sv \<Longrightarrow> conns sv sid = Some c \<Longrightarrow> reading c \<Longrightarrow>
     recv_alloc_cb (m_recvBuf (sess c)) suggested = Some len \<Longrightarrow>
     (\<forall>buf. ev = Read_data buf \<longrightarrow> length buf \<le> unat len) \<Longrightarrow>
     http_step mhs env sv (recv_cb mhs env sid ev (upd_conn sid (alloc_to len) sv))"
| written: "\<not> terminated sv \<Longrightarrow> conns sv sid = Some c \<Longrightarrow> wq c \<noteq> [] \<Longrightarrow>
     http_step mhs env sv (write_complete env sid status sv)"
| filed: "\<not> terminated sv \<Longrightarrow> conns sv sid = Some c \<Longrightarrow> i < length (resps c) \<Longrightarrow>
     http_step mhs env sv (upd_conn sid (file_done (hdr_order env) i fr) sv)"
| timeout: "\<not> terminated sv \<Longrightarrow> conns sv sid = Some c \<Longrightarrow> live c \<Longrightarrow>
     tm_active (m_keepAliveTimer (sess c)) \<Longrightarrow>
     http_step mhs env sv (keepAliveTimerCb sid (upd_conn sid expire sv))"
| app: "\<not> terminated sv \<Longrightarrow> conns sv sid = Some c \<Longrightarrow> i < length (resps c) \<Longrightarrow>
     http_step mhs env sv (upd_conn sid (run_calls (hdr_order env) i calls) sv)"

inductive http_reachable :: "u32 \<Rightarrow> 'rx http_env \<Rightarrow> 'w HttpServer \<Rightarrow> 'w HttpServer \<Rightarrow> bool"
  for mhs env sv0 where
  http_start: "http_reachable mhs env sv0 sv0"
| http_next: "http_reachable mhs env sv0 sv \<Longrightarrow> http_step mhs env sv sv' \<Longrightarrow> http_reachable mhs env sv0 sv'"

section \<open>What the session's own code leaves alone\<close>

text \<open>
  The parser's callbacks, the handlers and the file reader touch the request, the responses and the
  write queue, but not the socket, the timer, the buffer or the object's lifetime.
\<close>

definition keeps :: "conn \<Rightarrow> conn \<Rightarrow> bool" where
  "keeps c c' \<longleftrightarrow> reading c' = reading c \<and> closes c' = closes c \<and> live c' = live c \<and> upgraded c' = upgraded c
     \<and> m_keepAliveTimer (sess c') = m_keepAliveTimer (sess c) \<and> m_recvBuf (sess c') = m_recvBuf (sess c)"

lemma keeps_refl [simp]: "keeps c c"
  by (simp add: keeps_def)

lemma keeps_trans [trans]: "keeps c d \<Longrightarrow> keeps d e \<Longrightarrow> keeps c e"
  by (simp add: keeps_def)

lemma keeps_simps [simp]:
  "keeps c (upd_resp i f d) = keeps c d" "keeps c (on_resp i g d) = keeps c d"
  "keeps c (upd_req h d) = keeps c d" "keeps c (d\<lparr>crashed := b\<rparr>) = keeps c d"
  "keeps c (d\<lparr>wq := q\<rparr>) = keeps c d" "keeps c (d\<lparr>resps := rs\<rparr>) = keeps c d"
  "keeps c (upd_sess (\<lambda>s. s\<lparr>m_hparser := hp'\<rparr>) d) = keeps c d"
  "keeps c (upd_sess (\<lambda>s. s\<lparr>m_tmpKey := k\<rparr>) d) = keeps c d"
  "keeps c (upd_sess (\<lambda>s. s\<lparr>m_isKeepAlive := ka s\<rparr>) d) = keeps c d"
  by (simp_all add: keeps_def upd_resp_def on_resp_def upd_req_def upd_sess_def Let_def)

lemma keeps_run_calls: "keeps c (run_calls it i calls c)"
proof -
  have "keeps c d \<Longrightarrow> keeps c (fold (run_call it i) calls d)" for d
  proof (induction calls arbitrary: d)
    case (Cons x calls)
    have "keeps c (run_call it i x d)" using Cons.prems by (cases x) simp_all
    with Cons.IH show ?case by simp
  qed simp
  then show ?thesis by (simp add: run_calls_def)
qed

lemma keeps_file_done: "keeps c (file_done it i fr c)"
  by (simp add: file_done_def split: option.split reader_outcome.split)

lemma keeps_handle_request: "keeps c (handle_request env upg c)"
proof -
  have h: "keeps c (run_handler it i hnd d)" if "keeps c d" for it i hnd d
  proof -
    obtain req calls path where r: "hnd (m_req (sess d)) = (req, calls, path)"
      by (cases "hnd (m_req (sess d))") auto
    have "keeps c (run_calls it i calls (upd_req (\<lambda>_. req) d))"
      using that by (intro keeps_trans [OF _ keeps_run_calls]) simp
    with r show ?thesis by (simp add: run_handler_def start_file_def Let_def split: option.split)
  qed
  have u: "keeps c (upgradeToWs env i d)" if "keeps c d" for i d
    using that by (simp add: upgradeToWs_def Let_def split: sum.split)
  show ?thesis
    by (auto simp: handle_request_def initResp_def handle_errReq_def Let_def
        split: option.split prod.split intro!: h u)
qed

lemma keeps_events: "keeps c (fold (on_event env) evs c)"
proof -
  have "keeps d (on_event env ev d)" for ev d
    by (cases ev) (simp_all add: onReqMessageBegin_def onReqURL_def onReqHeaderField_def onReqHeaderValue_def
        onReqHeaderComplete_def onReqBody_def keeps_handle_request)
  then have step: "keeps c d \<Longrightarrow> keeps c (on_event env ev d)" for ev d
    using keeps_trans by blast
  have "keeps c d \<Longrightarrow> keeps c (fold (on_event env) evs d)" for d
    by (induction evs arbitrary: d) (simp_all add: step)
  then show ?thesis by simp
qed

lemma keeps_recv_data:
  "keeps (if m_isKeepAlive (sess c) then stopKeepAliveTimer c else c) (recv_data mhs env buf c)"
proof -
  define d where "d = (if m_isKeepAlive (sess c) then stopKeepAliveTimer c else c)"
  have "keeps d (upd_sess (\<lambda>s. s\<lparr>m_hparser := h\<rparr>) (fold (on_event env) evs d))" for h evs
    by (simp add: keeps_events)
  then have "keeps d (if m_recvBuf (sess d) = 0 then d
      else case http_parser_execute mhs (m_settings env) (m_hparser (sess d)) d buf of
             None \<Rightarrow> d\<lparr>crashed := True\<rparr> | Some (h, c, n) \<Rightarrow> upd_sess (\<lambda>s. s\<lparr>m_hparser := h\<rparr>) c)"
    by (simp add: m_settings_events execute_fold split: option.split prod.split)
  then show ?thesis unfolding recv_data_def Let_def d_def [symmetric] .
qed

section \<open>The invariant\<close>

definition conn_ok :: "conn \<Rightarrow> bool" where
  "conn_ok c \<longleftrightarrow>
     (if live c then reading c \<and> closes c = 0 \<and> \<not> upgraded c \<and> m_recvBuf (sess c) \<noteq> 0
        \<and> (tm_active (m_keepAliveTimer (sess c)) \<longrightarrow> m_isKeepAlive (sess c) \<and> tm_data (m_keepAliveTimer (sess c)))
      else \<not> reading c \<and> (if upgraded c then closes c = 0
                          else closes c = 1 \<and> \<not> tm_active (m_keepAliveTimer (sess c))))"

definition server_ok :: "'w HttpServer \<Rightarrow> bool" where
  "server_ok sv \<longleftrightarrow> distinct (m_sessions sv)
     \<and> (\<forall>sid. sid \<in> set (m_sessions sv) \<longleftrightarrow> (\<exists>c. conns sv sid = Some c \<and> live c))
     \<and> (\<forall>sid c. conns sv sid = Some c \<longrightarrow> conn_ok c)"

lemma server_ok_upd_conn:
  assumes "server_ok sv" "\<And>c. conns sv sid = Some c \<Longrightarrow> conn_ok (f c) \<and> live (f c) = live c"
  shows "server_ok (upd_conn sid f sv)"
proof (cases "conns sv sid")
  case None
  with assms(1) show ?thesis by (simp add: upd_conn_def)
next
  case (Some c)
  with assms show ?thesis by (auto simp: upd_conn_def server_ok_def)
qed

lemma conns_closeSession:
  assumes "conns sv sid = Some c"
  shows "conns (closeSession sid b sv) sid =
      Some (c\<lparr>reading := False, closes := (if b then closes c else closes c + 1)\<rparr>)"
    and "t \<noteq> sid \<Longrightarrow> conns (closeSession sid b sv) t = conns sv t"
    and "m_sessions (closeSession sid b sv) = removeSession sid (m_sessions sv)"
    and "ws_world (closeSession sid b sv) = ws_world sv"
  using assms by (simp_all add: closeSession_def upd_conn_def Let_def)

text \<open>Closing takes the session out of the table, so the object is destroyed.\<close>

lemma session_close_eq:
  assumes "server_ok sv" "conns sv sid = Some c" "live c"
  shows "conns (session_close sid sv) =
      (conns sv)(sid \<mapsto> c\<lparr>reading := False, closes := closes c + 1, live := False\<rparr>)"
    and "m_sessions (session_close sid sv) = removeSession sid (m_sessions sv)"
proof -
  have "sid \<notin> set (removeSession sid (m_sessions sv))"
    using assms(1) by (simp add: http_reg.set_remove server_ok_def)
  then show "conns (session_close sid sv) =
      (conns sv)(sid \<mapsto> c\<lparr>reading := False, closes := closes c + 1, live := False\<rparr>)"
    and "m_sessions (session_close sid sv) = removeSession sid (m_sessions sv)"
    using assms(2) by (auto simp: session_close_def closeSession_def release_def upd_conn_def Let_def)
qed

lemma server_ok_leave:
  assumes "server_ok sv" "conns sv' = (conns sv)(sid \<mapsto> c)" "\<not> live c" "conn_ok c"
    "m_sessions sv' = removeSession sid (m_sessions sv)"
  shows "server_ok sv'"
  using assms by (auto simp: server_ok_def http_reg.distinct_remove http_reg.set_remove)

lemma server_ok_session_close:
  assumes "server_ok sv" "conns sv sid = Some c" "live c" "\<not> tm_active (m_keepAliveTimer (sess c))"
  shows "server_ok (session_close sid sv)"
proof -
  have "conn_ok c" using assms(1,2) by (simp add: server_ok_def)
  with assms(3,4) have "conn_ok (c\<lparr>reading := False, closes := closes c + 1, live := False\<rparr>)"
    by (simp add: conn_ok_def)
  from server_ok_leave [OF assms(1) session_close_eq(1) [OF assms(1-3)] _ this session_close_eq(2) [OF assms(1-3)]]
  show ?thesis by simp
qed

lemma server_ok_upgrade:
  assumes "server_ok sv" "conns sv sid = Some c" "live c"
  shows "server_ok (release sid (upgradeSession sid sv))"
proof (cases "onUpgradeCb sv")
  case None
  with assms show ?thesis by (auto simp: upgradeSession_def release_def server_ok_def)
next
  case (Some cb)
  let ?sv = "closeSession sid True sv"
  obtain s w where r: "cb sid (sess c) (ws_world sv) = (s, w)" by (cases "cb sid (sess c) (ws_world sv)")
  let ?c = "c\<lparr>reading := False, sess := s, upgraded := True, live := False\<rparr>"
  have gone: "sid \<notin> set (removeSession sid (m_sessions sv))"
    using assms(1) by (simp add: http_reg.set_remove server_ok_def)
  have "conns (release sid (upgradeSession sid sv)) = (conns sv)(sid \<mapsto> ?c)"
    "m_sessions (release sid (upgradeSession sid sv)) = removeSession sid (m_sessions sv)"
    using assms(2) r Some gone
    by (auto simp: upgradeSession_def closeSession_def release_def upd_conn_def Let_def)
  moreover have "conn_ok ?c" using assms by (auto simp: conn_ok_def server_ok_def)
  ultimately show ?thesis by (intro server_ok_leave [OF assms(1)]) simp_all
qed

lemma server_ok_on_sent:
  assumes "server_ok sv"
  shows "server_ok (on_sent env sid cb sv)"
proof (cases "\<exists>c. conns sv sid = Some c \<and> live c")
  case False
  with assms show ?thesis by (auto simp: on_sent_def split: option.split)
next
  case True
  then obtain c where c: "conns sv sid = Some c" "live c" by blast
  then have ok: "conn_ok c" using assms by (simp add: server_ok_def)
  show ?thesis
  proof (cases cb)
    case Sent_session
    show ?thesis
    proof (cases "m_isKeepAlive (sess c)")
      case True
      have "server_ok (upd_conn sid (startKeepAliveTimer env) sv)"
        using assms ok c by (intro server_ok_upd_conn) (auto simp: conn_ok_def startKeepAliveTimer_def upd_sess_def)
      with True c Sent_session show ?thesis by (simp add: on_sent_def)
    next
      case False
      with ok c(2) have "\<not> tm_active (m_keepAliveTimer (sess c))" by (simp add: conn_ok_def)
      from server_ok_session_close [OF assms c this] False c Sent_session show ?thesis by (simp add: on_sent_def)
    qed
  next
    case Sent_upgrade
    with server_ok_upgrade [OF assms c] c show ?thesis by (simp add: on_sent_def)
  qed (use assms c in \<open>simp add: on_sent_def\<close>)
qed

lemma conn_ok_keeps: "keeps c c' \<Longrightarrow> conn_ok c \<Longrightarrow> (tm_active (m_keepAliveTimer (sess c)) \<Longrightarrow> m_isKeepAlive (sess c') = m_isKeepAlive (sess c))
    \<Longrightarrow> conn_ok c' \<and> live c' = live c"
  by (auto simp: keeps_def conn_ok_def)

lemma server_ok_quiet:
  assumes "server_ok sv" "\<And>c. keeps c (f c)" "\<And>c. m_isKeepAlive (sess (f c)) = m_isKeepAlive (sess c)"
  shows "server_ok (upd_conn sid f sv)"
proof (rule server_ok_upd_conn [OF assms(1)])
  fix c
  assume "conns sv sid = Some c"
  then have "conn_ok c" using assms(1) by (simp add: server_ok_def)
  from conn_ok_keeps [OF assms(2) this assms(3)] show "conn_ok (f c) \<and> live (f c) = live c" .
qed

lemma conn_ok_recv_data:
  assumes "conn_ok c" "live c"
  shows "conn_ok (recv_data mhs env buf c) \<and> live (recv_data mhs env buf c) = live c"
proof -
  let ?c = "if m_isKeepAlive (sess c) then stopKeepAliveTimer c else c"
  have "conn_ok ?c" "live ?c = live c" "\<not> tm_active (m_keepAliveTimer (sess ?c))"
    using assms by (auto simp: conn_ok_def stopKeepAliveTimer_def upd_sess_def)
  with conn_ok_keeps [OF keeps_recv_data, of c mhs env buf] show ?thesis by simp
qed

lemma run_calls_isKeepAlive [simp]: "m_isKeepAlive (sess (run_calls it i calls c)) = m_isKeepAlive (sess c)"
proof -
  have r: "m_isKeepAlive (sess (run_call it i x d)) = m_isKeepAlive (sess d)" for x d
    by (cases x) (simp_all add: on_resp_def upd_resp_def Let_def)
  show ?thesis unfolding run_calls_def by (induction calls arbitrary: c) (simp_all add: r)
qed

lemma file_done_isKeepAlive [simp]: "m_isKeepAlive (sess (file_done it i fr c)) = m_isKeepAlive (sess c)"
  by (simp add: file_done_def upd_resp_def split: option.split reader_outcome.split)

lemma grow_buf_ge:
  assumes "grow_buf b s = Some r"
  shows "s \<le> r"
  by (rule grow_buf.raw_induct [where P = "\<lambda>b s r. s \<le> r", OF _ assms]) (auto simp: not_less split: if_splits)

lemma alloc_pos: "recv_alloc_cb len suggested = Some r \<Longrightarrow> len \<noteq> 0 \<Longrightarrow> r \<noteq> 0"
  using grow_buf_ge [of len suggested r]
  by (auto simp: recv_alloc_cb_def split: if_splits)

lemma server_ok_connect:
  assumes "server_ok sv" "conns sv sid = None"
  shows "server_ok (handle_connect sid peer sv)"
proof -
  let ?c = "(upd_req (set_ip peer) conn_init)\<lparr>reading := True\<rparr>"
  have c: "conn_ok ?c" "live ?c"
    by (simp_all add: conn_ok_def upd_req_def upd_sess_def conn_init_def Session_init_def HTTP_DEFAULT_RECV_BUF_SIZE_def)
  have "sid \<notin> set (m_sessions sv)" using assms by (auto simp: server_ok_def)
  moreover have "conns (handle_connect sid peer sv) = (conns sv)(sid \<mapsto> ?c)"
    "m_sessions (handle_connect sid peer sv) = pushSession sid (m_sessions sv)"
    by (simp_all add: handle_connect_def upd_conn_def Let_def)
  ultimately show ?thesis
    using assms c by (auto simp: server_ok_def http_reg.distinct_push http_reg.set_push)
qed

lemma server_ok_write_complete:
  assumes "server_ok sv"
  shows "server_ok (write_complete env sid status sv)"
proof -
  have "server_ok (upd_conn sid (\<lambda>c. c\<lparr>wq := q\<rparr>) sv)" for q
    using assms by (intro server_ok_upd_conn) (auto simp: conn_ok_def server_ok_def)
  then show ?thesis
    using assms by (auto simp: write_complete_def onWriteEnd_def Let_def server_ok_on_sent split: option.split list.split)
qed

lemma http_step_ok: "http_step mhs env sv sv' \<Longrightarrow> server_ok sv \<Longrightarrow> server_ok sv'"
proof (induction rule: http_step.induct)
  case (connected sv sid status accept_ret peer)
  then show ?case by (simp add: inter_on_connect_def server_ok_connect)
next
  case (received sv sid c suggested len ev)
  have ok: "conn_ok c" using received.hyps(2) received.prems by (simp add: server_ok_def)
  with received.hyps(3) have lv: "live c" by (auto simp: conn_ok_def split: if_splits)
  have "len \<noteq> 0" using alloc_pos [OF received.hyps(4)] ok lv by (simp add: conn_ok_def)
  then have a: "conn_ok (alloc_to len c)" "live (alloc_to len c)"
    using ok lv by (auto simp: conn_ok_def alloc_to_def upd_sess_def)
  let ?sv = "upd_conn sid (alloc_to len) sv"
  have sv: "server_ok ?sv" "conns ?sv sid = Some (alloc_to len c)"
    using a lv by - (rule server_ok_upd_conn [OF received.prems], simp_all add: upd_conn_def received.hyps(2))
  have cl: "server_ok (session_close sid (upd_conn sid stopKeepAliveTimer ?sv))"
  proof (rule server_ok_session_close)
    show "server_ok (upd_conn sid stopKeepAliveTimer ?sv)"
      by (rule server_ok_upd_conn [OF sv(1)])
        (use sv(2) a in \<open>auto simp: conn_ok_def stopKeepAliveTimer_def upd_sess_def split: if_splits\<close>)
    show "conns (upd_conn sid stopKeepAliveTimer ?sv) sid = Some (stopKeepAliveTimer (alloc_to len c))"
      using sv by (simp add: upd_conn_def)
  qed (use a in \<open>simp_all add: stopKeepAliveTimer_def upd_sess_def\<close>)
  show ?case
  proof (cases ev)
    case (Read_data buf)
    have "server_ok (upd_conn sid (recv_data mhs env buf) ?sv)"
      by (rule server_ok_upd_conn [OF sv(1)]) (use sv(2) conn_ok_recv_data [OF a] a in auto)
    with Read_data show ?thesis by simp
  qed (use cl in simp_all)
next
  case (written sv sid c status)
  then show ?case by (simp add: server_ok_write_complete)
next
  case (filed sv sid c i fr)
  then show ?case
    by (intro server_ok_quiet) (simp_all add: keeps_file_done)
next
  case (timeout sv sid c)
  have ok: "conn_ok c" using timeout.hyps(2) timeout.prems by (simp add: server_ok_def)
  let ?sv = "upd_conn sid expire sv"
  have "conn_ok (expire c)" "live (expire c)"
    using ok timeout.hyps(3) by (simp_all add: conn_ok_def expire_def upd_sess_def)
  then have sv: "server_ok ?sv" "conns ?sv sid = Some (expire c)"
    using timeout.hyps(3) by - (rule server_ok_upd_conn [OF timeout.prems], simp_all add: upd_conn_def timeout.hyps(2))
  have "server_ok (session_close sid ?sv)"
    by (rule server_ok_session_close [OF sv]) (simp_all add: expire_def upd_sess_def timeout.hyps(3))
  with sv show ?case by (simp add: keepAliveTimerCb_def)
next
  case (app sv sid c i calls)
  then show ?case
    by (intro server_ok_quiet) (simp_all add: keeps_run_calls)
qed

lemma http_reachable_ok: "http_reachable mhs env sv0 sv \<Longrightarrow> server_ok sv0 \<Longrightarrow> server_ok sv"
  by (induction rule: http_reachable.induct) (auto intro: http_step_ok)

definition server0 :: "(nat \<Rightarrow> Session \<Rightarrow> 'w \<Rightarrow> Session \<times> 'w) option \<Rightarrow> 'w \<Rightarrow> 'w HttpServer" where
  "server0 cb w = \<lparr>m_sessions = [], conns = Map.empty, m_running = True, onUpgradeCb = cb, ws_world = w,
                   terminated = False\<rparr>"

lemma server_ok_server0: "server_ok (server0 cb w)"
  by (simp add: server0_def server_ok_def)

text \<open>
  C7. The life of the sessions of a server, in every run (connections, received bytes and errors,
  completed writes and file reads, expired timers, calls by the application, in any order, for any
  handlers and any upgrade callback): the table lists exactly the sessions that exist, each once; a socket
  is read exactly while its session exists, so no read callback meets a destroyed session; the socket
  has been closed exactly once when its session is gone without an upgrade, and not at all before that
  or after an upgrade; and no keep-alive timer is running in a session that was closed.
\<close>

theorem http_sessions_invariant:
  assumes "http_reachable mhs env (server0 cb w) sv"
  shows "distinct (m_sessions sv) \<and> set (m_sessions sv) = {sid. \<exists>c. conns sv sid = Some c \<and> live c}
    \<and> (\<forall>sid c. conns sv sid = Some c \<longrightarrow>
         (reading c \<longleftrightarrow> live c) \<and> closes c = (if live c \<or> upgraded c then 0 else 1)
         \<and> (\<not> live c \<and> \<not> upgraded c \<longrightarrow> \<not> tm_active (m_keepAliveTimer (sess c))))"
proof -
  have "server_ok sv" using http_reachable_ok [OF assms server_ok_server0] .
  then show ?thesis by (auto simp: server_ok_def conn_ok_def split: if_splits)
qed

text \<open>
  C31. A read can always be allocated: for every socket that is read in a reachable state the loop of
  \<open>recv_alloc_cb\<close> ends, with a buffer that holds what libuv asks for (requests up to \<open>2\<^sup>6\<^sup>2\<close> bytes).
\<close>

theorem http_read_allocates:
  assumes "http_reachable mhs env (server0 cb w) sv" "conns sv sid = Some c" "reading c" "unat suggested \<le> 2 ^ 62"
  shows "\<exists>len. recv_alloc_cb (m_recvBuf (sess c)) suggested = Some len \<and> suggested \<le> len"
proof -
  have "server_ok sv" using http_reachable_ok [OF assms(1) server_ok_server0] .
  with assms(2,3) have "0 < unat (m_recvBuf (sess c))"
    by (auto simp: server_ok_def conn_ok_def unat_gt_0 split: if_splits)
  from grow_buf_total [OF this assms(4)] show ?thesis
    by (auto simp: recv_alloc_cb_def not_less)
qed

text \<open>A server to run: no routes, and the identity for OpenSSL and the header order.\<close>

definition plain_env :: "unit http_env" where
  "plain_env = \<lparr>m_router = Map.empty, rx_match = (\<lambda>_ _. None), hdr_order = id, sha1_of = (\<lambda>m. take 20 (m @ replicate 20 0)),
     bio_of = (\<lambda>bs. Some (base64 bs)), m_keepAliveTimeout = HTTP_DEFAULT_KEEP_ALIVE_TIMEOUT\<rparr>"

lemma one_connection:
  "http_reachable mhs env (server0 cb w) (handle_connect 7 (Peer_Ip4 [49] 80) (server0 cb w))"
  using http_next [OF http_start connected [of "server0 cb w" 7 mhs env 0 0 "Peer_Ip4 [49] 80"]]
  by (simp add: server0_def inter_on_connect_def)

theorem http_sessions_invariant_witness:
  "distinct (m_sessions (handle_connect 7 (Peer_Ip4 [49] 80) (server0 None ())))
   \<and> set (m_sessions (handle_connect 7 (Peer_Ip4 [49] 80) (server0 None ()))) = {7}"
  using http_sessions_invariant [OF one_connection [where cb = None and w = "()" and env = plain_env and mhs = HTTP_MAX_HEADER_SIZE]]
  by (simp add: handle_connect_def upd_conn_def upd_req_def upd_sess_def conn_init_def server0_def pushSession_def Let_def)

theorem http_read_allocates_witness:
  "\<exists>len. recv_alloc_cb HTTP_DEFAULT_RECV_BUF_SIZE 65536 = Some len \<and> 65536 \<le> len"
proof -
  let ?sv = "handle_connect 7 (Peer_Ip4 [49] 80) (server0 None ())"
  have "conns ?sv 7 = Some ((upd_req (set_ip (Peer_Ip4 [49] 80)) conn_init)\<lparr>reading := True\<rparr>)"
    by (simp add: handle_connect_def upd_conn_def Let_def)
  from http_read_allocates [OF one_connection [where cb = None and w = "()" and env = plain_env and mhs = HTTP_MAX_HEADER_SIZE] this, of 65536]
  show ?thesis by (simp add: upd_req_def upd_sess_def conn_init_def Session_init_def)
qed

section \<open>Requests that are assembled from events\<close>

text \<open>The headers of a request, as the code stores them: by lower-case name, the first value of a name.\<close>

definition stored_headers :: "(bytes \<times> bytes) list \<Rightarrow> HttpParamMap" where
  "stored_headers hs = map_of (map (\<lambda>(k, v). (map tolower k, v)) hs)"

definition request_of :: "http_method \<Rightarrow> u16 \<Rightarrow> u16 \<Rightarrow> bytes \<Rightarrow> (bytes \<times> bytes) list \<Rightarrow> bytes \<Rightarrow> httpReq \<Rightarrow> httpReq" where
  "request_of m major minor u hs b req =
     req\<lparr>is_queryParams_parsed := False, url := u, headers := stored_headers hs, rmethod := m,
         version := to_string (unat major) @ bstr ''.'' @ to_string (unat minor), body := b\<rparr>"

text \<open>New entries behind the ones that are there.\<close>

definition add_headers :: "HttpParamMap \<Rightarrow> HttpParamMap \<Rightarrow> HttpParamMap" where
  "add_headers m M = (\<lambda>k. case m k of None \<Rightarrow> M k | Some v \<Rightarrow> Some v)"

lemma add_headers_simps:
  "add_headers m Map.empty = m" "add_headers Map.empty M = M"
  "add_headers (map_insert k v m) M = add_headers m (M(k \<mapsto> v))"
  by (auto simp: add_headers_def map_insert_def fun_eq_iff split: option.split)

lemma fold_header_events:
  "fold (on_event env) (header_events hs) c =
     upd_sess (\<lambda>s. s\<lparr>m_tmpKey := (if hs = [] then m_tmpKey s else map tolower (fst (last hs))),
        m_req := (m_req s)\<lparr>headers := add_headers (headers (m_req s)) (stored_headers hs)\<rparr>\<rparr>) c"
proof (induction hs arbitrary: c)
  case Nil
  show ?case by (simp add: header_events_def stored_headers_def upd_sess_def add_headers_simps)
next
  case (Cons kv hs)
  obtain k v where kv: "kv = (k, v)" by (cases kv)
  have ev: "on_event env (Ev_Value v) (on_event env (Ev_Field k) c) =
      upd_sess (\<lambda>s. s\<lparr>m_tmpKey := map tolower k,
         m_req := (m_req s)\<lparr>headers := map_insert (map tolower k) v (headers (m_req s))\<rparr>\<rparr>) c"
    by (simp add: onReqHeaderField_def onReqHeaderValue_def upd_req_def upd_sess_def)
  have run: "fold (on_event env) (header_events (kv # hs)) c =
      fold (on_event env) (header_events hs) (on_event env (Ev_Value v) (on_event env (Ev_Field k) c))"
    by (simp add: header_events_def kv)
  have st: "stored_headers (kv # hs) = (stored_headers hs)(map tolower k \<mapsto> v)"
    by (simp add: stored_headers_def kv)
  show ?case
    unfolding run ev st Cons.IH by (simp add: kv upd_sess_def add_headers_simps del: fun_upd_apply)
qed

lemma fold_body_events:
  "fold (on_event env) (map Ev_Body bs) c = upd_req (\<lambda>r. r\<lparr>body := body r @ concat bs\<rparr>) c"
  by (induction bs arbitrary: c) (simp_all add: onReqBody_def upd_req_def upd_sess_def)

lemma fold_message:
  "fold (on_event env) ([Ev_Begin, Ev_Url u] @ header_events hs @ [Ev_Headers m major minor] @ map Ev_Body bs @ [Ev_Complete upg]) c
   = handle_request env upg
       (upd_sess (\<lambda>s. s\<lparr>m_tmpKey := (if hs = [] then m_tmpKey s else map tolower (fst (last hs))),
                        m_req := request_of m major minor u hs (concat bs) (m_req s)\<rparr>) c)"
  by (simp add: fold_header_events fold_body_events onReqMessageBegin_def onReqURL_def onReqHeaderComplete_def
      upd_req_def upd_sess_def request_of_def add_headers_simps)

text \<open>
  C29. What the handler is given: when the parser reports a message (its target in one piece, its header
  fields as pairs of a name and a value, its version and method, and its body in any number of pieces),
  the session dispatches a request with exactly that target, method and version, with the headers under
  their lower-case names (the first of several equal names), with the pieces of the body joined, and with
  nothing left of the request before it but its parameters.
\<close>

theorem request_assembled:
  "fold (on_event env) ([Ev_Begin, Ev_Url u] @ header_events hs @ [Ev_Headers m major minor] @ map Ev_Body bs @ [Ev_Complete upg]) c
   = handle_request env upg
       (upd_sess (\<lambda>s. s\<lparr>m_tmpKey := (if hs = [] then m_tmpKey s else map tolower (fst (last hs))),
                        m_req := request_of m major minor u hs (concat bs) (m_req s)\<rparr>) c)"
  by (rule fold_message)

end
