(* ===== verification/Hp_Names.thy ===== *)
theory Hp_Names
  imports Hp_Request
begin

text \<open>
  The two inner loops of the header states on well-formed input: which header a field name is recognised
  as, and how a value is read. They are the parts of \<open>http_parser_execute\<close> that look at several bytes in
  one pass.
\<close>

section \<open>Field names\<close>

text \<open>The recognised names, and the state the automaton has after the (lower-case) prefix \<open>w\<close>.\<close>

definition prefix_of :: "bytes \<Rightarrow> bytes \<Rightarrow> bool" where
  "prefix_of w s \<longleftrightarrow> take (length w) s = w"

definition name_state :: "bytes \<Rightarrow> header_states" where
  "name_state w =
     (if w = CONNECTION \<or> w = PROXY_CONNECTION then h_connection
      else if w = CONTENT_LENGTH then h_content_length
      else if w = TRANSFER_ENCODING then h_transfer_encoding
      else if w = UPGRADE then h_upgrade
      else if w = take 1 CONNECTION then h_C
      else if w = take 2 CONNECTION then h_CO
      else if w = take 3 CONNECTION then h_CON
      else if prefix_of w CONNECTION then h_matching_connection
      else if prefix_of w PROXY_CONNECTION then h_matching_proxy_connection
      else if prefix_of w CONTENT_LENGTH then h_matching_content_length
      else if prefix_of w TRANSFER_ENCODING then h_matching_transfer_encoding
      else if prefix_of w UPGRADE then h_matching_upgrade
      else h_general)"

definition name_prefixes :: "bytes list" where
  "name_prefixes = concat (map (\<lambda>s. map (\<lambda>i. take (Suc i) s) [0..<length s])
     [CONNECTION, PROXY_CONNECTION, CONTENT_LENGTH, TRANSFER_ENCODING, UPGRADE])"

lemmas name_defs = CONNECTION_def PROXY_CONNECTION_def CONTENT_LENGTH_def TRANSFER_ENCODING_def UPGRADE_def

lemma prefix_in:
  assumes "prefix_of w s" "w \<noteq> []"
  shows "w \<in> set (map (\<lambda>i. take (Suc i) s) [0..<length s])"
proof -
  have "length w \<le> length s" using assms(1) unfolding prefix_of_def by (metis length_take min.cobounded1)
  then have len: "length w - 1 < length s" using assms(2) by (cases w) auto
  have "w = take (Suc (length w - 1)) s" using assms by (simp add: prefix_of_def)
  then show ?thesis unfolding set_map by (rule image_eqI) (use len in simp)
qed

lemma name_state_prefix:
  assumes "name_state w \<noteq> h_general" "w \<noteq> []"
  shows "w \<in> set name_prefixes"
proof -
  have "w \<in> set (map (\<lambda>i. take (Suc i) CONNECTION) [0..<length CONNECTION])
    \<or> w \<in> set (map (\<lambda>i. take (Suc i) PROXY_CONNECTION) [0..<length PROXY_CONNECTION])
    \<or> w \<in> set (map (\<lambda>i. take (Suc i) CONTENT_LENGTH) [0..<length CONTENT_LENGTH])
    \<or> w \<in> set (map (\<lambda>i. take (Suc i) TRANSFER_ENCODING) [0..<length TRANSFER_ENCODING])
    \<or> w \<in> set (map (\<lambda>i. take (Suc i) UPGRADE) [0..<length UPGRADE])"
    using assms by (auto simp: name_state_def prefix_of_def split: if_splits
        simp del: set_map set_upt intro!: prefix_in [unfolded prefix_of_def])
  then show ?thesis unfolding name_prefixes_def by auto
qed

text \<open>What a header line leaves alone in the parser.\<close>

definition same_head :: "http_parser \<Rightarrow> http_parser \<Rightarrow> bool" where
  "same_head h h' \<longleftrightarrow> http_errno h' = http_errno h \<and> ptype h' = ptype h \<and> pmethod h' = pmethod h
     \<and> content_length h' = content_length h \<and> http_major h' = http_major h \<and> http_minor h' = http_minor h
     \<and> lenient_http_headers h' = lenient_http_headers h \<and> uses_transfer_encoding h' = uses_transfer_encoding h"

lemma same_head_refl [simp]: "same_head h h"
  by (simp add: same_head_def)

lemma same_head_trans [trans]: "same_head h h1 \<Longrightarrow> same_head h1 h2 \<Longrightarrow> same_head h h2"
  by (simp add: same_head_def)

definition name_step :: "bytes \<Rightarrow> bool" where
  "name_step w \<longleftrightarrow> (\<forall>ch c h. c \<noteq> 0 \<longrightarrow> ch \<noteq> 32 \<longrightarrow> header_state h = name_state w
     \<longrightarrow> unat (index h) = length w - 1 \<longrightarrow> w @ [c] \<noteq> TRANSFER_ENCODING \<longrightarrow>
     (\<exists>h'. hf_char ch c h = Some h' \<and> header_state h' = name_state (w @ [c])
        \<and> (name_state (w @ [c]) \<noteq> h_general \<longrightarrow> unat (index h') = length w)
        \<and> flags h' = flags h \<and> same_head h h'))"

lemmas name_step_simps = upt_rec name_step_def name_state_def name_defs prefix_of_def hf_char_def
  same_head_def index_Suc match_next_def match_step_def cstr_at_def hf_matching_transfer_encoding_def Let_def

lemma name_steps_connection: "list_all name_step (map (\<lambda>i. take (Suc i) CONNECTION) [0..<10])"
  by (simp add: name_step_simps)

lemma name_steps_proxy: "list_all name_step (map (\<lambda>i. take (Suc i) PROXY_CONNECTION) [0..<16])"
  by (simp add: name_step_simps)

lemma name_steps_length: "list_all name_step (map (\<lambda>i. take (Suc i) CONTENT_LENGTH) [0..<14])"
  by (simp add: name_step_simps)

lemma name_steps_encoding: "list_all name_step (map (\<lambda>i. take (Suc i) TRANSFER_ENCODING) [0..<16])"
  by (simp add: name_step_simps)

lemma name_steps_upgrade: "list_all name_step (map (\<lambda>i. take (Suc i) UPGRADE) [0..<7])"
  by (simp add: name_step_simps)

lemmas name_steps_of = name_steps_connection name_steps_proxy name_steps_length name_steps_encoding name_steps_upgrade

lemma name_step:
  assumes "name_state w \<noteq> h_general" "w \<noteq> []" "w \<noteq> TRANSFER_ENCODING"
  shows "name_step w"
proof -
  have "w \<in> set name_prefixes" using assms(1,2) by (rule name_state_prefix)
  moreover have "[0..<length CONNECTION] = [0..<10]" "[0..<length PROXY_CONNECTION] = [0..<16]"
    "[0..<length CONTENT_LENGTH] = [0..<14]" "[0..<length UPGRADE] = [0..<7]"
    "[0..<length TRANSFER_ENCODING] = [0..<16] @ [16]"
    by (simp_all add: name_defs upt_rec)
  moreover have "take (Suc 16) TRANSFER_ENCODING = TRANSFER_ENCODING" by (simp add: name_defs)
  ultimately have "w \<in> set (map (\<lambda>i. take (Suc i) CONNECTION) [0..<10])
    \<or> w \<in> set (map (\<lambda>i. take (Suc i) PROXY_CONNECTION) [0..<16])
    \<or> w \<in> set (map (\<lambda>i. take (Suc i) CONTENT_LENGTH) [0..<14])
    \<or> w \<in> set (map (\<lambda>i. take (Suc i) TRANSFER_ENCODING) [0..<16])
    \<or> w \<in> set (map (\<lambda>i. take (Suc i) UPGRADE) [0..<7])"
    using assms(3) unfolding name_prefixes_def by auto
  with name_steps_of show ?thesis unfolding list_all_iff by blast
qed

lemma name_state_extend: "name_state w = h_general \<Longrightarrow> w \<noteq> [] \<Longrightarrow> name_state (w @ cs) = h_general"
proof -
  assume g: "name_state w = h_general" "w \<noteq> []"
  have no: "\<not> prefix_of w s" if "s \<in> {CONNECTION, PROXY_CONNECTION, CONTENT_LENGTH, TRANSFER_ENCODING, UPGRADE}" for s
    using g that by (auto simp: name_state_def split: if_splits)
  have p: "prefix_of w s" if "prefix_of (w @ cs) s" for s
  proof -
    have "take (length w + length cs) s = w @ cs" using that by (simp add: prefix_of_def)
    then have "take (length w) (take (length w + length cs) s) = w" by simp
    then show ?thesis by (simp add: prefix_of_def)
  qed
  have self: "prefix_of s s" "prefix_of (take n s) s" for s n by (simp_all add: prefix_of_def)
  have q: "\<not> prefix_of (w @ cs) s" if "s \<in> {CONNECTION, PROXY_CONNECTION, CONTENT_LENGTH, TRANSFER_ENCODING, UPGRADE}" for s
    using no [OF that] p by blast
  have "w @ cs \<noteq> s" "w @ cs \<noteq> take n s"
    if "s \<in> {CONNECTION, PROXY_CONNECTION, CONTENT_LENGTH, TRANSFER_ENCODING, UPGRADE}" for s n
    using q [OF that] self by metis+
  with q show ?thesis unfolding name_state_def by (simp only: insertI1 insertI2 if_False HOL.simp_thms)
qed

end
