(* ===== verification/Hp_Fields.thy ===== *)
theory Hp_Fields
  imports Hp_Names
begin

text \<open>
  The two inner loops of the header states on whole names and values, and from them the parse of a header
  line: which callbacks it runs and which flags it leaves.
\<close>

section \<open>Names\<close>

text \<open>
  The loop over a name up to its colon: the automaton's state is that of the lower-case name. A name
  that begins with \<open>transfer-encoding\<close> is excluded, because recognising it sets a flag.
\<close>

definition field_name :: "bytes \<Rightarrow> bool" where
  "field_name k \<longleftrightarrow> k \<noteq> [] \<and> (\<forall>b \<in> set k. TOKEN b \<noteq> 0) \<and> take 17 (map TOKEN k) \<noteq> TRANSFER_ENCODING"

lemma TOKEN_colon [simp]: "TOKEN 58 = 0"
  by (simp add: TOKEN_def STRICT_TOKEN_def tokens_def)

lemma TOKEN_space: "TOKEN ch \<noteq> 0 \<Longrightarrow> ch \<noteq> 32"
  by (auto simp: TOKEN_def STRICT_TOKEN_def)

lemma token_run_name:
  assumes "\<forall>b \<in> set cs. TOKEN b \<noteq> 0" "length cs < w"
  shows "token_run w (cs @ 58 # xs) = length cs"
proof -
  have "take (w - 1) (cs @ 58 # xs) = cs @ take (w - 1 - length cs) (58 # xs)" using assms(2) by simp
  moreover have "takeWhile (\<lambda>b. TOKEN b \<noteq> 0) (cs @ take (w - 1 - length cs) (58 # xs)) = cs"
    using assms(1) by (cases "w - 1 - length cs") (simp_all add: takeWhile_append)
  ultimately show ?thesis by (simp add: token_run_def)
qed

lemma hf_loop_name:
  assumes "\<forall>b \<in> set cs. TOKEN b \<noteq> 0" "length cs < mhs" "header_state h = name_state w" "w \<noteq> []"
    "name_state w \<noteq> h_general \<Longrightarrow> unat (index h) = length w - 1"
    "take 17 (w @ map TOKEN cs) \<noteq> TRANSFER_ENCODING"
  shows "\<exists>h'. hf_loop mhs (cs @ 58 # xs) h = Some (58 # xs, h') \<and> header_state h' = name_state (w @ map TOKEN cs)
    \<and> flags h' = flags h \<and> same_head h h'"
  using assms
proof (induction cs arbitrary: w h)
  case Nil
  then show ?case by simp
next
  case (Cons ch cs)
  have ch: "TOKEN ch \<noteq> 0" using Cons.prems(1) by simp
  show ?case
  proof (cases "name_state w = h_general")
    case True
    have "token_run (min (length (ch # cs @ 58 # xs)) mhs) (cs @ 58 # xs) = length cs"
      using Cons.prems(1,2) by (intro token_run_name) auto
    with ch True Cons.prems(3,4) show ?thesis
      by (simp add: name_state_extend [OF True])
  next
    case False
    have te: "take 17 (w @ TOKEN ch # map TOKEN cs) \<noteq> TRANSFER_ENCODING" using Cons.prems(6) by simp
    have ne: "w \<noteq> TRANSFER_ENCODING" "w @ [TOKEN ch] \<noteq> TRANSFER_ENCODING"
      using te by (auto simp: name_defs)
    have "name_step w" using False Cons.prems(4) ne(1) by (rule name_step)
    from this [unfolded name_step_def, rule_format, OF ch TOKEN_space [OF ch] Cons.prems(3) Cons.prems(5) [OF False] ne(2)]
    obtain h1 where h1: "hf_char ch (TOKEN ch) h = Some h1" "header_state h1 = name_state (w @ [TOKEN ch])"
      "name_state (w @ [TOKEN ch]) \<noteq> h_general \<longrightarrow> unat (index h1) = length w" "flags h1 = flags h" "same_head h h1"
      by blast
    from Cons.IH [of h1 "w @ [TOKEN ch]"] obtain h' where
      "hf_loop mhs (cs @ 58 # xs) h1 = Some (58 # xs, h')" "header_state h' = name_state (w @ TOKEN ch # map TOKEN cs)"
      "flags h' = flags h1" "same_head h1 h'"
      using Cons.prems(1,2) h1 te by auto
    with h1 ch False Cons.prems(3) same_head_trans [OF h1(5)] show ?thesis by auto
  qed
qed

section \<open>Values\<close>

unbundle bit_operations_syntax

lemma value_char_False: "value_char False b \<Longrightarrow> b \<noteq> 13 \<and> b \<noteq> 10 \<and> IS_HEADER_CHAR b \<and> value_char len b"
  by (simp add: value_char_def)

lemma hv_loop_general:
  assumes "\<forall>b \<in> set vs. value_char False b" "length vs < mhs"
  shows "hv_loop len mhs (vs @ 13 # xs) h_general h = Hv_Stop (13 # xs) h_general h"
proof (cases vs)
  case Nil
  then show ?thesis by simp
next
  case (Cons ch vs')
  let ?w = "min (length (ch # vs' @ 13 # xs)) mhs"
  have gt: "length vs' < ?w - 1" using assms(2) Cons by (auto simp: min_def)
  then obtain j where "?w - 1 = length vs' + Suc j" using less_iff_Suc_add [of "length vs'" "?w - 1"] by auto
  then have "take (?w - 1) (vs' @ 13 # xs) = vs' @ 13 # take j xs" by simp
  moreover have "takeWhile (value_char len) (vs' @ 13 # ys) = vs'" for ys
    using assms(1) Cons value_char_False by (subst takeWhile_append2) (auto simp: value_char_def [of len 13])
  ultimately have "value_run len ?w (vs' @ 13 # xs) = length vs'" by (simp add: value_run_def)
  moreover have "length vs' \<noteq> ?w - 1" using gt by simp
  moreover have "ch \<noteq> 13" "ch \<noteq> 10" "IS_HEADER_CHAR ch" using assms(1) Cons value_char_False by auto
  ultimately show ?thesis
    by (simp add: Cons Let_def)
qed

text \<open>The states and flags of the automaton for the value of \<open>Connection\<close>.\<close>

definition conn_states :: "header_states set" where
  "conn_states = {h_general, h_matching_connection_token_start, h_matching_connection_keep_alive,
     h_matching_connection_close, h_matching_connection_upgrade, h_matching_connection_token,
     h_connection_keep_alive, h_connection_close, h_connection_upgrade}"

definition conn_flags :: "http_parser \<Rightarrow> http_parser \<Rightarrow> bool" where
  "conn_flags h h' \<longleftrightarrow>
     (\<forall>f \<in> {F_CHUNKED, F_TRAILING, F_UPGRADE, F_SKIPBODY, F_CONTENTLENGTH}. has_flag h' f = has_flag h f)
     \<and> (has_flag h F_CONNECTION_UPGRADE \<longrightarrow> has_flag h' F_CONNECTION_UPGRADE)"

lemma conn_flags_refl [simp]: "conn_flags h h"
  by (simp add: conn_flags_def)

lemma conn_flags_trans: "conn_flags h h1 \<Longrightarrow> conn_flags h1 h2 \<Longrightarrow> conn_flags h h2"
  by (simp add: conn_flags_def)

lemmas flag_defs = F_CHUNKED_def F_CONNECTION_KEEP_ALIVE_def F_CONNECTION_CLOSE_def F_CONNECTION_UPGRADE_def
  F_TRAILING_def F_UPGRADE_def F_SKIPBODY_def F_CONTENTLENGTH_def

lemma has_set_flag: "has_flag (set_flag f h) g \<longleftrightarrow> has_flag h g \<or> f AND g \<noteq> 0"
  by (simp add: has_flag_def set_flag_def bit.conj_disj_distrib2 or_eq_0_iff)

lemma set_flag_conn:
  "f \<in> {F_CONNECTION_KEEP_ALIVE, F_CONNECTION_CLOSE, F_CONNECTION_UPGRADE} \<Longrightarrow> conn_flags h (set_flag f h)"
  by (auto simp: conn_flags_def has_set_flag) (simp_all add: flag_defs)

lemma conn_flags_index [simp]:
  "conn_flags h (h'\<lparr>index := i\<rparr>) = conn_flags h h'" "conn_flags h (h'\<lparr>header_state := hs\<rparr>) = conn_flags h h'"
  "same_head h (h'\<lparr>index := i\<rparr>) = same_head h h'" "same_head h (h'\<lparr>header_state := hs\<rparr>) = same_head h h'"
  "same_head h (set_flag f h') = same_head h h'"
  by (simp_all add: conn_flags_def has_flag_def same_head_def set_flag_def)

lemma hv_match_conn:
  assumes "other \<in> conn_states" "found \<in> conn_states" "hs \<in> conn_states"
  shows "\<exists>hs' h'. hv_match s c other found hs h = Hv_Next hs' h' \<and> hs' \<in> conn_states \<and> same_head h h' \<and> conn_flags h h'"
  using assms by (simp add: hv_match_def match_step_def Let_def)

lemma hv_char_conn:
  assumes "hs \<in> conn_states" "hs \<noteq> h_general"
  shows "\<exists>hs' h'. hv_char ch hs h = Hv_Next hs' h' \<and> hs' \<in> conn_states \<and> same_head h h' \<and> conn_flags h h'"
proof -
  let ?G = "\<lambda>r. \<exists>hs' h'. r = Hv_Next hs' h' \<and> hs' \<in> conn_states \<and> same_head h h' \<and> conn_flags h h'"
  have m: "?G (hv_match s c h_matching_connection_token found hs h)" if "found \<in> conn_states" for s c found
    using that assms(1) by (intro hv_match_conn) (simp_all add: conn_states_def)
  have l: "?G (hv_list_token ch h_matching_connection_token_start hs h)"
    using assms(1) by (simp add: hv_list_token_def conn_states_def)
  have t: "hv_connection_token_start c \<in> conn_states" for c
    by (simp add: hv_connection_token_start_def conn_states_def)
  have o: "?G (hv_connection_option ch hs h)"
    using assms(1) by (simp add: hv_connection_option_def set_flag_conn) (simp add: conn_states_def)
  consider "hs = h_matching_connection_token_start" | "hs = h_matching_connection_keep_alive"
    | "hs = h_matching_connection_close" | "hs = h_matching_connection_upgrade" | "hs = h_matching_connection_token"
    | "hs \<in> {h_connection_keep_alive, h_connection_close, h_connection_upgrade}"
    using assms by (auto simp: conn_states_def)
  then show ?thesis
  proof cases
    case 1
    with t show ?thesis by (simp add: hv_char_def)
  next
    case 2
    with m [of h_connection_keep_alive] show ?thesis by (simp add: hv_char_def conn_states_def Let_def)
  next
    case 3
    with m [of h_connection_close] show ?thesis by (simp add: hv_char_def conn_states_def Let_def)
  next
    case 4
    with m [of h_connection_upgrade] show ?thesis by (simp add: hv_char_def conn_states_def Let_def)
  next
    case 5
    with l show ?thesis by (simp add: hv_char_def)
  next
    case 6
    then have "hv_char ch hs h = hv_connection_option ch hs h" by (auto simp: hv_char_def Let_def)
    with o show ?thesis by simp
  qed
qed

lemma hv_loop_conn:
  assumes "\<forall>b \<in> set vs. value_char False b" "length vs < mhs" "hs \<in> conn_states"
  shows "\<exists>hs' h'. hv_loop len mhs (vs @ 13 # xs) hs h = Hv_Stop (13 # xs) hs' h' \<and> hs' \<in> conn_states
    \<and> same_head h h' \<and> conn_flags h h'"
  using assms
proof (induction vs arbitrary: hs h)
  case Nil
  then show ?case by simp
next
  case (Cons ch vs)
  show ?case
  proof (cases "hs = h_general")
    case True
    with hv_loop_general [OF Cons.prems(1,2), of len xs h] show ?thesis by (simp add: conn_states_def)
  next
    case False
    from hv_char_conn [OF Cons.prems(3) False, of ch h] obtain hs1 h1 where h1: "hv_char ch hs h = Hv_Next hs1 h1"
      "hs1 \<in> conn_states" "same_head h h1" "conn_flags h h1" by blast
    from Cons.IH [OF _ _ h1(2), of h1] Cons.prems(1,2) obtain hs' h' where
      "hv_loop len mhs (vs @ 13 # xs) hs1 h1 = Hv_Stop (13 # xs) hs' h'" "hs' \<in> conn_states" "same_head h1 h'"
      "conn_flags h1 h'" by auto
    moreover have "ch \<noteq> 13" "ch \<noteq> 10" "IS_HEADER_CHAR ch" using Cons.prems(1) value_char_False by auto
    ultimately show ?thesis
      using h1 False same_head_trans [OF h1(3)] conn_flags_trans [OF h1(4)] by auto
  qed
qed

text \<open>The values \<open>Upgrade\<close> and \<open>keep-alive\<close>, in any case: the automaton recognises the word and sets no flag.\<close>

definition conn_words :: "(bytes \<times> header_states \<times> header_states) list" where
  "conn_words = [(UPGRADE, h_matching_connection_upgrade, h_connection_upgrade),
                 (KEEP_ALIVE, h_matching_connection_keep_alive, h_connection_keep_alive)]"

lemma hv_char_word:
  assumes "(S, m, f) \<in> set conn_words"
  shows "hv_char ch m h = hv_match S (LOWER ch) h_matching_connection_token f m h"
    and "length S \<le> 10" "m \<noteq> h_general" "f \<noteq> m" "2 \<le> length S"
  using assms by (auto simp: conn_words_def hv_char_def Let_def UPGRADE_def KEEP_ALIVE_def)

lemma hv_loop_word:
  assumes "(S, m, f) \<in> set conn_words" "\<forall>b \<in> set us. value_char False b" "map LOWER us = drop (Suc n) S"
    "unat (index h) = n" "Suc n < length S"
  shows "\<exists>h'. hv_loop len mhs (us @ 13 # xs) m h = Hv_Stop (13 # xs) f h' \<and> same_head h h' \<and> flags h' = flags h"
  using assms(2-)
proof (induction us arbitrary: n h)
  case Nil
  then show ?case by simp
next
  case (Cons ch us)
  have ch: "ch \<noteq> 13" "ch \<noteq> 10" "IS_HEADER_CHAR ch" using Cons.prems(1) value_char_False by auto
  have dS: "drop (Suc n) S = S ! Suc n # drop (Suc (Suc n)) S" using Cons.prems(4) by (simp add: Cons_nth_drop_Suc)
  then have n: "S ! Suc n = LOWER ch" "map LOWER us = drop (Suc (Suc n)) S" using Cons.prems(2) by simp_all
  have i: "unat (index h + 1) = Suc n"
    using Cons.prems(3,4) hv_char_word(2) [OF assms(1)] by (simp add: index_Suc)
  let ?h = "h\<lparr>index := index h + 1\<rparr>"
  have c: "hv_char ch m h = Hv_Next (if Suc n = length S - 1 then f else m) ?h"
    using n(1) i Cons.prems(4) by (simp add: hv_char_word(1) [OF assms(1)] hv_match_def match_step_def cstr_at_def)
  show ?case
  proof (cases "Suc n = length S - 1")
    case True
    then have "us = []" using n(2) by simp
    with ch c True hv_char_word(3) [OF assms(1)] show ?thesis by (intro exI [of _ ?h]) simp
  next
    case False
    then have "Suc (Suc n) < length S" using Cons.prems(4) by simp
    from Cons.IH [OF _ n(2) _ this, of ?h] Cons.prems(1) i obtain h' where
      "hv_loop len mhs (us @ 13 # xs) m ?h = Hv_Stop (13 # xs) f h'" "same_head ?h h'" "flags h' = flags ?h" by auto
    with ch c False hv_char_word(3) [OF assms(1)] show ?thesis
      by (intro exI [of _ h']) (simp add: same_head_def)
  qed
qed

end
