(* ===== verification/Hp_Message.thy ===== *)
theory Hp_Message
  imports Hp_Fields Hp_Sim
begin

text \<open>
  A whole request: the events \<open>http_parser_execute\<close> reports for a method, a target, any number of header
  lines and the empty line, and where it stops.
\<close>

unbundle bit_operations_syntax

section \<open>One header line\<close>

definition value_ok :: "bytes \<Rightarrow> bool" where
  "value_ok v \<longleftrightarrow> v \<noteq> [] \<and> (\<forall>b \<in> set v. value_char False b) \<and> hd v \<noteq> 32 \<and> hd v \<noteq> 9"

definition header_ok :: "bytes \<times> bytes \<Rightarrow> bool" where
  "header_ok kv \<longleftrightarrow> field_name (fst kv) \<and> map TOKEN (fst kv) \<noteq> CONTENT_LENGTH \<and> value_ok (snd kv)"

definition line_text :: "bytes \<times> bytes \<Rightarrow> bytes" where
  "line_text kv = fst kv @ [58, 32] @ snd kv @ [13, 10]"

text \<open>
  The flags after a line: \<open>Upgrade\<close> sets one, \<open>Connection: Upgrade\<close> another, no line the framing ones, and
  only the connection lines the one for \<open>close\<close>.
\<close>

definition stays_open :: "bytes \<times> bytes \<Rightarrow> bool" where
  "stays_open kv \<longleftrightarrow> map TOKEN (fst kv) \<notin> {CONNECTION, PROXY_CONNECTION} \<or> map LOWER (snd kv) \<in> {UPGRADE, KEEP_ALIVE}"

definition line_flags :: "bytes \<times> bytes \<Rightarrow> http_parser \<Rightarrow> http_parser \<Rightarrow> bool" where
  "line_flags kv h h' \<longleftrightarrow>
     (\<forall>f \<in> {F_CHUNKED, F_TRAILING, F_SKIPBODY, F_CONTENTLENGTH}. has_flag h' f = has_flag h f)
     \<and> (has_flag h' F_UPGRADE \<longleftrightarrow> has_flag h F_UPGRADE \<or> map TOKEN (fst kv) = UPGRADE)
     \<and> (has_flag h F_CONNECTION_UPGRADE \<or> (map TOKEN (fst kv) = CONNECTION \<and> map LOWER (snd kv) = UPGRADE)
          \<longrightarrow> has_flag h' F_CONNECTION_UPGRADE)
     \<and> (stays_open kv \<longrightarrow> has_flag h' F_CONNECTION_CLOSE = has_flag h F_CONNECTION_CLOSE)"

lemma field_start_state: "field_start_state t = name_state [t]"
  by (simp add: field_start_state_def name_state_def name_defs prefix_of_def)

lemma TOKEN_line_end [simp]: "TOKEN 13 = 0" "TOKEN 10 = 0" "TOKEN 32 = 0" "TOKEN 9 = 0"
  by (simp_all add: TOKEN_def STRICT_TOKEN_def tokens_def)

lemma loop_field_start:
  assumes "at e p (k0 # xs)" "TOKEN k0 \<noteq> 0" "p_state c = s_header_field_start" "room e c 1" "marks c = (\<lambda>_. None)"
  shows "ex_loop e p c = ex_loop e (Suc p) (c\<lparr>cnt := cnt c + 1, marks := [header_field_mark \<mapsto> p],
     p_state := s_header_field, hp := (hp c)\<lparr>index := 0, header_state := name_state [TOKEN k0]\<rparr>\<rparr>)"
proof -
  have "k0 \<noteq> 13" "k0 \<noteq> 10" using assms(2) by auto
  with assms show ?thesis
    by (intro loop_header_byte)
      (simp_all add: switch_simps ex_header_field_start_def at_Cons(2) [OF assms(1)] UPDATE_STATE_def upd_hp_def
        MARK_def field_start_state)
qed

lemma loop_field:
  assumes "at e p (cs @ 58 # xs)" "\<forall>b \<in> set cs. TOKEN b \<noteq> 0" "p_state c = s_header_field"
    "marks c = [header_field_mark \<mapsto> s]" "room e c (length cs + 1)" "http_errno (hp c) = HPE_OK"
    "header_state (hp c) = name_state [w]" "index (hp c) = 0" "take 17 (w # map TOKEN cs) \<noteq> TRANSFER_ENCODING"
    "settings e = settings_of ev"
  obtains c' where "ex_loop e p c = ex_loop e (p + length cs + 1) c'" "p_state c' = s_header_value_discard_ws"
    "marks c' = (\<lambda>_. None)" "app c' = ev (Ev_Field (take (p + length cs - s) (drop s (input e)))) (app c)"
    "header_state (hp c') = name_state (w # map TOKEN cs)" "flags (hp c') = flags (hp c)" "same_head (hp c) (hp c')"
    "unat (cnt c') = unat (cnt c) + length cs + 1"
proof -
  let ?mhs = "unat (max_header_size e)" and ?c1 = "c\<lparr>cnt := cnt c + 1\<rparr>" and ?q = "p + length cs"
  have d: "drop p (input e) = cs @ 58 # xs" "p + length cs + 1 + length xs = length (input e)"
  proof -
    show "drop p (input e) = cs @ 58 # xs" using assms(1) by (simp add: at_def)
    from arg_cong [where f = length, OF this] have "length (input e) - p = length cs + 1 + length xs" by simp
    with assms(1) show "p + length cs + 1 + length xs = length (input e)" by (simp add: at_def)
  qed
  have mhs: "length cs < ?mhs" using assms(5) by (simp add: room_def)
  have "\<exists>h'. hf_loop ?mhs (cs @ 58 # xs) (hp c) = Some (58 # xs, h') \<and> header_state h' = name_state ([w] @ map TOKEN cs)
    \<and> flags h' = flags (hp c) \<and> same_head (hp c) h'"
    using assms(2,7,8,9) mhs by (intro hf_loop_name) simp_all
  then obtain h' where h': "hf_loop ?mhs (cs @ 58 # xs) (hp c) = Some (58 # xs, h')"
    "header_state h' = name_state (w # map TOKEN cs)" "flags h' = flags (hp c)" "same_head (hp c) h'"
    by auto
  have r1: "room e ?c1 (length cs)" "unat (cnt c + 1) = unat (cnt c) + 1"
    using assms(5) cnt_Suc [of e c] by (simp_all add: room_def)
  let ?c2 = "?c1\<lparr>hp := h', cnt := cnt c + 1 + of_nat (length cs), p_state := s_header_value_discard_ws\<rparr>"
  let ?c' = "?c2\<lparr>hp := (hp ?c2)\<lparr>state := p_state ?c2\<rparr>,
     app := ev (Ev_Field (take (?q - s) (drop s (input e)))) (app c), marks := (marks ?c2)(header_field_mark := None)\<rparr>"
  have ok: "http_errno h' = HPE_OK" using h'(4) assms(6) by (simp add: same_head_def)
  have q: "length (input e) - length (58 # xs) = ?q" using d(2) by simp
  have "ex_header_field e p ?c1 = COUNT_HEADER_SIZE e (?q - p) ?q
      (\<lambda>c. CALLBACK_DATA e header_field_mark ?q (\<lambda>c. Break c ?q) (UPDATE_STATE s_header_value_discard_ws c)) (?c1\<lparr>hp := h'\<rparr>)"
    unfolding ex_header_field_def using h'(1) d(1) q by (simp add: Let_def)
  also have "\<dots> = CALLBACK_DATA e header_field_mark ?q (\<lambda>c. Break c ?q) ?c2"
    using r1(1) by (subst COUNT_ok) (simp_all add: room_def UPDATE_STATE_def)
  also have "\<dots> = Break ?c' ?q"
    unfolding CALLBACK_DATA_def using ok assms(4,10)
    by (subst DATA_ok [where f = "\<lambda>b s. ev (Ev_Field b) s" and s = s]) (simp_all add: settings_of_def)
  finally have ex: "ex_header_field e p ?c1 = Break ?c' ?q" .
  obtain x ys where at1: "at e p (x # ys)" using assms(1) by (cases cs) auto
  have "room e c 1" using assms(5) by (rule room_mono) simp
  with at1 ex assms(3) have "ex_loop e p c = ex_loop e (Suc ?q) ?c'"
    by (intro loop_header_byte) (simp_all add: switch_simps)
  moreover have "unat (cnt c + 1 + of_nat (length cs)) = unat (cnt c) + length cs + 1"
    using cnt_add(1) [of ?c1 "length cs" e] r1 by (simp add: room_def)
  ultimately show thesis
    using h' assms(4) by (intro that [of ?c']) (simp_all add: same_head_def)
qed

text \<open>The first byte of a value.\<close>

definition value_start :: "header_states \<Rightarrow> byte \<Rightarrow> http_parser \<Rightarrow> http_parser" where
  "value_start hs b h =
     (if hs = h_upgrade then (set_flag F_UPGRADE h)\<lparr>header_state := h_general\<rparr>
      else if hs = h_connection then h\<lparr>header_state := connection_value_state (LOWER b)\<rparr>
      else h\<lparr>header_state := h_general\<rparr>)"

lemma loop_value_start:
  assumes "at e p (v0 # xs)" "v0 \<notin> {32, 9, 13, 10}" "p_state c = s_header_value_discard_ws" "room e c 1"
    "marks c = (\<lambda>_. None)" "header_state (hp c) = name_state w" "w \<noteq> CONTENT_LENGTH" "w \<noteq> TRANSFER_ENCODING"
  shows "ex_loop e p c = ex_loop e (Suc p) (c\<lparr>cnt := cnt c + 1, marks := [header_value_mark \<mapsto> p],
     p_state := s_header_value, hp := value_start (name_state w) v0 ((hp c)\<lparr>index := 0\<rparr>)\<rparr>)"
proof -
  have "name_state w \<notin> {h_transfer_encoding, h_content_length, h_matching_transfer_encoding_token_start,
      h_content_length_ws, h_matching_connection_token_start}"
    using assms(7,8) by (auto simp: name_state_def split: if_splits)
  then have "ex_header_value_discard_ws e p (c\<lparr>cnt := cnt c + 1\<rparr>) =
    Break (c\<lparr>cnt := cnt c + 1, marks := [header_value_mark \<mapsto> p], p_state := s_header_value,
             hp := value_start (name_state w) v0 ((hp c)\<lparr>index := 0\<rparr>)\<rparr>) p"
    using assms(2,5,6)
    by (simp add: ex_header_value_discard_ws_def at_Cons(2) [OF assms(1)] ex_header_value_start_def
        UPDATE_STATE_def upd_hp_def MARK_def Let_def value_start_def set_flag_def)
  with assms show ?thesis by (intro loop_header_byte) (simp_all add: switch_simps)
qed


lemma loop_value:
  assumes "at e p (vs @ 13 # xs)" "p_state c = s_header_value" "marks c = [header_value_mark \<mapsto> s]"
    "room e c (length vs + 1)" "http_errno (hp c) = HPE_OK" "settings e = settings_of ev"
    "hv_loop (lenient e) (unat (max_header_size e)) (vs @ 13 # xs) (header_state (hp c)) (hp c) = Hv_Stop (13 # xs) hs' h'"
    "same_head (hp c) h'"
  obtains c' where "ex_loop e p c = ex_loop e (p + length vs + 1) c'" "p_state c' = s_header_almost_done"
    "marks c' = (\<lambda>_. None)" "app c' = ev (Ev_Value (take (p + length vs - s) (drop s (input e)))) (app c)"
    "header_state (hp c') = hs'" "flags (hp c') = flags h'" "same_head (hp c) (hp c')"
    "unat (cnt c') = unat (cnt c) + length vs + 1"
proof -
  let ?c1 = "c\<lparr>cnt := cnt c + 1\<rparr>" and ?q = "p + length vs"
  have d: "drop p (input e) = vs @ 13 # xs" "p + length vs + 1 + length xs = length (input e)"
  proof -
    show "drop p (input e) = vs @ 13 # xs" using assms(1) by (simp add: at_def)
    from arg_cong [where f = length, OF this] have "length (input e) - p = length vs + 1 + length xs" by simp
    with assms(1) show "p + length vs + 1 + length xs = length (input e)" by (simp add: at_def)
  qed
  have r1: "room e ?c1 (length vs)" "unat (cnt c + 1) = unat (cnt c) + 1"
    using assms(4) cnt_Suc [of e c] by (simp_all add: room_def)
  let ?c2 = "?c1\<lparr>p_state := s_header_almost_done, hp := h'\<lparr>header_state := hs'\<rparr>\<rparr>"
  let ?c3 = "?c2\<lparr>hp := (hp ?c2)\<lparr>state := p_state ?c2\<rparr>,
     app := ev (Ev_Value (take (?q - s) (drop s (input e)))) (app c), marks := (marks ?c2)(header_value_mark := None)\<rparr>"
  let ?c' = "?c3\<lparr>cnt := cnt c + 1 + of_nat (length vs)\<rparr>"
  have ok: "http_errno h' = HPE_OK" using assms(5,8) by (simp add: same_head_def)
  have q: "length (input e) - length (13 # xs) = ?q" "length (input e) - Suc (length xs + p) = length vs"
    using d(2) by simp_all
  have "ex_header_value e p ?c1 = CALLBACK_DATA e header_value_mark ?q
      (COUNT_HEADER_SIZE e (?q - p) ?q (\<lambda>c. Break c ?q)) ?c2"
    unfolding ex_header_value_def using assms(7) d(1) q
    by (simp add: Let_def upd_hp_def UPDATE_STATE_def)
  also have "\<dots> = COUNT_HEADER_SIZE e (?q - p) ?q (\<lambda>c. Break c ?q) ?c3"
    unfolding CALLBACK_DATA_def using ok assms(3,6)
    by (subst DATA_ok [where f = "\<lambda>b s. ev (Ev_Value b) s" and s = s]) (simp_all add: settings_of_def)
  also have "\<dots> = Break ?c' ?q"
    using r1(1) by (subst COUNT_ok) (simp_all add: room_def)
  finally have ex: "ex_header_value e p ?c1 = Break ?c' ?q" .
  obtain x ys where at1: "at e p (x # ys)" using assms(1) by (cases vs) auto
  have "room e c 1" using assms(4) by (rule room_mono) simp
  with at1 ex assms(2) have "ex_loop e p c = ex_loop e (Suc ?q) ?c'"
    by (intro loop_header_byte) (simp_all add: switch_simps)
  moreover have "unat (cnt c + 1 + of_nat (length vs)) = unat (cnt c) + length vs + 1"
    using cnt_add(1) [of ?c1 "length vs" e] r1 by (simp add: room_def)
  ultimately show thesis
    using assms(3,8) by (intro that [of ?c']) (simp_all add: same_head_def)
qed

lemma loop_value_lf:
  assumes "at e p (10 # xs)" "p_state c = s_header_almost_done" "room e c 1"
  shows "ex_loop e p c = ex_loop e (Suc p) (c\<lparr>cnt := cnt c + 1, p_state := s_header_value_lws\<rparr>)"
  using assms at_Cons(2) [OF assms(1)]
  by (intro loop_header_byte) (simp_all add: switch_simps ex_header_almost_done_def UPDATE_STATE_def)

lemma loop_line_end:
  assumes "at e p (b # xs)" "b \<noteq> 32" "b \<noteq> 9" "p_state c = s_header_value_lws" "room e c 1"
  shows "ex_loop e p c = ex_loop e p (c\<lparr>p_state := s_header_field_start, hp := header_flag (hp c)\<rparr>)"
proof -
  let ?d = "c\<lparr>p_state := s_header_field_start, hp := header_flag (hp c)\<rparr>"
  have d: "c\<lparr>cnt := cnt c + 1, hp := header_flag (hp c), p_state := s_header_field_start\<rparr> = ?d\<lparr>cnt := cnt c + 1\<rparr>"
    by simp
  have "room e ?d 1" using assms(5) by (simp add: room_def)
  then have "ex_byte e p ?d = ex_header_field_start e p (?d\<lparr>cnt := cnt c + 1\<rparr>)"
    using COUNT_ok [of e ?d 1] by (simp add: ex_byte_def switch_simps)
  moreover have "ex_byte e p c = ex_header_field_start e p (?d\<lparr>cnt := cnt c + 1\<rparr>)"
    using assms at_Cons(2) [OF assms(1)] COUNT_ok [OF assms(5)]
    by (simp add: ex_byte_def switch_simps ex_header_value_lws_def UPDATE_STATE_def upd_hp_def d)
  ultimately show ?thesis using at_Cons(1) [OF assms(1)] by (simp add: ex_loop.simps [of e p c] ex_loop.simps [of e p ?d])
qed

lemma header_flag_conn:
  "conn_flags h (header_flag h)" if "header_state h \<in> conn_states"
  using that by (auto simp: header_flag_def conn_states_def Let_def intro: set_flag_conn)

lemma header_flag_same [simp]: "same_head h (header_flag h') = same_head h h'"
  by (simp add: header_flag_def Let_def)


lemma name_state_cases:
  "name_state w = h_upgrade \<longleftrightarrow> w = UPGRADE" "name_state w = h_connection \<longleftrightarrow> w \<in> {CONNECTION, PROXY_CONNECTION}"
  by (auto simp: name_state_def name_defs prefix_of_def split: if_splits)

lemma name_state_connection: "name_state w = h_connection \<Longrightarrow> w \<noteq> UPGRADE"
  using name_state_cases(1) [of w] by auto

lemma conn_state_start: "connection_value_state b \<in> conn_states"
  by (simp add: connection_value_state_def conn_states_def)

definition value_read :: "bool \<Rightarrow> nat \<Rightarrow> bytes \<Rightarrow> bytes \<times> bytes \<Rightarrow> byte \<Rightarrow> bytes \<Rightarrow> http_parser \<Rightarrow> bool" where
  "value_read len mhs xs kv v0 vs h \<longleftrightarrow>
     (let h1 = value_start (name_state (map TOKEN (fst kv))) v0 (h\<lparr>index := 0\<rparr>)
      in \<exists>hs' h'. hv_loop len mhs (vs @ 13 # xs) (header_state h1) h1 = Hv_Stop (13 # xs) hs' h'
           \<and> same_head h h' \<and> line_flags kv h (header_flag (h'\<lparr>header_state := hs'\<rparr>)))"

lemma value_read_general:
  assumes "name_state (map TOKEN (fst kv)) \<noteq> h_connection" "\<forall>b \<in> set vs. value_char False b" "length vs < mhs"
  shows "value_read len mhs xs kv v0 vs h"
proof -
  let ?h = "value_start (name_state (map TOKEN (fst kv))) v0 (h\<lparr>index := 0\<rparr>)"
  have g: "header_state ?h = h_general" "same_head h ?h" using assms(1) by (simp_all add: value_start_def)
  have "has_flag ?h g \<longleftrightarrow> has_flag h g \<or> map TOKEN (fst kv) = UPGRADE \<and> F_UPGRADE AND g \<noteq> 0" for g
    using assms(1) name_state_cases(1) has_set_flag [of F_UPGRADE "h\<lparr>index := 0\<rparr>" g]
    by (simp add: value_start_def has_flag_def)
  then have "line_flags kv h ?h"
    using assms(1) name_state_cases(2) [of "map TOKEN (fst kv)"] by (simp add: line_flags_def) (simp add: flag_defs)
  then have "line_flags kv h (header_flag (?h\<lparr>header_state := h_general\<rparr>))"
    by (simp add: header_flag_def line_flags_def has_flag_def)
  with g hv_loop_general [OF assms(2,3), of len xs ?h] show ?thesis by (simp add: value_read_def)
qed

lemma value_read_word:
  assumes "snd kv = v0 # vs" "\<forall>b \<in> set vs. value_char False b" "(S, m, f) \<in> set conn_words"
    "map LOWER (snd kv) = S" "name_state (map TOKEN (fst kv)) = h_connection"
  shows "value_read len mhs xs kv v0 vs h"
proof -
  have l: "map LOWER vs = drop (Suc 0) S" "LOWER v0 = S ! 0" using assms(1,4) by auto
  define k where "k = h\<lparr>index := 0, header_state := m\<rparr>"
  have "connection_value_state (LOWER v0) = m"
    using assms(3) l(2) by (auto simp: connection_value_state_def conn_words_def UPGRADE_def KEEP_ALIVE_def)
  then have h: "value_start (name_state (map TOKEN (fst kv))) v0 (h\<lparr>index := 0\<rparr>) = k" "header_state k = m"
    using assms(5) by (simp_all add: value_start_def k_def)
  have k: "unat (index k) = 0" "same_head h k" "flags k = flags h" by (simp_all add: k_def)
  have "Suc 0 < length S" using hv_char_word(5) [OF assms(3)] by simp
  from hv_loop_word [OF assms(3,2) l(1) k(1) this, of len mhs xs] obtain h' where
    h': "hv_loop len mhs (vs @ 13 # xs) m k = Hv_Stop (13 # xs) f h'" "same_head k h'" "flags h' = flags h"
    using k(3) by auto
  have w: "map TOKEN (fst kv) \<noteq> UPGRADE" using name_state_connection [OF assms(5)] .
  let ?F = "if S = UPGRADE then F_CONNECTION_UPGRADE else F_CONNECTION_KEEP_ALIVE"
  have "header_flag (h'\<lparr>header_state := f\<rparr>) = set_flag ?F (h'\<lparr>header_state := f\<rparr>)"
    using assms(3) by (auto simp: conn_words_def header_flag_def UPGRADE_def KEEP_ALIVE_def)
  then have "has_flag (header_flag (h'\<lparr>header_state := f\<rparr>)) g \<longleftrightarrow> has_flag h g \<or> ?F AND g \<noteq> 0" for g
    using has_set_flag [of ?F "h'\<lparr>header_state := f\<rparr>" g] h'(3) by (simp add: has_flag_def)
  then have "line_flags kv h (header_flag (h'\<lparr>header_state := f\<rparr>))"
    using w assms(4) by (simp add: line_flags_def) (simp add: flag_defs)
  with h h'(1) same_head_trans [OF k(2) h'(2)] show ?thesis by (auto simp: value_read_def)
qed

lemma value_read_connection:
  assumes "\<forall>b \<in> set vs. value_char False b" "length vs < mhs" "map LOWER (snd kv) \<notin> {UPGRADE, KEEP_ALIVE}"
    "name_state (map TOKEN (fst kv)) = h_connection"
  shows "value_read len mhs xs kv v0 vs h"
proof -
  let ?h = "value_start (name_state (map TOKEN (fst kv))) v0 (h\<lparr>index := 0\<rparr>)"
  have start: "header_state ?h \<in> conn_states" "same_head h ?h" "conn_flags h ?h"
    using assms(4) by (simp_all add: value_start_def conn_state_start conn_flags_def has_flag_def)
  from hv_loop_conn [OF assms(1,2) start(1), of len xs ?h] obtain hs' h' where
    h': "hv_loop len mhs (vs @ 13 # xs) (header_state ?h) ?h = Hv_Stop (13 # xs) hs' h'" "hs' \<in> conn_states"
      "same_head ?h h'" "conn_flags ?h h'" by blast
  have "conn_flags h (header_flag (h'\<lparr>header_state := hs'\<rparr>))"
    using conn_flags_trans [OF conn_flags_trans [OF start(3) h'(4)], of "header_flag (h'\<lparr>header_state := hs'\<rparr>)"]
      header_flag_conn [of "h'\<lparr>header_state := hs'\<rparr>"] h'(2) by (simp add: conn_flags_def has_flag_def)
  moreover have "map TOKEN (fst kv) \<in> {CONNECTION, PROXY_CONNECTION}" using assms(4) name_state_cases(2) by simp
  moreover have "map TOKEN (fst kv) \<noteq> UPGRADE" using name_state_connection [OF assms(4)] .
  ultimately have "line_flags kv h (header_flag (h'\<lparr>header_state := hs'\<rparr>))"
    using assms(3) by (auto simp: line_flags_def conn_flags_def stays_open_def)
  with h' same_head_trans [OF start(2) h'(3)] show ?thesis by (auto simp: value_read_def)
qed

lemma value_flags:
  assumes "snd kv = v0 # vs" "\<forall>b \<in> set vs. value_char False b" "length vs < mhs"
  shows "value_read len mhs xs kv v0 vs h"
proof (cases "name_state (map TOKEN (fst kv)) = h_connection")
  case False
  with assms(2,3) show ?thesis by (intro value_read_general)
next
  case True
  show ?thesis
  proof (cases "map LOWER (snd kv) \<in> {UPGRADE, KEEP_ALIVE}")
    case word: True
    then obtain m f where "(map LOWER (snd kv), m, f) \<in> set conn_words" by (auto simp: conn_words_def)
    with assms True show ?thesis by (intro value_read_word) simp_all
  next
    case False
    with assms True show ?thesis by (intro value_read_connection) simp_all
  qed
qed

text \<open>A whole line: the name and the value are reported, and the next line begins.\<close>

lemma line_text_simps [simp]: "length (line_text kv) = length (fst kv) + length (snd kv) + 4"
  by (simp add: line_text_def)

lemma loop_line_name:
  assumes "at e p (fst kv @ 58 # xs)" "header_ok kv" "p_state c = s_header_field_start" "marks c = (\<lambda>_. None)"
    "room e c (length (fst kv) + 1)" "http_errno (hp c) = HPE_OK" "settings e = settings_of ev"
  obtains c' where "ex_loop e p c = ex_loop e (p + length (fst kv) + 1) c'" "p_state c' = s_header_value_discard_ws"
    "marks c' = (\<lambda>_. None)" "app c' = ev (Ev_Field (fst kv)) (app c)"
    "header_state (hp c') = name_state (map TOKEN (fst kv))" "flags (hp c') = flags (hp c)" "same_head (hp c) (hp c')"
    "unat (cnt c') = unat (cnt c) + length (fst kv) + 1"
proof -
  obtain k0 ks where k: "fst kv = k0 # ks" using assms(2) by (cases "fst kv") (auto simp: header_ok_def field_name_def)
  have ok: "TOKEN k0 \<noteq> 0" "\<forall>b \<in> set ks. TOKEN b \<noteq> 0" "take 17 (TOKEN k0 # map TOKEN ks) \<noteq> TRANSFER_ENCODING"
    using assms(2) k by (auto simp: header_ok_def field_name_def)
  have a: "at e p (k0 # ks @ 58 # xs)" using assms(1) k by simp
  have r: "room e c 1" using assms(5) by (rule room_mono) (simp add: k)
  let ?c = "c\<lparr>cnt := cnt c + 1, marks := [header_field_mark \<mapsto> p], p_state := s_header_field,
     hp := (hp c)\<lparr>index := 0, header_state := name_state [TOKEN k0]\<rparr>\<rparr>"
  have s1: "ex_loop e p c = ex_loop e (Suc p) ?c"
    using a ok(1) assms(3,4) r by (intro loop_field_start) simp_all
  have u: "unat (cnt ?c) = unat (cnt c) + 1" using cnt_Suc [OF r] by simp
  have "room e ?c (length ks + 1)" using u assms(5) k by (simp add: room_def)
  then obtain c2 where c2: "ex_loop e (Suc p) ?c = ex_loop e (Suc p + length ks + 1) c2"
      "p_state c2 = s_header_value_discard_ws" "marks c2 = (\<lambda>_. None)"
      "app c2 = ev (Ev_Field (take (Suc p + length ks - p) (drop p (input e)))) (app c)"
      "header_state (hp c2) = name_state (map TOKEN (fst kv))" "flags (hp c2) = flags (hp c)" "same_head (hp ?c) (hp c2)"
      "unat (cnt c2) = unat (cnt c) + length ks + 2"
    using loop_field [OF at_Cons(3) [OF a] ok(2), where c = ?c and s = p and w = "TOKEN k0" and ev = ev]
      ok(3) assms(6,7) u k by auto
  have "take (Suc p + length ks - p) (drop p (input e)) = fst kv"
    using at_take [of e p "k0 # ks"] a k by simp
  with s1 c2 show thesis by (intro that [of c2]) (simp_all add: k same_head_def)
qed

lemma loop_line_value:
  assumes "at e p (32 # snd kv @ 13 # xs)" "header_ok kv" "p_state c = s_header_value_discard_ws" "marks c = (\<lambda>_. None)"
    "room e c (length (snd kv) + 2)" "http_errno (hp c) = HPE_OK" "settings e = settings_of ev"
    "header_state (hp c) = name_state (map TOKEN (fst kv))"
  obtains c' where "ex_loop e p c = ex_loop e (p + length (snd kv) + 2) c'" "p_state c' = s_header_almost_done"
    "marks c' = (\<lambda>_. None)" "app c' = ev (Ev_Value (snd kv)) (app c)" "same_head (hp c) (hp c')"
    "line_flags kv (hp c) (header_flag (hp c'))" "unat (cnt c') = unat (cnt c) + length (snd kv) + 2"
proof -
  let ?w = "map TOKEN (fst kv)"
  obtain v0 vs where v: "snd kv = v0 # vs" using assms(2) by (cases "snd kv") (auto simp: header_ok_def value_ok_def)
  have ok: "?w \<noteq> CONTENT_LENGTH" "v0 \<notin> {32, 9, 13, 10}" "\<forall>b \<in> set vs. value_char False b"
    using assms(2) v value_char_False by (auto simp: header_ok_def value_ok_def)
  have te: "?w \<noteq> TRANSFER_ENCODING"
    using assms(2) by (auto simp: header_ok_def field_name_def) (simp add: name_defs)
  have a3: "at e (Suc p) (v0 # vs @ 13 # xs)" using at_Cons(3) [OF assms(1)] v by simp
  have r2: "room e c 1" using assms(5) by (rule room_mono) simp
  let ?c3 = "c\<lparr>cnt := cnt c + 1\<rparr>"
  have s2: "ex_loop e p c = ex_loop e (Suc p) ?c3"
    using assms(1,3) r2 at_Cons(2) [OF assms(1)]
    by (intro loop_header_byte) (simp_all add: switch_simps ex_header_value_discard_ws_def)
  have u3: "unat (cnt ?c3) = unat (cnt c) + 1" using cnt_Suc [OF r2] by simp
  then have r3: "room e ?c3 1" using assms(5) by (simp add: room_def)
  let ?c4 = "?c3\<lparr>cnt := cnt ?c3 + 1, marks := [header_value_mark \<mapsto> Suc p], p_state := s_header_value,
     hp := value_start (name_state ?w) v0 ((hp c)\<lparr>index := 0\<rparr>)\<rparr>"
  have s3: "ex_loop e (Suc p) ?c3 = ex_loop e (Suc (Suc p)) ?c4"
    using loop_value_start [OF a3 ok(2), where c = ?c3 and w = ?w] assms(3,4,8) r3 ok(1) te by simp
  have u4: "unat (cnt ?c4) = unat (cnt c) + 2" using cnt_Suc [OF r3] u3 by simp
  have "length vs < unat (max_header_size e)" using assms(5) v by (simp add: room_def)
  from value_flags [OF v ok(3) this, where len = "lenient e" and xs = xs and h = "hp c"] obtain hs' h' where
    h': "hv_loop (lenient e) (unat (max_header_size e)) (vs @ 13 # xs) (header_state (hp ?c4)) (hp ?c4)
          = Hv_Stop (13 # xs) hs' h'"
      "same_head (hp c) h'" "line_flags kv (hp c) (header_flag (h'\<lparr>header_state := hs'\<rparr>))"
    by (auto simp: value_read_def Let_def)
  have sh4: "same_head (hp c) (hp ?c4)" by (simp add: value_start_def)
  with h'(2) have h4: "same_head (hp ?c4) h'" "http_errno (hp ?c4) = HPE_OK" "room e ?c4 (length vs + 1)"
    "p_state ?c4 = s_header_value" "marks ?c4 = [header_value_mark \<mapsto> Suc p]" "app ?c4 = app c"
    using assms(5,6) u4 v by (simp_all add: same_head_def room_def)
  obtain c5 where c5: "ex_loop e (Suc (Suc p)) ?c4 = ex_loop e (Suc (Suc p) + length vs + 1) c5"
      "p_state c5 = s_header_almost_done" "marks c5 = (\<lambda>_. None)"
      "app c5 = ev (Ev_Value (take (Suc (Suc p) + length vs - Suc p) (drop (Suc p) (input e)))) (app c)"
      "header_state (hp c5) = hs'" "flags (hp c5) = flags h'" "same_head (hp ?c4) (hp c5)"
      "unat (cnt c5) = unat (cnt ?c4) + length vs + 1"
    by (rule loop_value [OF at_Cons(3) [OF a3] h4(4,5,3,2) assms(7) h'(1) h4(1), unfolded h4(6)])
  have t: "take (Suc (Suc p) + length vs - Suc p) (drop (Suc p) (input e)) = snd kv"
    using at_take [of e "Suc p" "v0 # vs"] a3 v by simp
  have "has_flag (header_flag (hp c5)) g = has_flag (header_flag (h'\<lparr>header_state := hs'\<rparr>)) g" for g
    using c5(5,6) by (simp add: header_flag_def has_flag_def set_flag_def Let_def)
  with h'(3) have "line_flags kv (hp c) (header_flag (hp c5))" by (simp add: line_flags_def)
  moreover have "same_head (hp c) (hp c5)" using sh4 c5(7) by (simp add: same_head_def)
  ultimately show thesis using s2 s3 c5 t u4 by (intro that [of c5]) (simp_all add: v)
qed

lemma loop_line:
  assumes "at e p (line_text kv @ b # xs)" "header_ok kv" "b \<noteq> 32" "b \<noteq> 9" "p_state c = s_header_field_start"
    "marks c = (\<lambda>_. None)" "room e c (length (line_text kv) + 1)" "http_errno (hp c) = HPE_OK" "settings e = settings_of ev"
  obtains c' where "ex_loop e p c = ex_loop e (p + length (line_text kv)) c'" "p_state c' = s_header_field_start"
    "marks c' = (\<lambda>_. None)" "app c' = ev (Ev_Value (snd kv)) (ev (Ev_Field (fst kv)) (app c))"
    "same_head (hp c) (hp c')" "line_flags kv (hp c) (hp c')" "unat (cnt c') = unat (cnt c) + length (line_text kv)"
proof -
  let ?p2 = "p + length (fst kv) + 1"
  let ?p5 = "?p2 + length (snd kv) + 2"
  have a1: "at e p (fst kv @ 58 # 32 # snd kv @ 13 # 10 # b # xs)" using assms(1) by (simp add: line_text_def)
  have a2: "at e ?p2 (32 # snd kv @ 13 # 10 # b # xs)" using at_append [of e p "fst kv @ [58]"] a1 by simp
  have a5: "at e ?p5 (10 # b # xs)" using at_append [of e ?p2 "32 # snd kv @ [13]"] a2 by (simp add: add.commute)
  have "room e c (length (fst kv) + 1)" using assms(7) by (rule room_mono) simp
  then obtain c2 where c2: "ex_loop e p c = ex_loop e ?p2 c2" "p_state c2 = s_header_value_discard_ws"
      "marks c2 = (\<lambda>_. None)" "app c2 = ev (Ev_Field (fst kv)) (app c)"
      "header_state (hp c2) = name_state (map TOKEN (fst kv))" "flags (hp c2) = flags (hp c)" "same_head (hp c) (hp c2)"
      "unat (cnt c2) = unat (cnt c) + length (fst kv) + 1"
    using loop_line_name [OF a1 assms(2,5,6) _ assms(8,9)] by blast
  have e2: "http_errno (hp c2) = HPE_OK" using c2(7) assms(8) by (simp add: same_head_def)
  have "room e c2 (length (snd kv) + 2)" using c2(8) assms(7) by (simp add: room_def)
  then obtain c5 where c5: "ex_loop e ?p2 c2 = ex_loop e ?p5 c5" "p_state c5 = s_header_almost_done"
      "marks c5 = (\<lambda>_. None)" "app c5 = ev (Ev_Value (snd kv)) (app c2)" "same_head (hp c2) (hp c5)"
      "line_flags kv (hp c2) (header_flag (hp c5))" "unat (cnt c5) = unat (cnt c2) + length (snd kv) + 2"
    using loop_line_value [OF a2 assms(2) c2(2,3) _ e2 assms(9) c2(5)] by blast
  have r5: "room e c5 1" using c5(7) c2(8) assms(7) by (simp add: room_def)
  let ?c6 = "c5\<lparr>cnt := cnt c5 + 1, p_state := s_header_value_lws\<rparr>"
  have s5: "ex_loop e ?p5 c5 = ex_loop e (Suc ?p5) ?c6" using a5 c5(2) r5 by (rule loop_value_lf)
  have u6: "unat (cnt ?c6) = unat (cnt c) + length (line_text kv)" using cnt_Suc [OF r5] c5(7) c2(8) by simp
  let ?c7 = "?c6\<lparr>p_state := s_header_field_start, hp := header_flag (hp ?c6)\<rparr>"
  have "room e ?c6 1" using u6 assms(7) by (simp add: room_def)
  then have s6: "ex_loop e (Suc ?p5) ?c6 = ex_loop e (Suc ?p5) ?c7"
    using at_Cons(3) [OF a5] assms(3,4) by (intro loop_line_end) simp_all
  have "has_flag (hp c2) g = has_flag (hp c) g" for g using c2(6) by (simp add: has_flag_def)
  with c5(6) have "line_flags kv (hp c) (hp ?c7)" by (simp add: line_flags_def)
  moreover have "same_head (hp c) (hp ?c7)" using same_head_trans [OF c2(7) c5(5)] by simp
  moreover have pos: "Suc ?p5 = p + length (line_text kv)" by simp
  have "ex_loop e p c = ex_loop e (p + length (line_text kv)) ?c7"
    unfolding pos [symmetric] using c2(1) c5(1) s5 s6 by simp
  ultimately show thesis using c5 c2(4) u6 by (intro that [of ?c7]) simp_all
qed


section \<open>The header lines\<close>

definition lines_flags :: "(bytes \<times> bytes) list \<Rightarrow> http_parser \<Rightarrow> http_parser \<Rightarrow> bool" where
  "lines_flags hs h h' \<longleftrightarrow>
     (\<forall>f \<in> {F_CHUNKED, F_TRAILING, F_SKIPBODY, F_CONTENTLENGTH}. has_flag h' f = has_flag h f)
     \<and> (has_flag h' F_UPGRADE \<longleftrightarrow> has_flag h F_UPGRADE \<or> (\<exists>kv \<in> set hs. map TOKEN (fst kv) = UPGRADE))
     \<and> (has_flag h F_CONNECTION_UPGRADE
          \<or> (\<exists>kv \<in> set hs. map TOKEN (fst kv) = CONNECTION \<and> map LOWER (snd kv) = UPGRADE)
          \<longrightarrow> has_flag h' F_CONNECTION_UPGRADE)
     \<and> (list_all stays_open hs \<longrightarrow> has_flag h' F_CONNECTION_CLOSE = has_flag h F_CONNECTION_CLOSE)"

lemma lines_flags_Cons: "line_flags kv h h1 \<Longrightarrow> lines_flags hs h1 h' \<Longrightarrow> lines_flags (kv # hs) h h'"
  by (auto simp: line_flags_def lines_flags_def)

definition lines_text :: "(bytes \<times> bytes) list \<Rightarrow> bytes" where
  "lines_text hs = concat (map line_text hs)"

lemma next_line:
  assumes "list_all header_ok hs"
  obtains b xs' where "lines_text hs @ 13 # xs = b # xs'" "b \<noteq> 32" "b \<noteq> 9"
proof (cases hs)
  case Nil
  then show thesis by (intro that [of 13 xs]) (simp_all add: lines_text_def)
next
  case (Cons kv hs')
  then obtain k0 ks where k: "fst kv = k0 # ks" "TOKEN k0 \<noteq> 0"
    using assms by (cases "fst kv") (auto simp: header_ok_def field_name_def)
  then have "k0 \<noteq> 32" "k0 \<noteq> 9" by auto
  with Cons k show thesis by (intro that [of k0]) (simp_all add: lines_text_def line_text_def)
qed

lemma loop_lines:
  assumes "at e p (lines_text hs @ 13 # xs)" "list_all header_ok hs" "p_state c = s_header_field_start"
    "marks c = (\<lambda>_. None)" "room e c (length (lines_text hs) + 1)" "http_errno (hp c) = HPE_OK" "settings e = settings_of ev"
  shows "\<exists>c'. ex_loop e p c = ex_loop e (p + length (lines_text hs)) c' \<and> p_state c' = s_header_field_start
    \<and> marks c' = (\<lambda>_. None) \<and> app c' = fold ev (header_events hs) (app c) \<and> same_head (hp c) (hp c')
    \<and> lines_flags hs (hp c) (hp c') \<and> unat (cnt c') = unat (cnt c) + length (lines_text hs)"
  using assms
proof (induction hs arbitrary: p c)
  case Nil
  then show ?case by (intro exI [of _ c]) (simp add: lines_text_def header_events_def lines_flags_def)
next
  case (Cons kv hs)
  obtain b xs' where b: "lines_text hs @ 13 # xs = b # xs'" "b \<noteq> 32" "b \<noteq> 9"
    using next_line [of hs xs] Cons.prems(2) by auto
  have tx: "lines_text (kv # hs) = line_text kv @ lines_text hs" by (simp add: lines_text_def)
  have a: "at e p (line_text kv @ b # xs')" using Cons.prems(1) tx b(1) by simp
  have kv: "header_ok kv" "list_all header_ok hs" using Cons.prems(2) by simp_all
  have r: "room e c (length (line_text kv) + 1)" using Cons.prems(5) by (rule room_mono) (simp add: tx)
  obtain c1 where c1: "ex_loop e p c = ex_loop e (p + length (line_text kv)) c1" "p_state c1 = s_header_field_start"
    "marks c1 = (\<lambda>_. None)" "app c1 = ev (Ev_Value (snd kv)) (ev (Ev_Field (fst kv)) (app c))"
    "same_head (hp c) (hp c1)" "line_flags kv (hp c) (hp c1)" "unat (cnt c1) = unat (cnt c) + length (line_text kv)"
    by (rule loop_line [OF a kv(1) b(2,3) Cons.prems(3,4) r Cons.prems(6,7)])
  have a1: "at e (p + length (line_text kv)) (lines_text hs @ 13 # xs)" using at_append [OF a] b(1) by simp
  have e1: "http_errno (hp c1) = HPE_OK" using c1(5) Cons.prems(6) by (simp add: same_head_def)
  have "room e c1 (length (lines_text hs) + 1)" using c1(7) Cons.prems(5) by (simp add: room_def tx)
  from Cons.IH [OF a1 kv(2) c1(2,3) this e1 Cons.prems(7)] obtain c' where
    c': "ex_loop e (p + length (line_text kv)) c1 = ex_loop e (p + length (line_text kv) + length (lines_text hs)) c'"
      "p_state c' = s_header_field_start" "marks c' = (\<lambda>_. None)" "app c' = fold ev (header_events hs) (app c1)"
      "same_head (hp c1) (hp c')" "lines_flags hs (hp c1) (hp c')" "unat (cnt c') = unat (cnt c1) + length (lines_text hs)"
    by auto
  have "app c' = fold ev (header_events (kv # hs)) (app c)"
    using c'(4) c1(4) by (simp add: header_events_def split: prod.split)
  with c' c1 same_head_trans [OF c1(5) c'(5)] lines_flags_Cons [OF c1(6) c'(6)] show ?case
    by (intro exI [of _ c']) (simp add: tx add.assoc del: line_text_simps)
qed

section \<open>The end of the head\<close>

definition wants_upgrade :: "(bytes \<times> bytes) list \<Rightarrow> bool" where
  "wants_upgrade hs \<longleftrightarrow> (\<exists>kv \<in> set hs. map TOKEN (fst kv) = UPGRADE)"

definition connection_upgrade :: "(bytes \<times> bytes) list \<Rightarrow> bool" where
  "connection_upgrade hs \<longleftrightarrow> (\<exists>kv \<in> set hs. map TOKEN (fst kv) = CONNECTION \<and> map LOWER (snd kv) = UPGRADE)"

text \<open>The parser between two requests of a connection.\<close>

definition between_requests :: "http_parser \<Rightarrow> bool" where
  "between_requests h \<longleftrightarrow> http_errno h = HPE_OK \<and> ptype h = HTTP_REQUEST \<and> nread h = 0 \<and> state h = s_start_req"

text \<open>The parser when the empty line begins, for a message whose head carries no length.\<close>

definition head_read :: "http_method \<Rightarrow> http_parser \<Rightarrow> bool" where
  "head_read m h \<longleftrightarrow> http_errno h = HPE_OK \<and> ptype h = HTTP_REQUEST \<and> pmethod h = m \<and> content_length h = ULLONG_MAX
     \<and> \<not> uses_transfer_encoding h \<and> http_major h = 1 \<and> http_minor h = 1
     \<and> (\<forall>f \<in> {F_CHUNKED, F_TRAILING, F_SKIPBODY, F_CONTENTLENGTH}. \<not> has_flag h f)"

lemma headers_almost_done:
  assumes "input e ! p = 10" "head_read m (hp c)" "m \<noteq> HTTP_CONNECT" "settings e = settings_of ev"
  defines "upg \<equiv> has_flag (hp c) F_UPGRADE \<and> has_flag (hp c) F_CONNECTION_UPGRADE"
  obtains c' where "ex_headers_almost_done e p c = (if upg then RETURN c' (p + 1) else Break c' p)"
    "app c' = ev (Ev_Complete upg) (ev (Ev_Headers m 1 1) (app c))" "marks c' = marks c" "cnt c' = 0"
    "p_state c' = NEW_MESSAGE (hp c)" "http_errno (hp c') = HPE_OK" "ptype (hp c') = HTTP_REQUEST"
proof -
  have fl: "has_flag (h\<lparr>upgrade := b\<rparr>) g = has_flag h g" "has_flag (h\<lparr>nread := w\<rparr>) g = has_flag h g" for h b g w
    by (simp_all add: has_flag_def)
  have nm: "NEW_MESSAGE (h\<lparr>upgrade := b\<rparr>) = NEW_MESSAGE h" "NEW_MESSAGE (h\<lparr>nread := w\<rparr>) = NEW_MESSAGE h" for h b w
    by (simp_all add: NEW_MESSAGE_def http_should_keep_alive_def http_message_needs_eof_def start_state_def has_flag_def)
  have r: "\<not> http_message_needs_eof (h\<lparr>upgrade := b, nread := w\<rparr>)" if "ptype h = HTTP_REQUEST" for h b w
    using that by (simp add: http_message_needs_eof_def)
  have body: "\<not> has_body (h\<lparr>upgrade := b, nread := w\<rparr>)" if "head_read m h" for h b w
    using that by (simp add: has_body_def head_read_def fl)
  let ?h1 = "(hp c)\<lparr>upgrade := upg\<rparr>"
  let ?c1 = "c\<lparr>p_state := s_headers_done, hp := ?h1\<rparr>"
  let ?c2 = "?c1\<lparr>app := ev (Ev_Headers m 1 1) (app c)\<rparr>"
  let ?c3 = "reset_nread ?c2"
  let ?c4 = "UPDATE_STATE (NEW_MESSAGE (hp ?c3)) ?c3"
  let ?c' = "?c4\<lparr>hp := (hp ?c4)\<lparr>state := p_state ?c4\<rparr>, app := ev (Ev_Complete upg) (app ?c4)\<rparr>"
  have up: "upd_hp set_upgrade (UPDATE_STATE s_headers_done c) = ?c1"
    using assms(2,3) by (simp add: upd_hp_def set_upgrade_def UPDATE_STATE_def head_read_def upg_def)
  have "ex_headers_almost_done e p c = call_headers_complete e p (ex_headers_done e p) ?c1"
    using assms(1,2) by (simp add: ex_headers_almost_done_def STRICT_CHECK_def both_lengths_def head_read_def up)
  also have "\<dots> = ex_headers_done e p ?c2"
    using assms(2,4) by (simp add: call_headers_complete_def settings_of_def leave_callback_def head_read_def)
  also have "\<dots> = complete_message e p (\<lambda>c. if upg then RETURN c (p + 1) else Break c p) ?c3"
    using assms(1,2) body [OF assms(2)] r [of "hp c"]
    by (simp add: ex_headers_done_def STRICT_CHECK_def reset_nread_def upd_hp_def Let_def head_read_def fl)
  also have "\<dots> = (if upg then RETURN ?c' (p + 1) else Break ?c' p)"
    using assms(2,4)
    by (simp add: complete_message_def CALLBACK_NOTIFY_def settings_of_def head_read_def reset_nread_def upd_hp_def
        UPDATE_STATE_def NOTIFY_ok [where f = "\<lambda>h s. ev (Ev_Complete (upgrade h)) s"])
  finally show thesis
    by (rule that) (use assms(2) in \<open>simp_all add: reset_nread_def upd_hp_def UPDATE_STATE_def head_read_def nm\<close>)
qed


section \<open>A request\<close>

definition target_ok :: "bytes \<Rightarrow> bool" where
  "target_ok tgt \<longleftrightarrow> tgt \<noteq> [] \<and> hd tgt = 47 \<and> list_all target_char (tl tgt)"

definition VERSION_TEXT :: bytes where
  "VERSION_TEXT = [72, 84, 84, 80, 47, 49, 46, 49, 13, 10]"

definition request_text :: "http_method \<Rightarrow> bytes \<Rightarrow> (bytes \<times> bytes) list \<Rightarrow> bytes" where
  "request_text m tgt hs =
     method_strings m @ [32] @ tgt @ [32] @ VERSION_TEXT @ lines_text hs @ [13, 10]"

definition request_events :: "http_method \<Rightarrow> bytes \<Rightarrow> (bytes \<times> bytes) list \<Rightarrow> http_event list" where
  "request_events m tgt hs = [Ev_Begin, Ev_Url tgt] @ header_events hs @ [Ev_Headers m 1 1]"

definition request_ok :: "u32 \<Rightarrow> http_method \<Rightarrow> bytes \<Rightarrow> (bytes \<times> bytes) list \<Rightarrow> bool" where
  "request_ok mhs m tgt hs \<longleftrightarrow> m \<noteq> HTTP_CONNECT \<and> target_ok tgt \<and> list_all header_ok hs
     \<and> length (request_text m tgt hs) \<le> unat mhs"

lemma loop_request_line:
  assumes "at e p (method_strings m @ 32 # 47 # ts @ 32 # VERSION_TEXT @ xs)" "m \<noteq> HTTP_CONNECT"
    "list_all target_char ts" "p_state c = s_start_req" "http_errno (hp c) = HPE_OK" "ptype (hp c) = HTTP_REQUEST"
    "marks c = (\<lambda>_. None)" "room e c (length (method_strings m) + length ts + 13)" "settings e = settings_of ev"
  obtains c' where "ex_loop e p c = ex_loop e (p + length (method_strings m) + length ts + 13) c'"
    "p_state c' = s_header_field_start" "head_inv m c'" "marks c' = (\<lambda>_. None)" "flags (hp c') = 0"
    "app c' = ev (Ev_Url (47 # ts)) (ev Ev_Begin (app c))" "http_major (hp c') = 1" "http_minor (hp c') = 1"
    "unat (cnt c') = unat (cnt c) + length (method_strings m) + length ts + 13"
proof -
  obtain ch cs m0 where m: "method_strings m = ch # cs" "start_method ch = Some m0" "method_run cs m0 1 = Some m"
    using method_run_all [of m] by auto
  have a0: "at e p (ch # cs @ 32 # 47 # ts @ 32 # VERSION_TEXT @ xs)" using assms(1) m(1) by simp
  have room: "room e c (length cs + length ts + 14)" using assms(8) m(1) by (simp add: room_def)
  obtain c1 where c1: "ex_loop e p c = ex_loop e (Suc p) c1" "p_state c1 = s_req_method" "head_inv m0 c1"
    "index (hp c1) = 1" "flags (hp c1) = 0" "marks c1 = marks c" "app c1 = ev Ev_Begin (app c)"
    "unat (cnt c1) = Suc (unat (cnt c))"
    by (rule loop_start [OF a0 assms(4,5,6) room_mono [OF room] m(2) assms(9)]) simp_all
  have a1: "at e (Suc p) (cs @ 32 # 47 # ts @ 32 # VERSION_TEXT @ xs)" using at_Cons(3) [OF a0] .
  let ?p2 = "Suc p + length cs + 1"
  have r1: "room e c1 (length cs + 1)" using c1(8) room by (simp add: room_def)
  have "method_run cs m0 (unat (index (hp c1))) = Some m" using m(3) c1(4) by simp
  from loop_method [OF a1 c1(2,3) r1 this] obtain c2 where c2: "ex_loop e (Suc p) c1 = ex_loop e ?p2 c2"
    "p_state c2 = s_req_spaces_before_url" "head_inv m c2" "quiet c1 c2 (length cs + 1)" by blast
  have a2: "at e ?p2 (47 # ts @ 32 # VERSION_TEXT @ xs)" using at_append [of e "Suc p" "cs @ [32]"] a1 by simp
  have u2: "unat (cnt c2) = unat (cnt c) + length cs + 2" using c2(4) c1(8) by (simp add: quiet_def)
  have "room e c2 1" "marks c2 = (\<lambda>_. None)"
    using u2 room c2(4) c1(6) assms(7) by (simp_all add: room_def quiet_def)
  then obtain c3 where c3: "ex_loop e ?p2 c2 = ex_loop e (Suc ?p2) c3" "p_state c3 = s_req_path" "head_inv m c3"
    "marks c3 = [url_mark \<mapsto> ?p2]" "app c3 = app c2" "flags (hp c3) = flags (hp c2)" "unat (cnt c3) = Suc (unat (cnt c2))"
    using loop_target_start [OF a2 c2(2,3) assms(2)] by blast
  let ?p4 = "Suc ?p2 + length ts"
  have a3: "at e (Suc ?p2) (ts @ 32 # VERSION_TEXT @ xs)" using at_Cons(3) [OF a2] .
  have "\<forall>b \<in> set ts. target_char b" "p_state c3 \<in> set origin_states" "room e c3 (length ts)"
    using assms(3) c3(2,7) u2 room by (simp_all add: list_all_iff origin_states_def room_def)
  from loop_target [OF a3 this(1,2) c3(3) this(3)] obtain c4 where c4: "ex_loop e (Suc ?p2) c3 = ex_loop e ?p4 c4"
    "p_state c4 \<in> set origin_states" "head_inv m c4" "quiet c3 c4 (length ts)" by blast
  have a4: "at e ?p4 (32 # VERSION_TEXT @ xs)" using at_append [OF a3] .
  have u4: "unat (cnt c4) = unat (cnt c) + length cs + length ts + 3" using c4(4) c3(7) u2 by (simp add: quiet_def)
  have "room e c4 1" "marks c4 = [url_mark \<mapsto> ?p2]"
    using u4 room c4(4) c3(4) by (simp_all add: room_def quiet_def)
  then obtain c5 where c5: "ex_loop e ?p4 c4 = ex_loop e (Suc ?p4) c5" "p_state c5 = s_req_http_start" "head_inv m c5"
    "marks c5 = (\<lambda>_. None)" "app c5 = ev (Ev_Url (take (?p4 - ?p2) (drop ?p2 (input e)))) (app c4)"
    "flags (hp c5) = flags (hp c4)" "unat (cnt c5) = Suc (unat (cnt c4))"
    using loop_target_end [OF a4 c4(2,3) _ _ assms(9)] by blast
  have t: "take (?p4 - ?p2) (drop ?p2 (input e)) = 47 # ts" using at_take [of e ?p2 "47 # ts"] a2 by simp
  have a5: "at e (Suc ?p4) (VERSION_TEXT @ xs)" using at_Cons(3) [OF a4] .
  have "room e c5 10" using c5(7) u4 room by (simp add: room_def)
  then obtain c6 where c6: "ex_loop e (Suc ?p4) c5 = ex_loop e (Suc ?p4 + 10) c6" "p_state c6 = s_header_field_start"
    "head_inv m c6" "quiet c5 c6 10" "http_major (hp c6) = 1" "http_minor (hp c6) = 1"
    using loop_version [OF a5 [unfolded VERSION_TEXT_def] c5(2,3)] by blast
  have "ex_loop e p c = ex_loop e (Suc ?p4 + 10) c6" using c1(1) c2(1) c3(1) c4(1) c5(1) c6(1) by (simp only:)
  moreover have "Suc ?p4 + 10 = p + length (method_strings m) + length ts + 13" using m(1) by simp
  ultimately show thesis
    using c1 c2 c3 c4 c5 c6 t u4 m(1) by (intro that [of c6]) (simp_all add: quiet_def)
qed

lemma NEW_MESSAGE_request:
  "ptype h = HTTP_REQUEST \<Longrightarrow> http_major h = 1 \<Longrightarrow> http_minor h = 1 \<Longrightarrow>
     NEW_MESSAGE h = (if has_flag h F_CONNECTION_CLOSE then s_dead else s_start_req)"
  by (simp add: NEW_MESSAGE_def http_should_keep_alive_def http_message_needs_eof_def start_state_def)

text \<open>From the first byte of a request to its empty line, and over it.\<close>

lemma request_text_length:
  "length (request_text m (47 # ts) hs) = length (method_strings m) + length ts + 13 + length (lines_text hs) + 2"
  by (simp add: request_text_def VERSION_TEXT_def)

lemma loop_head:
  assumes "at e p (request_text m (47 # ts) hs @ xs)" "m \<noteq> HTTP_CONNECT" "list_all target_char ts" "list_all header_ok hs"
    "p_state c = s_start_req" "http_errno (hp c) = HPE_OK" "ptype (hp c) = HTTP_REQUEST" "marks c = (\<lambda>_. None)"
    "room e c (length (request_text m (47 # ts) hs))" "settings e = settings_of ev"
  defines "q \<equiv> p + length (method_strings m) + length ts + 13 + length (lines_text hs)"
  obtains c' where "ex_loop e p c = ex_loop e q c'" "at e q (13 # 10 # xs)" "p_state c' = s_header_field_start"
    "marks c' = (\<lambda>_. None)" "app c' = fold ev (header_events hs) (ev (Ev_Url (47 # ts)) (ev Ev_Begin (app c)))"
    "head_read m (hp c')" "room e c' 2"
    "wants_upgrade hs \<longrightarrow> connection_upgrade hs \<Longrightarrow>
       (has_flag (hp c') F_UPGRADE \<and> has_flag (hp c') F_CONNECTION_UPGRADE) = wants_upgrade hs"
    "list_all stays_open hs \<longrightarrow> \<not> has_flag (hp c') F_CONNECTION_CLOSE"
proof -
  let ?L = "method_strings m @ 32 # 47 # ts @ 32 # VERSION_TEXT"
  have L: "length ?L = length (method_strings m) + length ts + 13" by (simp add: VERSION_TEXT_def)
  have room: "room e c (length (method_strings m) + length ts + 13 + length (lines_text hs) + 2)"
    using assms(9) by (simp only: request_text_length)
  have a: "at e p (method_strings m @ 32 # 47 # ts @ 32 # VERSION_TEXT @ lines_text hs @ 13 # 10 # xs)"
    using assms(1) by (simp add: request_text_def)
  let ?p1 = "p + length (method_strings m) + length ts + 13"
  obtain c1 where c1: "ex_loop e p c = ex_loop e ?p1 c1" "p_state c1 = s_header_field_start" "head_inv m c1"
    "marks c1 = (\<lambda>_. None)" "flags (hp c1) = 0" "app c1 = ev (Ev_Url (47 # ts)) (ev Ev_Begin (app c))"
    "http_major (hp c1) = 1" "http_minor (hp c1) = 1" "unat (cnt c1) = unat (cnt c) + length (method_strings m) + length ts + 13"
    by (rule loop_request_line [OF a assms(2,3,5-8) room_mono [OF room] assms(10)]) simp_all
  have a1: "at e ?p1 (lines_text hs @ 13 # 10 # xs)"
    using at_append [of e p ?L "lines_text hs @ 13 # 10 # xs"] a unfolding L by (simp add: add.assoc)
  have r1: "room e c1 (length (lines_text hs) + 1)" using c1(9) room by (simp add: room_def)
  have e1: "http_errno (hp c1) = HPE_OK" using c1(3) by (simp add: head_inv_def)
  from loop_lines [OF a1 assms(4) c1(2,4) r1 e1 assms(10)] obtain c2 where c2: "ex_loop e ?p1 c1 = ex_loop e q c2"
    "p_state c2 = s_header_field_start" "marks c2 = (\<lambda>_. None)" "app c2 = fold ev (header_events hs) (app c1)"
    "same_head (hp c1) (hp c2)" "lines_flags hs (hp c1) (hp c2)" "unat (cnt c2) = unat (cnt c1) + length (lines_text hs)"
    unfolding q_def by blast
  have no: "\<not> has_flag (hp c1) g" for g using c1(5) by (simp add: has_flag_def)
  have "head_read m (hp c2)"
    using c1(3,7,8) c2(5,6) no by (auto simp: head_read_def head_inv_def same_head_def lines_flags_def)
  moreover have "(has_flag (hp c2) F_UPGRADE \<and> has_flag (hp c2) F_CONNECTION_UPGRADE) = wants_upgrade hs"
    if "wants_upgrade hs \<longrightarrow> connection_upgrade hs"
    using c2(6) no that by (auto simp: lines_flags_def wants_upgrade_def connection_upgrade_def)
  moreover have "list_all stays_open hs \<longrightarrow> \<not> has_flag (hp c2) F_CONNECTION_CLOSE"
    using c2(6) no by (auto simp: lines_flags_def)
  moreover have "room e c2 2" using c2(7) c1(9) room by (simp add: room_def)
  moreover have "at e q (13 # 10 # xs)" using at_append [OF a1] by (simp add: q_def)
  ultimately show thesis using c1(1,6) c2(1-4) by (intro that [of c2]) simp_all
qed

lemma loop_request:
  assumes "at e p (request_text m tgt hs @ xs)" "request_ok (max_header_size e) m tgt hs" "wants_upgrade hs \<longrightarrow> connection_upgrade hs"
    "p_state c = s_start_req" "http_errno (hp c) = HPE_OK" "ptype (hp c) = HTTP_REQUEST" "marks c = (\<lambda>_. None)" "cnt c = 0"
    "settings e = settings_of ev"
  defines "q \<equiv> p + length (request_text m tgt hs)"
  obtains c' where "ex_loop e p c = (if wants_upgrade hs then RETURN c' q else ex_loop e q c')"
    "app c' = fold ev (request_events m tgt hs @ [Ev_Complete (wants_upgrade hs)]) (app c)" "marks c' = (\<lambda>_. None)"
    "cnt c' = 0" "http_errno (hp c') = HPE_OK" "ptype (hp c') = HTTP_REQUEST"
    "list_all stays_open hs \<longrightarrow> p_state c' = s_start_req"
proof -
  obtain ts where ts: "tgt = 47 # ts" "list_all target_char ts"
    using assms(2) by (cases tgt) (auto simp: request_ok_def target_ok_def)
  have ok: "m \<noteq> HTTP_CONNECT" "list_all header_ok hs" "room e c (length (request_text m (47 # ts) hs))"
    using assms(2,8) by (simp_all add: request_ok_def room_def ts)
  let ?p2 = "p + length (method_strings m) + length ts + 13 + length (lines_text hs)"
  obtain c2 where c2: "ex_loop e p c = ex_loop e ?p2 c2" "at e ?p2 (13 # 10 # xs)" "p_state c2 = s_header_field_start"
    "marks c2 = (\<lambda>_. None)" "app c2 = fold ev (header_events hs) (ev (Ev_Url (47 # ts)) (ev Ev_Begin (app c)))"
    "head_read m (hp c2)" "room e c2 2"
    "(has_flag (hp c2) F_UPGRADE \<and> has_flag (hp c2) F_CONNECTION_UPGRADE) = wants_upgrade hs"
    "list_all stays_open hs \<longrightarrow> \<not> has_flag (hp c2) F_CONNECTION_CLOSE"
    using loop_head [OF assms(1) [unfolded ts(1)] ok(1) ts(2) ok(2) assms(4-7) ok(3) assms(9)] assms(3) by metis
  define p3 where "p3 = Suc ?p2"
  let ?c3 = "c2\<lparr>cnt := cnt c2 + 1, p_state := s_headers_almost_done\<rparr>"
  have s2: "ex_loop e ?p2 c2 = ex_loop e p3 ?c3"
    unfolding p3_def
    using c2(2,3) room_mono [OF c2(7)] at_Cons(2) [OF c2(2)]
    by (intro loop_header_byte) (simp_all add: switch_simps ex_header_field_start_def UPDATE_STATE_def)
  have a3: "at e p3 (10 # xs)" using at_Cons(3) [OF c2(2)] by (simp only: p3_def)
  have r3: "room e ?c3 1" using cnt_Suc [OF room_mono [OF c2(7)]] c2(7) by (simp add: room_def)
  let ?c4 = "?c3\<lparr>cnt := cnt ?c3 + 1\<rparr>"
  have h4: "head_read m (hp ?c4)" "(has_flag (hp ?c4) F_UPGRADE \<and> has_flag (hp ?c4) F_CONNECTION_UPGRADE) = wants_upgrade hs"
    using c2(6,8) by simp_all
  obtain c' where c': "ex_headers_almost_done e p3 ?c4
      = (if wants_upgrade hs then RETURN c' (Suc p3) else Break c' p3)"
    "app c' = ev (Ev_Complete (wants_upgrade hs)) (ev (Ev_Headers m 1 1) (app ?c4))" "marks c' = marks ?c4" "cnt c' = 0"
    "p_state c' = NEW_MESSAGE (hp ?c4)" "http_errno (hp c') = HPE_OK" "ptype (hp c') = HTTP_REQUEST"
    by (rule headers_almost_done [OF at_Cons(2) [OF a3] h4(1) ok(1) assms(9), unfolded h4(2) Suc_eq_plus1 [symmetric]])
  have "ex_byte e p3 ?c3 = ex_headers_almost_done e p3 ?c4"
    using COUNT_ok [OF r3] by (simp add: ex_byte_def switch_simps)
  then have "ex_loop e p3 ?c3 = (if wants_upgrade hs then RETURN c' (Suc p3) else ex_loop e (Suc p3) c')"
    using at_Cons(1) [OF a3] c'(1) by (simp add: ex_loop.simps [of e p3 ?c3] RETURN_def)
  moreover have "Suc p3 = q" by (simp add: q_def p3_def ts(1) request_text_length)
  ultimately have "ex_loop e p c = (if wants_upgrade hs then RETURN c' q else ex_loop e q c')"
    using c2(1) s2 by (simp only:)
  moreover have "NEW_MESSAGE (hp ?c4) = (if has_flag (hp ?c4) F_CONNECTION_CLOSE then s_dead else s_start_req)"
    using h4(1) by (intro NEW_MESSAGE_request) (simp_all add: head_read_def)
  ultimately show thesis
    using c2(4,5,9) c' ts(1) by (intro that [of c']) (simp_all add: request_events_def)
qed


section \<open>Calls of the parser\<close>

lemma finish_requests:
  assumes "marks c = (\<lambda>_. None)" "p = length (input e)" "http_errno (hp c) = HPE_OK"
  shows "ex_loop e p c = RETURN c p"
  using assms by (simp add: ex_loop.simps [of e "length (input e)"] ex_finish_def assert_that_def CALLBACK_DATA_NOADVANCE_def CALLBACK_DATA_er_def)

lemma initial_marks_start [simp]: "initial_marks s_start_req = (\<lambda>_. None)"
  by (auto simp: initial_marks_def url_schema_states_def url_tail_states_def fun_eq_iff)

lemma request_text_nonempty [simp]: "request_text m tgt hs \<noteq> []"
  by (simp add: request_text_def)

text \<open>A call on a buffer, as its loop.\<close>

definition call_env :: "u32 \<Rightarrow> http_parser \<Rightarrow> bytes \<Rightarrow> http_event list exec_env" where
  "call_env mhs h buf = \<lparr>settings = collecting_events, max_header_size = mhs, input = buf,
     lenient = lenient_http_headers h, allow_chunked = allow_chunked_length h\<rparr>"

definition call_start :: "http_parser \<Rightarrow> http_event list exec" where
  "call_start h = \<lparr>hp = h, p_state = state h, cnt = nread h, marks = (\<lambda>_. None), app = []\<rparr>"

lemma call_simps [simp]:
  "settings (call_env mhs h buf) = settings_of (\<lambda>ev evs. evs @ [ev])" "max_header_size (call_env mhs h buf) = mhs"
  "input (call_env mhs h buf) = buf" "at (call_env mhs h buf) 0 buf"
  "hp (call_start h) = h" "p_state (call_start h) = state h" "cnt (call_start h) = nread h"
  "marks (call_start h) = (\<lambda>_. None)" "app (call_start h) = []"
  by (simp_all add: call_env_def call_start_def at_def collecting_events_def)

lemma execute_call:
  assumes "between_requests h" "buf \<noteq> []" "ex_loop (call_env mhs h buf) 0 (call_start h) = RETURN c n"
  shows "execute_events mhs h buf = Some ((hp c)\<lparr>nread := cnt c, state := p_state c\<rparr>, app c, n)"
  using assms
  by (simp add: execute_events_def http_parser_execute_def between_requests_def call_env_def call_start_def RETURN_def)

lemma fold_collect: "fold (\<lambda>ev evs. evs @ [ev]) xs ys = ys @ xs"
  by (induction xs arbitrary: ys) simp_all

lemma request_okI:
  "m \<noteq> HTTP_CONNECT \<Longrightarrow> target_ok tgt \<Longrightarrow> list_all header_ok hs \<Longrightarrow> length (request_text m tgt hs) \<le> 300
   \<Longrightarrow> request_ok HTTP_MAX_HEADER_SIZE m tgt hs"
  by (simp add: request_ok_def HTTP_MAX_HEADER_SIZE_def)

type_synonym request = "http_method \<times> bytes \<times> (bytes \<times> bytes) list"

text \<open>A request without a body that asks neither for an upgrade nor for the end of the connection.\<close>

definition plain_request :: "u32 \<Rightarrow> request \<Rightarrow> bool" where
  "plain_request mhs = (\<lambda>(m, tgt, hs). request_ok mhs m tgt hs \<and> \<not> wants_upgrade hs \<and> list_all stays_open hs)"

definition requests_text :: "request list \<Rightarrow> bytes" where
  "requests_text rs = concat (map (\<lambda>(m, tgt, hs). request_text m tgt hs) rs)"

definition message_events :: "request \<Rightarrow> http_event list" where
  "message_events = (\<lambda>(m, tgt, hs). request_events m tgt hs @ [Ev_Complete False])"

lemma loop_requests:
  assumes "at e p (requests_text rs)" "list_all (plain_request (max_header_size e)) rs"
    "p_state c = s_start_req" "http_errno (hp c) = HPE_OK" "ptype (hp c) = HTTP_REQUEST" "marks c = (\<lambda>_. None)" "cnt c = 0"
    "settings e = settings_of ev"
  shows "\<exists>c'. ex_loop e p c = RETURN c' (length (input e)) \<and> app c' = fold ev (concat (map message_events rs)) (app c)
    \<and> cnt c' = 0 \<and> http_errno (hp c') = HPE_OK \<and> ptype (hp c') = HTTP_REQUEST \<and> p_state c' = s_start_req"
  using assms
proof (induction rs arbitrary: p c)
  case Nil
  then have "p = length (input e)" by (simp add: at_def requests_text_def)
  with Nil.prems show ?case by (intro exI [of _ c]) (simp add: finish_requests)
next
  case (Cons r rs)
  obtain m tgt hs where r: "r = (m, tgt, hs)" by (cases r)
  have a: "at e p (request_text m tgt hs @ requests_text rs)" using Cons.prems(1) by (simp add: r requests_text_def)
  have ok: "request_ok (max_header_size e) m tgt hs" "\<not> wants_upgrade hs" "list_all stays_open hs"
    using Cons.prems(2) by (simp_all add: r plain_request_def)
  obtain c1 where c1: "ex_loop e p c = ex_loop e (p + length (request_text m tgt hs)) c1"
    "app c1 = fold ev (message_events r) (app c)" "marks c1 = (\<lambda>_. None)" "cnt c1 = 0" "http_errno (hp c1) = HPE_OK"
    "ptype (hp c1) = HTTP_REQUEST" "p_state c1 = s_start_req"
    using loop_request [OF a ok(1) _ Cons.prems(3-8)] ok(2,3) by (auto simp: message_events_def r)
  have "list_all (plain_request (max_header_size e)) rs" using Cons.prems(2) by simp
  from Cons.IH [OF at_append [OF a] this c1(7,5,6,3,4) Cons.prems(8)] c1(1,2) show ?case by auto
qed

lemma execute_requests:
  assumes "between_requests h" "rs \<noteq> []" "list_all (plain_request mhs) rs"
  shows "\<exists>h'. execute_events mhs h (requests_text rs)
      = Some (h', concat (map message_events rs), length (requests_text rs)) \<and> between_requests h'"
proof -
  let ?e = "call_env mhs h (requests_text rs)"
  have h: "state h = s_start_req" "http_errno h = HPE_OK" "ptype h = HTTP_REQUEST" "nread h = 0"
    using assms(1) by (simp_all add: between_requests_def)
  obtain c where c: "ex_loop ?e 0 (call_start h) = RETURN c (length (requests_text rs))"
    "app c = concat (map message_events rs)" "cnt c = 0" "http_errno (hp c) = HPE_OK" "ptype (hp c) = HTTP_REQUEST"
    "p_state c = s_start_req"
    using loop_requests [of ?e 0 rs "call_start h" "\<lambda>ev evs. evs @ [ev]"] assms(3) h by (auto simp: fold_collect)
  have "requests_text rs \<noteq> []" using assms(2) by (cases rs) (auto simp: requests_text_def)
  from execute_call [OF assms(1) this c(1)] c show ?thesis by (simp add: between_requests_def)
qed

text \<open>
  C10. Pipelined requests: a parser between two requests that is given a buffer with any number of
  requests one after the other (any methods but \<open>CONNECT\<close>, origin-form targets, any headers that do not
  frame a body, ask for an upgrade or close the connection) reports exactly the events of each, in order,
  takes the whole buffer, and is between two requests again.
\<close>

theorem pipelined_requests:
  assumes "between_requests h" "rs \<noteq> []" "list_all (plain_request mhs) rs"
  shows "\<exists>h'. execute_events mhs h (requests_text rs)
      = Some (h', concat (map message_events rs), length (requests_text rs)) \<and> between_requests h'"
  using assms by (rule execute_requests)

lemma between_requests_init: "between_requests (http_parser_init HTTP_REQUEST)"
  by (simp add: between_requests_def http_parser_init_def)

theorem pipelined_requests_witness:
  "\<exists>h'. execute_events HTTP_MAX_HEADER_SIZE (http_parser_init HTTP_REQUEST)
       (request_text HTTP_GET (bstr ''/a?b'') [(bstr ''Connection'', bstr ''keep-alive'')] @ request_text HTTP_HEAD [47] [])
     = Some (h', message_events (HTTP_GET, bstr ''/a?b'', [(bstr ''Connection'', bstr ''keep-alive'')])
                 @ message_events (HTTP_HEAD, [47], []), 64)"
proof -
  let ?rs = "[(HTTP_GET, bstr ''/a?b'', [(bstr ''Connection'', bstr ''keep-alive'')]), (HTTP_HEAD, [47], [])]"
  have "request_ok HTTP_MAX_HEADER_SIZE HTTP_GET (bstr ''/a?b'') [(bstr ''Connection'', bstr ''keep-alive'')]"
    "request_ok HTTP_MAX_HEADER_SIZE HTTP_HEAD [47] []"
    by (rule request_okI; code_simp)+
  moreover have "\<not> wants_upgrade [(bstr ''Connection'', bstr ''keep-alive'')] \<and> \<not> wants_upgrade []
      \<and> stays_open (bstr ''Connection'', bstr ''keep-alive'')" by code_simp
  ultimately have "list_all (plain_request HTTP_MAX_HEADER_SIZE) ?rs" by (simp add: plain_request_def)
  moreover have "length (requests_text ?rs) = 64" by code_simp
  ultimately show ?thesis
    using pipelined_requests [OF between_requests_init, of ?rs HTTP_MAX_HEADER_SIZE]
    by (auto simp: requests_text_def)
qed

text \<open>A single request, which may end the connection.\<close>

lemma execute_request:
  assumes "between_requests h" "request_ok mhs m tgt hs" "\<not> wants_upgrade hs"
  shows "\<exists>h'. execute_events mhs h (request_text m tgt hs)
      = Some (h', message_events (m, tgt, hs), length (request_text m tgt hs))
    \<and> http_errno h' = HPE_OK \<and> (list_all stays_open hs \<longrightarrow> between_requests h')"
proof -
  let ?e = "call_env mhs h (request_text m tgt hs)"
  have h: "state h = s_start_req" "http_errno h = HPE_OK" "ptype h = HTTP_REQUEST" "nread h = 0"
    using assms(1) by (simp_all add: between_requests_def)
  obtain c where c: "ex_loop ?e 0 (call_start h) = ex_loop ?e (length (request_text m tgt hs)) c"
    "app c = message_events (m, tgt, hs)" "marks c = (\<lambda>_. None)" "cnt c = 0" "http_errno (hp c) = HPE_OK"
    "ptype (hp c) = HTTP_REQUEST" "list_all stays_open hs \<longrightarrow> p_state c = s_start_req"
    using loop_request [of ?e 0 m tgt hs "[]" "call_start h" "\<lambda>ev evs. evs @ [ev]"] assms(2,3) h
    by (auto simp: fold_collect message_events_def)
  have "ex_loop ?e 0 (call_start h) = RETURN c (length (request_text m tgt hs))"
    using c finish_requests [of c "length (request_text m tgt hs)" ?e] by simp
  from execute_call [OF assms(1) _ this] c show ?thesis by (simp add: between_requests_def)
qed

text \<open>A request for an upgrade: the parser stops behind its head, whatever follows.\<close>

lemma execute_upgrade:
  assumes "between_requests h" "request_ok mhs m tgt hs" "wants_upgrade hs" "connection_upgrade hs"
  shows "\<exists>h'. execute_events mhs h (request_text m tgt hs @ xs)
      = Some (h', request_events m tgt hs @ [Ev_Complete True], length (request_text m tgt hs)) \<and> http_errno h' = HPE_OK"
proof -
  let ?e = "call_env mhs h (request_text m tgt hs @ xs)"
  have h: "state h = s_start_req" "http_errno h = HPE_OK" "ptype h = HTTP_REQUEST" "nread h = 0"
    using assms(1) by (simp_all add: between_requests_def)
  obtain c where c: "ex_loop ?e 0 (call_start h) = RETURN c (length (request_text m tgt hs))"
    "app c = request_events m tgt hs @ [Ev_Complete True]" "http_errno (hp c) = HPE_OK"
    using loop_request [of ?e 0 m tgt hs xs "call_start h" "\<lambda>ev evs. evs @ [ev]"] assms(2-4) h
    by (auto simp: fold_collect)
  from execute_call [OF assms(1) _ c(1)] c show ?thesis by simp
qed

end
