(* ===== verification/Http_Service.thy ===== *)
theory Http_Service
  imports Http_Server Hp_Message
begin

text \<open>
  The HTTP server as its client sees it: from the bytes of a request on a socket, through the parser,
  the session, the router, the handler and the response, to the bytes that are written and to what the
  completion of the write does to the connection.
\<close>

section \<open>Handlers that answer at once\<close>

text \<open>A handler that computes a status and a text from the request and sends them.\<close>

definition text_handler :: "(httpReq \<Rightarrow> httpStatus \<times> bytes) \<Rightarrow> RouterHandler" where
  "text_handler f req = (case f req of (st, msg) \<Rightarrow> (req, [Call_setStatus st, Call_sendStr msg], None))"

definition text_reply :: "httpStatus \<Rightarrow> bytes \<Rightarrow> header_iter \<Rightarrow> http_response" where
  "text_reply st msg it =
     \<lparr>resp = sendStr it FileReader_init msg (setStatus st httpResp_init), m_onSent = Sent_session, m_reader = None\<rparr>"

text \<open>
  The router sends \<open>req\<close> to such a handler, which gives \<open>st\<close> and \<open>msg\<close>, or to one that just sends \<open>msg\<close>, or
  to none; \<open>req'\<close> is the request with its parameters bound.
\<close>

definition answers :: "'rx http_env \<Rightarrow> httpReq \<Rightarrow> httpReq \<Rightarrow> httpStatus \<Rightarrow> bytes \<Rightarrow> bool" where
  "answers env req req' st msg \<longleftrightarrow>
     (\<exists>f. dispatch (rx_match env) (m_router env) req = (Some (text_handler f), req') \<and> f req' = (st, msg))
     \<or> (\<exists>h. dispatch (rx_match env) (m_router env) req = (Some h, req') \<and> h req' = (req', [Call_sendStr msg], None) \<and> st = OK)
     \<or> (dispatch (rx_match env) (m_router env) req = (None, req') \<and> st = NOT_FOUND \<and> msg = bstr ''404 Not Found'')"

lemma writes_sendStr [simp]: "length (writes (sendStr it rd msg r)) = length (writes r) + 1"
  by (simp add: sendStr_def writes_send setHeader_def)

lemma writes_init [simp]: "writes httpResp_init = []"
  by (simp add: httpResp_init_def)

lemma setStatus_writes [simp]: "writes (setStatus st r) = writes r"
  by (simp add: setStatus_def)

lemma handle_request_answers:
  assumes "answers env (m_req (sess c)) req' st msg"
  shows "handle_request env False c =
    c\<lparr>resps := resps c @ [text_reply st msg (hdr_order env)], wq := wq c @ [length (resps c)],
      sess := (sess c)\<lparr>m_isKeepAlive := needKeepConnection (m_req (sess c)), m_req := req'\<rparr>\<rparr>"
proof -
  have u: "(resps c @ [r])[length (resps c) := x] = resps c @ [x]" for r x by simp
  have ok: "setStatus OK httpResp_init = httpResp_init" by (simp add: setStatus_def httpResp_init_def)
  from assms show ?thesis
    unfolding answers_def
    by (elim disjE exE conjE)
       (simp_all add: handle_request_def initResp_def upd_sess_def upd_req_def run_handler_def text_handler_def
        run_calls_def on_resp_def upd_resp_def Let_def reader_of_def handle_errReq_def text_reply_def nth_append u ok)
qed

text \<open>The client reads the status and the text.\<close>

lemma text_reply_reads:
  assumes "\<And>hs. mset (it hs) = mset hs"
  shows "\<exists>w. writes (resp (text_reply st msg it)) = [w]
    \<and> read_response (wire w @ rest) =
        Some (bstr ''HTTP/1.1 '' @ httpStatus_str st,
              [(bstr ''Content-Type'', bstr ''text/plain''), (CL, to_string (length msg))], msg, rest)"
proof -
  have "set (it hs) = set hs" for hs by (metis assms set_mset_mset)
  moreover have "it [(bstr ''Content-Type'', bstr ''text/plain'')] = [(bstr ''Content-Type'', bstr ''text/plain'')]"
    using assms [of "[(bstr ''Content-Type'', bstr ''text/plain'')]"] by (simp only: mset_single_iff mset.simps)
  ultimately show ?thesis
    using sendStr_reads [of "setStatus st httpResp_init" it FileReader_init msg rest]
    by (simp add: text_reply_def headers_ok_def setStatus_def httpResp_init_def)
qed

section \<open>A request on a connection\<close>

definition stopped :: "conn \<Rightarrow> conn" where
  "stopped c = (if m_isKeepAlive (sess c) then stopKeepAliveTimer c else c)"

lemma stopped_simps [simp]:
  "m_hparser (sess (stopped c)) = m_hparser (sess c)" "m_recvBuf (sess (stopped c)) = m_recvBuf (sess c)"
  "m_req (sess (stopped c)) = m_req (sess c)" "resps (stopped c) = resps c" "wq (stopped c) = wq c"
  "live (stopped c) = live c" "closes (stopped c) = closes c" "reading (stopped c) = reading c"
  "crashed (stopped c) = crashed c" "upgraded (stopped c) = upgraded c"
  by (simp_all add: stopped_def stopKeepAliveTimer_def upd_sess_def)

text \<open>The connection after a request that is answered: \<open>k\<close> is what is left in \<open>m_tmpKey\<close>.\<close>

definition answered :: "'rx http_env \<Rightarrow> httpReq \<Rightarrow> httpReq \<Rightarrow> httpStatus \<Rightarrow> bytes \<Rightarrow> bytes \<Rightarrow> conn \<Rightarrow> conn" where
  "answered env req req' st msg k c =
     c\<lparr>resps := resps c @ [text_reply st msg (hdr_order env)], wq := wq c @ [length (resps c)],
       sess := (sess c)\<lparr>m_tmpKey := k, m_isKeepAlive := needKeepConnection req, m_req := req'\<rparr>\<rparr>"

lemma fold_answered:
  assumes "answers env (request_of m 1 1 tgt hs [] (m_req (sess c))) req' st msg"
  shows "\<exists>k. fold (on_event env) (message_events (m, tgt, hs)) c
    = answered env (request_of m 1 1 tgt hs [] (m_req (sess c))) req' st msg k c"
proof -
  let ?d = "upd_sess (\<lambda>s. s\<lparr>m_tmpKey := (if hs = [] then m_tmpKey s else map tolower (fst (last hs))),
     m_req := request_of m 1 1 tgt hs [] (m_req s)\<rparr>) c"
  have run: "fold (on_event env) (message_events (m, tgt, hs)) c = handle_request env False ?d"
    using fold_message [where bs = "[]" and env = env and u = tgt and hs = hs and m = m and major = 1 and minor = 1 and upg = False and c = c]
    by (simp add: message_events_def request_events_def)
  have "answers env (m_req (sess ?d)) req' st msg" using assms by (simp add: upd_sess_def)
  from handle_request_answers [OF this] have "handle_request env False ?d
    = answered env (request_of m 1 1 tgt hs [] (m_req (sess c))) req' st msg (m_tmpKey (sess ?d)) c"
    by (simp add: answered_def upd_sess_def)
  with run show ?thesis by (intro exI) simp
qed

lemma recv_request:
  assumes "between_requests (m_hparser (sess c))" "m_recvBuf (sess c) \<noteq> 0" "request_ok mhs m tgt hs" "\<not> wants_upgrade hs"
    "answers env (request_of m 1 1 tgt hs [] (m_req (sess c))) req' st msg"
  obtains h' k where
    "recv_data mhs env (request_text m tgt hs) c =
       upd_sess (\<lambda>s. s\<lparr>m_hparser := h'\<rparr>)
         (answered env (request_of m 1 1 tgt hs [] (m_req (sess c))) req' st msg k (stopped c))"
    "list_all stays_open hs \<longrightarrow> between_requests h'"
proof -
  obtain h' where h': "execute_events mhs (m_hparser (sess c)) (request_text m tgt hs)
      = Some (h', message_events (m, tgt, hs), length (request_text m tgt hs))"
    "list_all stays_open hs \<longrightarrow> between_requests h'"
    using execute_request [OF assms(1,3,4)] by blast
  obtain k where "fold (on_event env) (message_events (m, tgt, hs)) (stopped c)
      = answered env (request_of m 1 1 tgt hs [] (m_req (sess c))) req' st msg k (stopped c)"
    using fold_answered [of env m tgt hs "stopped c" req' st msg] assms(5) by auto
  with recv_data_events [OF h'(1) assms(2), of env] h'(2) show thesis
    by (intro that [of h' k]) (simp_all add: stopped_def)
qed


section \<open>Reading and writing on a connection\<close>

text \<open>A read as libuv performs it: the buffer is allocated, with length \<open>len\<close>, and the bytes are delivered.\<close>

definition deliver :: "u32 \<Rightarrow> 'rx http_env \<Rightarrow> nat \<Rightarrow> size_t \<Rightarrow> bytes \<Rightarrow> 'w HttpServer \<Rightarrow> 'w HttpServer" where
  "deliver mhs env sid len buf sv = recv_cb mhs env sid (Read_data buf) (upd_conn sid (alloc_to len) sv)"

lemma alloc_to_simps [simp]:
  "m_hparser (sess (alloc_to len c)) = m_hparser (sess c)" "m_recvBuf (sess (alloc_to len c)) = len"
  "m_req (sess (alloc_to len c)) = m_req (sess c)" "resps (alloc_to len c) = resps c" "wq (alloc_to len c) = wq c"
  "live (alloc_to len c) = live c" "closes (alloc_to len c) = closes c" "crashed (alloc_to len c) = crashed c"
  "m_isKeepAlive (sess (alloc_to len c)) = m_isKeepAlive (sess c)" "upgraded (alloc_to len c) = upgraded c"
  "m_keepAliveTimer (sess (alloc_to len c)) = m_keepAliveTimer (sess c)"
  by (simp_all add: alloc_to_def upd_sess_def)

lemma still_running: "\<not> terminated sv \<Longrightarrow> sv\<lparr>conns := cs, terminated := False\<rparr> = sv\<lparr>conns := cs\<rparr>"
  by (cases sv) simp

lemma deliver_eq:
  assumes "conns sv sid = Some c"
  shows "deliver mhs env sid len buf sv =
    (let c' = recv_data mhs env buf (alloc_to len c)
     in sv\<lparr>conns := (conns sv)(sid \<mapsto> c'), terminated := terminated sv \<or> crashed c \<or> crashed c'\<rparr>)"
  using assms by (simp add: deliver_def upd_conn_def Let_def)

lemma session_close_conn:
  assumes "distinct (m_sessions sv)" "conns sv sid = Some c"
  shows "conns (session_close sid sv) = (conns sv)(sid \<mapsto> c\<lparr>reading := False, closes := closes c + 1, live := False\<rparr>)"
    "m_sessions (session_close sid sv) = removeSession sid (m_sessions sv)" "sid \<notin> set (m_sessions (session_close sid sv))"
    "terminated (session_close sid sv) \<longleftrightarrow> terminated sv \<or> crashed c"
proof -
  have "sid \<notin> set (removeSession sid (m_sessions sv))" using assms(1) by (simp add: http_reg.set_remove)
  then show "conns (session_close sid sv) = (conns sv)(sid \<mapsto> c\<lparr>reading := False, closes := closes c + 1, live := False\<rparr>)"
    "m_sessions (session_close sid sv) = removeSession sid (m_sessions sv)" "sid \<notin> set (m_sessions (session_close sid sv))"
    "terminated (session_close sid sv) \<longleftrightarrow> terminated sv \<or> crashed c"
    using assms(2) by (auto simp: session_close_def closeSession_def release_def upd_conn_def Let_def)
qed

lemma write_complete_session:
  assumes "conns sv sid = Some c" "wq c = i # q" "m_onSent (resps c ! i) = Sent_session" "live c"
  shows "write_complete env sid status sv =
    (let c' = c\<lparr>wq := q\<rparr>; sv' = sv\<lparr>conns := (conns sv)(sid \<mapsto> c'), terminated := terminated sv \<or> crashed c\<rparr>
     in if m_isKeepAlive (sess c)
        then sv\<lparr>conns := (conns sv)(sid \<mapsto> startKeepAliveTimer env c'), terminated := terminated sv \<or> crashed c\<rparr>
        else session_close sid sv')"
  using assms
  by (simp add: write_complete_def onWriteEnd_def on_sent_def upd_conn_def Let_def)
    (simp add: startKeepAliveTimer_def upd_sess_def)

section \<open>One request, one response\<close>

text \<open>A connection on which the server waits for a request.\<close>

definition idle :: "conn \<Rightarrow> bool" where
  "idle c \<longleftrightarrow> live c \<and> \<not> crashed c \<and> wq c = [] \<and> between_requests (m_hparser (sess c))"

definition keeps_alive :: "(bytes \<times> bytes) list \<Rightarrow> bool" where
  "keeps_alive hs \<longleftrightarrow> stored_headers hs CONNECTION_KEY = Some (bstr ''keep-alive'')"

lemma needKeepConnection_request [simp]:
  "needKeepConnection (request_of m major minor u hs b req) = keeps_alive hs"
  by (simp add: needKeepConnection_def request_of_def keeps_alive_def split: option.split)

lemma deliver_request:
  assumes "conns sv sid = Some c" "\<not> terminated sv" "idle c" "len \<noteq> 0" "request_ok mhs m tgt hs" "\<not> wants_upgrade hs"
    "answers env (request_of m 1 1 tgt hs [] (m_req (sess c))) req' st msg"
  obtains c' where "deliver mhs env sid len (request_text m tgt hs) sv = sv\<lparr>conns := (conns sv)(sid \<mapsto> c')\<rparr>"
    "resps c' = resps c @ [text_reply st msg (hdr_order env)]" "wq c' = [length (resps c)]"
    "m_isKeepAlive (sess c') = keeps_alive hs" "live c'" "\<not> crashed c'" "closes c' = closes c"
    "m_req (sess c') = req'" "list_all stays_open hs \<longrightarrow> between_requests (m_hparser (sess c'))"
proof -
  let ?req = "request_of m 1 1 tgt hs [] (m_req (sess c))"
  have c: "between_requests (m_hparser (sess (alloc_to len c)))" "m_recvBuf (sess (alloc_to len c)) \<noteq> 0"
    "answers env (request_of m 1 1 tgt hs [] (m_req (sess (alloc_to len c)))) req' st msg"
    using assms(3,4,7) by (simp_all add: idle_def)
  obtain h' k where r: "recv_data mhs env (request_text m tgt hs) (alloc_to len c) =
       upd_sess (\<lambda>s. s\<lparr>m_hparser := h'\<rparr>) (answered env ?req req' st msg k (stopped (alloc_to len c)))"
    "list_all stays_open hs \<longrightarrow> between_requests h'"
    using recv_request [OF c(1,2) assms(5,6) c(3)] by auto
  let ?c' = "upd_sess (\<lambda>s. s\<lparr>m_hparser := h'\<rparr>) (answered env ?req req' st msg k (stopped (alloc_to len c)))"
  have "crashed ?c' = crashed c" by (simp add: answered_def upd_sess_def)
  then have "deliver mhs env sid len (request_text m tgt hs) sv = sv\<lparr>conns := (conns sv)(sid \<mapsto> ?c')\<rparr>"
    using assms(2,3) by (simp add: deliver_eq [OF assms(1)] r(1) idle_def)
  then show thesis
    by (rule that) (use assms(3) r(2) in \<open>simp_all add: answered_def upd_sess_def idle_def\<close>)
qed

text \<open>
  C1. The service of a connection. Let a connection be idle in any reachable state of the server, and let
  the client send a well-formed request in one read: any method but \<open>CONNECT\<close>, any origin-form target of
  accepted characters, any well-formed headers within the header limit (\<open>Connection: close\<close> and the other
  values of \<open>Connection\<close> included) that frame no body and ask for no upgrade (\<open>request_ok\<close>, \<open>wants_upgrade\<close>).
  Let the router send it to a handler giving a status and a text, or to none. Then exactly one response is
  queued on the socket, from which a reader of HTTP recovers that status and text. When its write
  completes, with whatever status, before anything else happens on the connection: if the last
  \<open>Connection\<close> header said \<open>keep-alive\<close> (\<open>keeps_alive\<close>, the comparison of \<open>onReqMessageComplete\<close>) the
  connection stays open with nothing queued and the keep-alive timer running, and it is idle again, waiting
  for the next request, when no \<open>Connection\<close> or \<open>Proxy-Connection\<close> header said anything but \<open>keep-alive\<close> or
  \<open>upgrade\<close> (\<open>stays_open\<close>; after \<open>close\<close> the parser takes no further message). In every other case,
  \<open>Connection: close\<close> and no such header among them, the socket is closed, once, and the session is gone
  from the table.
\<close>

theorem request_served:
  assumes "http_reachable mhs env (server0 cb w) sv" "conns sv sid = Some c" "\<not> terminated sv" "idle c" "len \<noteq> 0"
    "request_ok mhs m tgt hs" "\<not> wants_upgrade hs"
    "answers env (request_of m 1 1 tgt hs [] (m_req (sess c))) req' st msg" "\<And>hs. mset (hdr_order env hs) = mset hs"
  shows "\<exists>c1 r x. conns (deliver mhs env sid len (request_text m tgt hs) sv) sid = Some c1
    \<and> resps c1 = resps c @ [r] \<and> wq c1 = [length (resps c)] \<and> m_req (sess c1) = req' \<and> writes (resp r) = [x]
    \<and> read_response (wire x) = Some (bstr ''HTTP/1.1 '' @ httpStatus_str st,
        [(bstr ''Content-Type'', bstr ''text/plain''), (CL, to_string (length msg))], msg, [])
    \<and> (\<exists>c2 sv2. write_complete env sid status (deliver mhs env sid len (request_text m tgt hs) sv) = sv2
         \<and> conns sv2 sid = Some c2 \<and> \<not> terminated sv2
         \<and> (if keeps_alive hs
            then live c2 \<and> wq c2 = [] \<and> closes c2 = 0 \<and> (list_all stays_open hs \<longrightarrow> idle c2)
              \<and> m_keepAliveTimer (sess c2) = \<lparr>tm_active = True, tm_data = True, tm_timeout = m_keepAliveTimeout env * 1000\<rparr>
            else \<not> live c2 \<and> closes c2 = 1 \<and> sid \<notin> set (m_sessions sv2)))"
proof -
  have ok: "server_ok sv" using http_reachable_ok [OF assms(1) server_ok_server0] .
  then have c: "closes c = 0" "distinct (m_sessions sv)" using assms(2,4) by (auto simp: server_ok_def conn_ok_def idle_def)
  obtain c1 where c1: "deliver mhs env sid len (request_text m tgt hs) sv = sv\<lparr>conns := (conns sv)(sid \<mapsto> c1)\<rparr>"
    "resps c1 = resps c @ [text_reply st msg (hdr_order env)]" "wq c1 = [length (resps c)]"
    "m_isKeepAlive (sess c1) = keeps_alive hs" "live c1" "\<not> crashed c1" "closes c1 = closes c"
    "m_req (sess c1) = req'" "list_all stays_open hs \<longrightarrow> between_requests (m_hparser (sess c1))"
    by (rule deliver_request [OF assms(2-8)])
  let ?sv1 = "sv\<lparr>conns := (conns sv)(sid \<mapsto> c1)\<rparr>"
  have on: "m_onSent (resps c1 ! length (resps c)) = Sent_session" by (simp add: c1(2) text_reply_def)
  have w: "write_complete env sid status ?sv1 =
    (let c' = c1\<lparr>wq := []\<rparr>; sv' = sv\<lparr>conns := (conns sv)(sid \<mapsto> c')\<rparr>
     in if keeps_alive hs then sv\<lparr>conns := (conns sv)(sid \<mapsto> startKeepAliveTimer env c')\<rparr> else session_close sid sv')"
    using write_complete_session [where sv = ?sv1 and sid = sid and c = c1 and env = env and status = status, OF _ c1(3) on c1(5)]
      c1(4,6) assms(3) by (simp add: Let_def still_running)
  obtain x where x: "writes (resp (text_reply st msg (hdr_order env))) = [x]"
    "read_response (wire x) = Some (bstr ''HTTP/1.1 '' @ httpStatus_str st,
        [(bstr ''Content-Type'', bstr ''text/plain''), (CL, to_string (length msg))], msg, [])"
    using text_reply_reads [OF assms(9), where rest = "[]" and st = st and msg = msg] by auto
  have "\<exists>c2 sv2. write_complete env sid status ?sv1 = sv2 \<and> conns sv2 sid = Some c2 \<and> \<not> terminated sv2
         \<and> (if keeps_alive hs
            then live c2 \<and> wq c2 = [] \<and> closes c2 = 0 \<and> (list_all stays_open hs \<longrightarrow> idle c2)
              \<and> m_keepAliveTimer (sess c2) = \<lparr>tm_active = True, tm_data = True, tm_timeout = m_keepAliveTimeout env * 1000\<rparr>
            else \<not> live c2 \<and> closes c2 = 1 \<and> sid \<notin> set (m_sessions sv2))"
  proof (cases "keeps_alive hs")
    case True
    have "list_all stays_open hs \<longrightarrow> idle (startKeepAliveTimer env (c1\<lparr>wq := []\<rparr>))"
      using c1(5,6,9) by (simp add: idle_def startKeepAliveTimer_def upd_sess_def)
    with True w c c1(5,7) assms(3) show ?thesis by (simp add: startKeepAliveTimer_def upd_sess_def)
  next
    case False
    let ?sv = "sv\<lparr>conns := (conns sv)(sid \<mapsto> c1\<lparr>wq := []\<rparr>)\<rparr>"
    have "distinct (m_sessions ?sv)" "conns ?sv sid = Some (c1\<lparr>wq := []\<rparr>)" using c(2) by simp_all
    from session_close_conn [OF this] False w c c1(6,7) assms(3) show ?thesis by simp
  qed
  with c1 x show ?thesis by auto
qed


lemma answers_none: "dispatch (rx_match env) (m_router env) req = (None, req) \<Longrightarrow>
    answers env req req NOT_FOUND (bstr ''404 Not Found'')"
  by (simp add: answers_def)

definition one_client :: "'w HttpServer \<Rightarrow> 'w HttpServer" where
  "one_client sv = handle_connect 7 (Peer_Ip4 [49] 80) sv"

lemma one_client_conn:
  "conns (one_client (server0 cb w)) 7 = Some ((upd_req (set_ip (Peer_Ip4 [49] 80)) conn_init)\<lparr>reading := True\<rparr>)"
  "\<not> terminated (one_client (server0 cb w))" "idle ((upd_req (set_ip (Peer_Ip4 [49] 80)) conn_init)\<lparr>reading := True\<rparr>)"
  "m_sessions (one_client (server0 cb w)) = [7]"
  by (simp_all add: one_client_def handle_connect_def upd_conn_def Let_def server0_def idle_def conn_init_def upd_req_def
      upd_sess_def Session_init_def between_requests_init pushSession_def)

abbreviation keep_alive_line :: "bytes \<times> bytes" where
  "keep_alive_line \<equiv> (bstr ''Connection'', bstr ''keep-alive'')"

lemma keep_alive_request:
  "request_ok HTTP_MAX_HEADER_SIZE HTTP_GET [47] [keep_alive_line]" "\<not> wants_upgrade [keep_alive_line]"
  "list_all stays_open [keep_alive_line]" "keeps_alive [keep_alive_line]"
  "request_ok HTTP_MAX_HEADER_SIZE HTTP_GET [47] []" "\<not> wants_upgrade []" "\<not> keeps_alive []"
proof -
  show "request_ok HTTP_MAX_HEADER_SIZE HTTP_GET [47] [keep_alive_line]" "request_ok HTTP_MAX_HEADER_SIZE HTTP_GET [47] []"
    by (rule request_okI; code_simp)+
  show "\<not> wants_upgrade [keep_alive_line]" "list_all stays_open [keep_alive_line]" by code_simp+
qed (simp_all add: keeps_alive_def stored_headers_def tolower_def wants_upgrade_def)

abbreviation close_line :: "bytes \<times> bytes" where
  "close_line \<equiv> (bstr ''Connection'', bstr ''close'')"

lemma close_request:
  "request_ok HTTP_MAX_HEADER_SIZE HTTP_GET [47] [close_line]" "\<not> wants_upgrade [close_line]" "\<not> keeps_alive [close_line]"
proof -
  show "request_ok HTTP_MAX_HEADER_SIZE HTTP_GET [47] [close_line]" by (rule request_okI; code_simp)
  show "\<not> wants_upgrade [close_line]" "\<not> keeps_alive [close_line]" by code_simp+
qed

text \<open>A server without routes answers 404; it keeps the connection of the one request and closes that of the other.\<close>

theorem request_served_witness:
  "(\<exists>c1 r x c2. conns (deliver HTTP_MAX_HEADER_SIZE plain_env 7 65536 (request_text HTTP_GET [47] [keep_alive_line])
        (one_client (server0 None ()))) 7 = Some c1
    \<and> wq c1 = [0] \<and> resps c1 = [r] \<and> writes (resp r) = [x]
    \<and> read_response (wire x) = Some (bstr ''HTTP/1.1 404 Not Found'',
        [(bstr ''Content-Type'', bstr ''text/plain''), (CL, bstr ''13'')], bstr ''404 Not Found'', [])
    \<and> conns (write_complete plain_env 7 0 (deliver HTTP_MAX_HEADER_SIZE plain_env 7 65536
        (request_text HTTP_GET [47] [keep_alive_line]) (one_client (server0 None ())))) 7 = Some c2
    \<and> idle c2 \<and> m_keepAliveTimer (sess c2) = \<lparr>tm_active = True, tm_data = True, tm_timeout = 20000\<rparr>)
  \<and> (\<exists>c2. conns (write_complete plain_env 7 0 (deliver HTTP_MAX_HEADER_SIZE plain_env 7 65536
        (request_text HTTP_GET [47] [close_line]) (one_client (server0 None ())))) 7 = Some c2
    \<and> \<not> live c2 \<and> closes c2 = 1)"
proof -
  let ?c = "(upd_req (set_ip (Peer_Ip4 [49] 80)) conn_init)\<lparr>reading := True\<rparr>"
  have e: "m_router plain_env = Map.empty" "hdr_order plain_env = id" "m_keepAliveTimeout plain_env = 20"
    by (simp_all add: plain_env_def HTTP_DEFAULT_KEEP_ALIVE_TIMEOUT_def)
  have a: "answers plain_env req req NOT_FOUND (bstr ''404 Not Found'')" for req
    by (rule answers_none) (simp add: dispatch_def e)
  note served = request_served [OF one_connection [where cb = None and w = "()" and env = plain_env and mhs = HTTP_MAX_HEADER_SIZE,
        folded one_client_def] one_client_conn(1-3) _ _ _ a, where len = 65536 and status = 0]
  show ?thesis
    using served [OF _ keep_alive_request(1,2)] served [OF _ close_request(1,2)] close_request(3) keep_alive_request(3,4)
    by (auto simp: e conn_init_def upd_req_def upd_sess_def to_string.simps)
qed


section \<open>Several requests in one read\<close>

lemma recv_two_requests:
  assumes "between_requests (m_hparser (sess c))" "m_recvBuf (sess c) \<noteq> 0" "plain_request mhs (m1, t1, h1)" "plain_request mhs (m2, t2, h2)"
    "answers env (request_of m1 1 1 t1 h1 [] (m_req (sess c))) r1 s1 b1" "answers env (request_of m2 1 1 t2 h2 [] r1) r2 s2 b2"
  obtains h' k1 k2 where
    "recv_data mhs env (request_text m1 t1 h1 @ request_text m2 t2 h2) c =
       upd_sess (\<lambda>s. s\<lparr>m_hparser := h'\<rparr>)
         (answered env (request_of m2 1 1 t2 h2 [] r1) r2 s2 b2 k2
           (answered env (request_of m1 1 1 t1 h1 [] (m_req (sess c))) r1 s1 b1 k1 (stopped c)))"
proof -
  let ?rs = "[(m1, t1, h1), (m2, t2, h2)]"
  have "list_all (plain_request mhs) ?rs" using assms(3,4) by simp
  from execute_requests [OF assms(1) _ this] obtain h' where
    h': "execute_events mhs (m_hparser (sess c)) (request_text m1 t1 h1 @ request_text m2 t2 h2)
      = Some (h', message_events (m1, t1, h1) @ message_events (m2, t2, h2), length (request_text m1 t1 h1 @ request_text m2 t2 h2))"
    by (auto simp: requests_text_def)
  obtain k1 where k1: "fold (on_event env) (message_events (m1, t1, h1)) (stopped c)
      = answered env (request_of m1 1 1 t1 h1 [] (m_req (sess c))) r1 s1 b1 k1 (stopped c)"
    using fold_answered [of env m1 t1 h1 "stopped c" r1 s1 b1] assms(5) by auto
  define d where "d = answered env (request_of m1 1 1 t1 h1 [] (m_req (sess c))) r1 s1 b1 k1 (stopped c)"
  have "m_req (sess d) = r1" by (simp add: d_def answered_def)
  then obtain k2 where "fold (on_event env) (message_events (m2, t2, h2)) d
      = answered env (request_of m2 1 1 t2 h2 [] r1) r2 s2 b2 k2 d"
    using fold_answered [of env m2 t2 h2 d r2 s2 b2] assms(6) by auto
  with recv_data_events [OF h' assms(2), of env] k1 show thesis
    by (intro that [of h' k2 k1]) (simp add: stopped_def d_def)
qed

text \<open>
  C34. Two pipelined requests, the second without \<open>Connection: keep-alive\<close>: the session has one flag for
  all its responses, so the completion of the first response's write already closes the socket, while the
  write of the second response is still queued on it.
\<close>

theorem pipelined_response_cut:
  assumes "http_reachable mhs env (server0 cb w) sv" "conns sv sid = Some c" "\<not> terminated sv" "idle c" "len \<noteq> 0"
    "plain_request mhs (m1, t1, h1)" "plain_request mhs (m2, t2, h2)" "\<not> keeps_alive h2"
    "answers env (request_of m1 1 1 t1 h1 [] (m_req (sess c))) r1 s1 b1" "answers env (request_of m2 1 1 t2 h2 [] r1) r2 s2 b2"
  shows "\<exists>c2. conns (write_complete env sid status
        (deliver mhs env sid len (request_text m1 t1 h1 @ request_text m2 t2 h2) sv)) sid = Some c2
    \<and> length (resps c2) = length (resps c) + 2 \<and> wq c2 = [length (resps c) + 1] \<and> closes c2 = 1 \<and> \<not> live c2"
proof -
  have ok: "server_ok sv" using http_reachable_ok [OF assms(1) server_ok_server0] .
  then have c: "closes c = 0" "distinct (m_sessions sv)" using assms(2,4) by (auto simp: server_ok_def conn_ok_def idle_def)
  let ?d = "alloc_to len c"
  have d: "between_requests (m_hparser (sess ?d))" "m_recvBuf (sess ?d) \<noteq> 0"
    "answers env (request_of m1 1 1 t1 h1 [] (m_req (sess ?d))) r1 s1 b1"
    using assms(4,5,9) by (simp_all add: idle_def)
  obtain h' k1 k2 where r: "recv_data mhs env (request_text m1 t1 h1 @ request_text m2 t2 h2) ?d =
       upd_sess (\<lambda>s. s\<lparr>m_hparser := h'\<rparr>)
         (answered env (request_of m2 1 1 t2 h2 [] r1) r2 s2 b2 k2
           (answered env (request_of m1 1 1 t1 h1 [] (m_req (sess ?d))) r1 s1 b1 k1 (stopped ?d)))" (is "_ = ?c1")
    by (rule recv_two_requests [OF d(1,2) assms(6,7) d(3) assms(10)])
  define c1 where "c1 = ?c1"
  note r = r [folded c1_def]
  have c1: "crashed c1 = crashed c" "wq c1 = [length (resps c), length (resps c) + 1]" "live c1" "closes c1 = 0"
    "m_isKeepAlive (sess c1) = False" "length (resps c1) = length (resps c) + 2"
    "m_onSent (resps c1 ! length (resps c)) = Sent_session"
    unfolding c1_def using assms(4,8) c(1) by (simp_all add: answered_def upd_sess_def idle_def nth_append text_reply_def)
  have dl: "deliver mhs env sid len (request_text m1 t1 h1 @ request_text m2 t2 h2) sv = sv\<lparr>conns := (conns sv)(sid \<mapsto> c1)\<rparr>"
    using assms(3,4) c1(1) by (simp add: deliver_eq [OF assms(2)] r idle_def Let_def still_running)
  let ?sv = "sv\<lparr>conns := (conns sv)(sid \<mapsto> c1\<lparr>wq := [length (resps c) + 1]\<rparr>)\<rparr>"
  have "write_complete env sid status (sv\<lparr>conns := (conns sv)(sid \<mapsto> c1)\<rparr>) = session_close sid ?sv"
    using write_complete_session [where sv = "sv\<lparr>conns := (conns sv)(sid \<mapsto> c1)\<rparr>" and sid = sid and env = env and status = status,
        OF _ c1(2,7,3)] c1(1,5) assms(3,4) by (simp add: Let_def still_running idle_def)
  moreover have "distinct (m_sessions ?sv)" "conns ?sv sid = Some (c1\<lparr>wq := [length (resps c) + 1]\<rparr>)" using c(2) by simp_all
  from session_close_conn(1) [OF this] have "conns (session_close sid ?sv) sid
      = Some (c1\<lparr>wq := [length (resps c) + 1], reading := False, closes := 1, live := False\<rparr>)"
    using c1(4) by simp
  ultimately show ?thesis using dl c1(6) by simp
qed

theorem pipelined_response_cut_witness:
  "\<exists>c2. conns (write_complete plain_env 7 0 (deliver HTTP_MAX_HEADER_SIZE plain_env 7 65536
        (request_text HTTP_GET [47] [keep_alive_line] @ request_text HTTP_GET [47] []) (one_client (server0 None ())))) 7 = Some c2
    \<and> length (resps c2) = 2 \<and> wq c2 = [1] \<and> closes c2 = 1 \<and> \<not> live c2"
proof -
  have a: "answers plain_env req req NOT_FOUND (bstr ''404 Not Found'')" for req
    by (rule answers_none) (simp add: dispatch_def plain_env_def)
  have p: "plain_request HTTP_MAX_HEADER_SIZE (HTTP_GET, [47], [keep_alive_line])" "plain_request HTTP_MAX_HEADER_SIZE (HTTP_GET, [47], [])"
    unfolding plain_request_def prod.case using keep_alive_request by (simp_all only: list.pred_inject simp_thms)
  from pipelined_response_cut [OF one_connection [where cb = None and w = "()" and env = plain_env and mhs = HTTP_MAX_HEADER_SIZE, folded one_client_def]
      one_client_conn(1-3) _ p keep_alive_request(7) a a, where len = 65536 and status = 0] show ?thesis
    by (auto simp: conn_init_def upd_req_def upd_sess_def)
qed


section \<open>Bytes that complete no request\<close>

definition completes :: "http_event list \<Rightarrow> bool" where
  "completes evs \<longleftrightarrow> (\<exists>b. Ev_Complete b \<in> set evs)"

text \<open>What the connection shows of itself to its client, and the flag that decides on its end.\<close>

definition same_service :: "conn \<Rightarrow> conn \<Rightarrow> bool" where
  "same_service c d \<longleftrightarrow> resps d = resps c \<and> wq d = wq c \<and> live d = live c \<and> closes d = closes c
     \<and> crashed d = crashed c \<and> m_isKeepAlive (sess d) = m_isKeepAlive (sess c)"

lemma same_service_event:
  assumes "\<not> completes [ev]"
  shows "same_service c (on_event env ev c)"
  using assms by (cases ev) (simp_all add: completes_def same_service_def onReqMessageBegin_def onReqURL_def onReqHeaderField_def
      onReqHeaderValue_def onReqHeaderComplete_def onReqBody_def upd_req_def upd_sess_def)

lemma same_service_events:
  assumes "\<not> completes evs"
  shows "same_service c (fold (on_event env) evs c)"
  using assms
proof (induction evs arbitrary: c)
  case (Cons ev evs)
  have "same_service c (on_event env ev c)" using Cons.prems by (intro same_service_event) (auto simp: completes_def)
  moreover have "same_service (on_event env ev c) (fold (on_event env) evs (on_event env ev c))"
    using Cons.prems by (intro Cons.IH) (auto simp: completes_def)
  ultimately show ?case by (simp add: same_service_def)
qed (simp add: same_service_def)

lemma recv_incomplete:
  assumes "execute_events mhs (m_hparser (sess c)) buf = Some (h, evs, n)" "\<not> completes evs" "m_recvBuf (sess c) \<noteq> 0"
  shows "same_service (stopped c) (recv_data mhs env buf c)" "m_hparser (sess (recv_data mhs env buf c)) = h"
  using recv_data_events [OF assms(1,3), of env] same_service_events [OF assms(2), of "stopped c" env]
  by (simp_all add: same_service_def stopped_def upd_sess_def)

lemma stopped_flag [simp]: "\<not> m_isKeepAlive (sess (stopped c))"
  by (simp add: stopped_def stopKeepAliveTimer_def upd_sess_def)

text \<open>
  C35. Bytes that arrive while a response is being written cost the connection its keep-alive: when the
  response of a keep-alive request is still queued and bytes come in that complete no request (the first
  byte of the next request is enough), the read clears the session's keep-alive flag, and the completion
  of the write closes the socket instead of waiting for the rest.
\<close>

theorem early_bytes_end_keep_alive:
  assumes "distinct (m_sessions sv)" "conns sv sid = Some c" "live c" "wq c = [i]" "m_onSent (resps c ! i) = Sent_session"
    "m_isKeepAlive (sess c)" "closes c = 0" "len \<noteq> 0"
    "execute_events mhs (m_hparser (sess c)) buf = Some (h, evs, n)" "\<not> completes evs"
  shows "\<exists>c2. conns (write_complete env sid status (deliver mhs env sid len buf sv)) sid = Some c2
    \<and> closes c2 = 1 \<and> \<not> live c2 \<and> length (resps c2) = length (resps c)"
proof -
  let ?d = "alloc_to len c"
  define c1 where "c1 = recv_data mhs env buf ?d"
  have "same_service (stopped ?d) c1"
    using recv_incomplete(1) [of mhs ?d buf h evs n env] assms(8-10) by (simp add: c1_def)
  then have c1: "wq c1 = [i]" "live c1" "m_onSent (resps c1 ! i) = Sent_session" "\<not> m_isKeepAlive (sess c1)" "closes c1 = 0"
    "resps c1 = resps c"
    using assms(3-5,7) by (simp_all add: same_service_def)
  let ?b = "terminated sv \<or> crashed c \<or> crashed c1"
  let ?sv1 = "sv\<lparr>conns := (conns sv)(sid \<mapsto> c1), terminated := ?b\<rparr>"
  let ?sv2 = "sv\<lparr>conns := (conns sv)(sid \<mapsto> c1\<lparr>wq := []\<rparr>), terminated := ?b\<rparr>"
  have "deliver mhs env sid len buf sv = ?sv1" by (simp add: deliver_eq [OF assms(2)] c1_def Let_def)
  moreover have "write_complete env sid status ?sv1 = session_close sid ?sv2"
    using write_complete_session [where sv = ?sv1 and sid = sid and env = env and status = status, OF _ c1(1,3,2)] c1(4)
    by (simp add: Let_def)
  moreover have "distinct (m_sessions ?sv2)" "conns ?sv2 sid = Some (c1\<lparr>wq := []\<rparr>)" using assms(1) by simp_all
  from session_close_conn(1) [OF this] have "conns (session_close sid ?sv2) sid
      = Some (c1\<lparr>wq := [], reading := False, closes := 1, live := False\<rparr>)"
    using c1(5) by simp
  ultimately show ?thesis using c1(6) by simp
qed

lemma first_byte:
  assumes "between_requests h" "0 < unat mhs"
  shows "\<exists>h'. execute_events mhs h [71] = Some (h', [Ev_Begin], 1)"
proof -
  let ?e = "call_env mhs h [71]"
  have h: "state h = s_start_req" "http_errno h = HPE_OK" "ptype h = HTTP_REQUEST" "nread h = 0"
    using assms(1) by (simp_all add: between_requests_def)
  have m: "start_method 71 = Some HTTP_GET" by (simp add: start_method_def)
  have a: "at ?e 0 (71 # [])" "room ?e (call_start h) 1" using assms(2) h by (simp_all add: room_def)
  obtain c where c: "ex_loop ?e 0 (call_start h) = ex_loop ?e (Suc 0) c" "head_inv HTTP_GET c" "marks c = (\<lambda>_. None)" "app c = [Ev_Begin]"
    using loop_start [OF a(1) _ _ _ a(2) m, where ev = "\<lambda>ev evs. evs @ [ev]"] h by auto
  have "ex_loop ?e 0 (call_start h) = RETURN c 1"
    using c finish_requests [of c 1 ?e] by (simp add: head_inv_def)
  from execute_call [OF assms(1) _ this] c(4) show ?thesis by simp
qed

theorem early_bytes_end_keep_alive_witness:
  "\<exists>sv c2. sv = deliver HTTP_MAX_HEADER_SIZE plain_env 7 65536 (request_text HTTP_GET [47] [keep_alive_line]) (one_client (server0 None ()))
    \<and> conns (write_complete plain_env 7 0 (deliver HTTP_MAX_HEADER_SIZE plain_env 7 65536 [71] sv)) 7 = Some c2
    \<and> closes c2 = 1 \<and> \<not> live c2 \<and> length (resps c2) = 1"
proof -
  let ?c = "(upd_req (set_ip (Peer_Ip4 [49] 80)) conn_init)\<lparr>reading := True\<rparr>"
  have a: "answers plain_env req req NOT_FOUND (bstr ''404 Not Found'')" for req
    by (rule answers_none) (simp add: dispatch_def plain_env_def)
  let ?sv0 = "one_client (server0 None ())"
  have len: "(65536 :: size_t) \<noteq> 0" by simp
  obtain c1 where c1: "deliver HTTP_MAX_HEADER_SIZE plain_env 7 65536 (request_text HTTP_GET [47] [keep_alive_line]) ?sv0
      = ?sv0\<lparr>conns := (conns ?sv0)(7 \<mapsto> c1)\<rparr>"
    "resps c1 = resps ?c @ [text_reply NOT_FOUND (bstr ''404 Not Found'') (hdr_order plain_env)]" "wq c1 = [length (resps ?c)]"
    "m_isKeepAlive (sess c1) = keeps_alive [keep_alive_line]" "live c1" "closes c1 = closes ?c"
    "list_all stays_open [keep_alive_line] \<longrightarrow> between_requests (m_hparser (sess c1))"
    by (rule deliver_request [OF one_client_conn(1-3) len keep_alive_request(1,2) a])
  have r: "resps ?c = []" "closes ?c = 0" by (simp_all add: conn_init_def upd_req_def upd_sess_def)
  have b: "between_requests (m_hparser (sess c1))" using c1(7) keep_alive_request(3) by blast
  obtain h' where h': "execute_events HTTP_MAX_HEADER_SIZE (m_hparser (sess c1)) [71] = Some (h', [Ev_Begin], 1)"
    using first_byte [OF b, of HTTP_MAX_HEADER_SIZE] by (auto simp: HTTP_MAX_HEADER_SIZE_def)
  have k: "distinct (m_sessions (?sv0\<lparr>conns := (conns ?sv0)(7 \<mapsto> c1)\<rparr>))" "conns (?sv0\<lparr>conns := (conns ?sv0)(7 \<mapsto> c1)\<rparr>) 7 = Some c1"
    "wq c1 = [0]" "m_onSent (resps c1 ! 0) = Sent_session" "m_isKeepAlive (sess c1)" "closes c1 = 0" "\<not> completes [Ev_Begin]"
    using c1(2-4,6) r keep_alive_request(4) one_client_conn(4) [of None "()"] by (simp_all add: text_reply_def completes_def)
  from early_bytes_end_keep_alive [OF k(1,2) c1(5) k(3-6) _ h' k(7), where len = 65536 and status = 0] show ?thesis
    unfolding c1(1) using c1(2) r(1) by simp
qed

end
