(* ===== verification/Incremental.thy ===== *)
theory Incremental
  imports Prelude
begin

text \<open>
  The contract of a component that consumes a byte stream piece by piece: what it has become
  after a buffer does not depend on where the transport cut the stream. The event loop hands the
  program buffers of arbitrary length, so every incremental reader of the program is meant to
  satisfy it.
\<close>

locale stream_consumer =
  fixes feed :: "'st \<Rightarrow> 'b list \<Rightarrow> 'st"
  assumes feed_Nil: "feed st [] = st"
    and feed_append: "feed st (xs @ ys) = feed (feed st xs) ys"
begin

lemma feed_chunks: "foldl feed st chunks = feed st (concat chunks)"
  by (induction chunks arbitrary: st) (simp_all add: feed_Nil feed_append)

lemma chunking_irrelevant:
  "concat cs = concat ds \<Longrightarrow> foldl feed st cs = foldl feed st ds"
  by (simp add: feed_chunks)

lemma feed_bytewise: "feed st xs = foldl (\<lambda>s b. feed s [b]) st xs"
  using feed_chunks [of st "map (\<lambda>b. [b]) xs"] by (simp add: foldl_map)

text \<open>A set of states closed under single elements is closed under every buffer.\<close>

lemma feed_invariant:
  assumes "\<And>st b. P st \<Longrightarrow> P (feed st [b])" "P st"
  shows "P (feed st xs)"
proof -
  have "P (foldl (\<lambda>s b. feed s [b]) st xs)"
    using assms(2) by (induction xs arbitrary: st) (auto intro: assms(1))
  then show ?thesis by (simp add: feed_bytewise [of st xs])
qed

end

end
