(* ===== verification/Ws_Parser.thy ===== *)
theory Ws_Parser
  imports Incremental
begin

text \<open>
  The incremental WebSocket frame parser of \<open>src/core/websocket_parser.h\<close> and
  \<open>src/core/websocket_parser.cpp\<close>. The parser object and the frame it fills are records with
  the fields of the C++ classes; \<open>parse\<close> is the byte loop of \<open>websocket_parser::parse\<close>, one
  definition per \<open>case\<close> of its \<open>switch\<close>. The \<open>m_onComplete\<close> callback is an argument \<open>cb\<close> that
  maps the completed frame and the state of the surrounding program to the new state.
\<close>

unbundle bit_operations_syntax

section \<open>Data\<close>

datatype WsParseErr =
    SUCCESS
  | NOT_COMPLETED
  | INVALID_FRAME
  | INVALID_OPCODE
  | INVALID_PAYLOAD_LEN
  | INVALID_MASK

fun WsErr_Str :: "WsParseErr \<Rightarrow> string" where
  "WsErr_Str SUCCESS = ''SUCCESS''"
| "WsErr_Str INVALID_FRAME = ''INVALID_FRAME''"
| "WsErr_Str INVALID_OPCODE = ''INVALID_OPCODE''"
| "WsErr_Str INVALID_PAYLOAD_LEN = ''INVALID_PAYLOAD_LEN''"
| "WsErr_Str INVALID_MASK = ''INVALID_MASK''"
| "WsErr_Str _ = ''UNKNOWN''"

text \<open>The operation codes of \<open>enum WsCode\<close>.\<close>

definition WS_CONTINUATION :: byte where "WS_CONTINUATION = 0x0"
definition WS_TEXT :: byte where "WS_TEXT = 0x1"
definition WS_BINARY :: byte where "WS_BINARY = 0x2"
definition WS_CLOSE :: byte where "WS_CLOSE = 0x8"
definition WS_PING :: byte where "WS_PING = 0x9"
definition WS_PONG :: byte where "WS_PONG = 0xA"

lemmas WsCode_defs = WS_CONTINUATION_def WS_TEXT_def WS_BINARY_def WS_CLOSE_def
  WS_PING_def WS_PONG_def

text \<open>\<open>struct WsFrame\<close>; its field \<open>mask\<close> is called \<open>mask_bit\<close> here.\<close>

record WsFrame =
  fin :: bool
  rsv :: byte
  opcode :: byte
  mask_bit :: bool
  payload_len :: size_t
  mask_key :: bytes
  payload :: bytes

datatype Status =
    St_finAndOpcode
  | St_payloadLenAndMask
  | St_payloadLen
  | St_maskKey
  | St_payload
  | St_complete

record websocket_parser =
  m_status :: Status
  m_byteNeed :: size_t
  m_isContinuation :: bool
  m_maskIndex :: nat

definition websocket_parser_init :: websocket_parser where
  "websocket_parser_init =
     \<lparr>m_status = St_finAndOpcode, m_byteNeed = 1, m_isContinuation = False, m_maskIndex = 0\<rparr>"

definition LIMIT_PAYLOAD_LEN :: size_t where
  "LIMIT_PAYLOAD_LEN = 1024 * 1024"

section \<open>One transition per case of the switch\<close>

definition GET_FIN :: "byte \<Rightarrow> bool" where
  "GET_FIN ch \<longleftrightarrow> ch AND 0x80 \<noteq> 0"

definition GET_RSV :: "byte \<Rightarrow> byte" where
  "GET_RSV ch = drop_bit 4 (ch AND 0x70)"

definition GET_OPCODE :: "byte \<Rightarrow> byte" where
  "GET_OPCODE ch = ch AND 0x0F"

definition GET_MASK :: "byte \<Rightarrow> bool" where
  "GET_MASK ch \<longleftrightarrow> ch AND 0x80 \<noteq> 0"

definition GET_PAYLOAD_LEN :: "byte \<Rightarrow> byte" where
  "GET_PAYLOAD_LEN ch = ch AND 0x7F"

definition SWITCH_TO_MASK ::
  "websocket_parser \<Rightarrow> WsFrame \<Rightarrow> websocket_parser \<times> WsFrame" where
  "SWITCH_TO_MASK p f =
     (if mask_bit f
      then (p\<lparr>m_status := St_maskKey, m_byteNeed := 4\<rparr>, f\<lparr>mask_key := []\<rparr>)
      else (p\<lparr>m_status := St_payload, m_byteNeed := payload_len f\<rparr>, f))"

definition on_finAndOpcode ::
  "websocket_parser \<Rightarrow> WsFrame \<Rightarrow> byte \<Rightarrow> websocket_parser \<times> WsFrame" where
  "on_finAndOpcode p f ch =
     (let f = f\<lparr>fin := GET_FIN ch, rsv := GET_RSV ch\<rparr>;
          opc = GET_OPCODE ch;
          f = (if \<not> m_isContinuation p \<and> opc \<noteq> 0
               then f\<lparr>opcode := opc, mask_key := [], payload := []\<rparr> else f)
      in (p\<lparr>m_status := St_payloadLenAndMask\<rparr>, f))"

definition on_payloadLenAndMask ::
  "websocket_parser \<Rightarrow> WsFrame \<Rightarrow> byte \<Rightarrow> websocket_parser \<times> WsFrame" where
  "on_payloadLenAndMask p f ch =
     (let f = f\<lparr>mask_bit := GET_MASK ch, payload_len := ucast (GET_PAYLOAD_LEN ch)\<rparr>
      in if payload_len f \<le> 125 then SWITCH_TO_MASK p f
         else if payload_len f = 126
         then (p\<lparr>m_status := St_payloadLen, m_byteNeed := 2\<rparr>, f\<lparr>payload_len := 0\<rparr>)
         else (p\<lparr>m_status := St_payloadLen, m_byteNeed := 8\<rparr>, f\<lparr>payload_len := 0\<rparr>))"

definition on_payloadLen ::
  "websocket_parser \<Rightarrow> WsFrame \<Rightarrow> byte \<Rightarrow> websocket_parser \<times> WsFrame" where
  "on_payloadLen p f ch =
     (let (p, f) = (if m_byteNeed p \<noteq> 0
                    then (p\<lparr>m_byteNeed := m_byteNeed p - 1\<rparr>,
                          f\<lparr>payload_len := push_bit 8 (payload_len f) OR ucast ch\<rparr>)
                    else (p, f))
      in if m_byteNeed p = 0 then SWITCH_TO_MASK p f else (p, f))"

definition on_maskKey ::
  "websocket_parser \<Rightarrow> WsFrame \<Rightarrow> byte \<Rightarrow> websocket_parser \<times> WsFrame" where
  "on_maskKey p f ch =
     (let (p, f) = (if m_byteNeed p \<noteq> 0
                    then (p\<lparr>m_byteNeed := m_byteNeed p - 1\<rparr>,
                          f\<lparr>mask_key := mask_key f @ [ch]\<rparr>)
                    else (p, f))
      in if m_byteNeed p = 0
         then (p\<lparr>m_byteNeed := payload_len f, m_status := St_payload\<rparr>, f) else (p, f))"

text \<open>The unmasking loop of the payload case: the bytes it pushes and the index it leaves.\<close>

fun unmask :: "bytes \<Rightarrow> nat \<Rightarrow> bytes \<Rightarrow> bytes \<times> nat" where
  "unmask key i [] = ([], i)"
| "unmask key i (b # bs) =
     (let (out, j) = unmask key ((i + 1) mod 4) bs in ((b XOR key ! i) # out, j))"

text \<open>
  The payload case without its length check: \<open>buf\<close> is what is left of the input from \<open>ch\<close> on.
  The parser, the frame and the number \<open>to_read\<close> of bytes taken are returned.
\<close>

definition read_payload ::
  "websocket_parser \<Rightarrow> WsFrame \<Rightarrow> bytes \<Rightarrow> websocket_parser \<times> WsFrame \<times> nat" where
  "read_payload p f buf =
     (let to_read = min (length buf) (unat (m_byteNeed p));
          chunk = take to_read buf;
          (out, i) = (if mask_bit f then unmask (mask_key f) (m_maskIndex p) chunk
                      else (chunk, m_maskIndex p))
      in (p\<lparr>m_maskIndex := i, m_byteNeed := m_byteNeed p - of_nat to_read\<rparr>,
          f\<lparr>payload := payload f @ out\<rparr>, to_read))"

text \<open>The case \<open>Status::complete\<close>, which the payload case falls into.\<close>

definition on_complete ::
  "(WsFrame \<Rightarrow> 's \<Rightarrow> 's) \<Rightarrow> websocket_parser \<Rightarrow> WsFrame \<Rightarrow> 's \<Rightarrow> websocket_parser \<times> 's" where
  "on_complete cb p f s =
     (let p = p\<lparr>m_maskIndex := 0, m_byteNeed := 0, m_status := St_finAndOpcode\<rparr>
      in if fin f then (p\<lparr>m_isContinuation := False\<rparr>, cb f s)
         else (p\<lparr>m_isContinuation := True\<rparr>, s))"

lemmas ws_transition_defs = SWITCH_TO_MASK_def on_finAndOpcode_def on_payloadLenAndMask_def
  on_payloadLen_def on_maskKey_def on_complete_def

section \<open>The byte loop\<close>

function (sequential) parse_loop ::
  "(WsFrame \<Rightarrow> 's \<Rightarrow> 's) \<Rightarrow> websocket_parser \<Rightarrow> WsFrame \<Rightarrow> bytes \<Rightarrow> 's
   \<Rightarrow> WsParseErr \<times> websocket_parser \<times> WsFrame \<times> 's" where
  "parse_loop cb p f [] s = (SUCCESS, p, f, s)"
| "parse_loop cb p f (ch # rest) s =
     (case m_status p of
        St_finAndOpcode \<Rightarrow>
          (let (p, f) = on_finAndOpcode p f ch in parse_loop cb p f rest s)
      | St_payloadLenAndMask \<Rightarrow>
          (let (p, f) = on_payloadLenAndMask p f ch in parse_loop cb p f rest s)
      | St_payloadLen \<Rightarrow>
          (let (p, f) = on_payloadLen p f ch in parse_loop cb p f rest s)
      | St_maskKey \<Rightarrow>
          (let (p, f) = on_maskKey p f ch in parse_loop cb p f rest s)
      | St_payload \<Rightarrow>
          (if payload_len f > LIMIT_PAYLOAD_LEN
           then (INVALID_PAYLOAD_LEN,
                 p\<lparr>m_status := St_finAndOpcode, m_isContinuation := False\<rparr>, f, s)
           else
             let (p, f, to_read) = read_payload p f (ch # rest)
             in if m_byteNeed p = 0
                then let (p, s) = on_complete cb (p\<lparr>m_status := St_complete\<rparr>) f s
                     in parse_loop cb p f (drop to_read (ch # rest)) s
                else parse_loop cb p f (drop to_read (ch # rest)) s)
      | St_complete \<Rightarrow>
          (let (p, s) = on_complete cb p f s in parse_loop cb p f rest s))"
  by pat_completeness auto

text \<open>
  Every iteration either consumes a byte or, for a frame with an empty payload, leaves the state
  \<open>Status::payload\<close>.
\<close>

lemma on_complete_status:
  "(q, t) = on_complete cb p f s \<Longrightarrow> m_status q = St_finAndOpcode"
  by (auto simp: on_complete_def Let_def split: if_splits)

lemma read_payload_progress:
  assumes "(q, g, n) = read_payload p f (b # bs)" "m_byteNeed q \<noteq> 0"
  shows "0 < n"
proof (rule ccontr)
  assume "\<not> 0 < n"
  with assms(1) have "unat (m_byteNeed p) = 0"
    by (auto simp: read_payload_def Let_def split: prod.splits)
  with assms show False
    by (auto simp: read_payload_def Let_def unat_eq_zero split: prod.splits)
qed

termination parse_loop
proof (relation "measure (\<lambda>(cb, p, f, buf, s).
    2 * length buf + (if m_status p = St_payload then 1 else 0))", goal_cases)
  case 7
  then show ?case by (auto dest: read_payload_progress)
qed (auto dest: on_complete_status)

text \<open>\<open>websocket_parser::parse\<close>: an empty buffer returns at once.\<close>

definition parse ::
  "(WsFrame \<Rightarrow> 's \<Rightarrow> 's) \<Rightarrow> websocket_parser \<Rightarrow> WsFrame \<Rightarrow> bytes \<Rightarrow> 's
   \<Rightarrow> WsParseErr \<times> websocket_parser \<times> WsFrame \<times> 's" where
  "parse cb p f data s = (if data = [] then (SUCCESS, p, f, s) else parse_loop cb p f data s)"

section \<open>Chunk independence\<close>

lemma unmask_append:
  "unmask key i (xs @ ys) =
     (let (a, j) = unmask key i xs; (b, k) = unmask key j ys in (a @ b, k))"
  by (induction key i xs rule: unmask.induct) (auto simp: Let_def split: prod.splits)

lemma read_payload_split:
  assumes "length xs < unat (m_byteNeed p)"
    and "read_payload p f xs = (q, g, n)"
  shows "read_payload p f (xs @ ys) =
           (let (q', g', m) = read_payload q g ys in (q', g', length xs + m))"
    and "n = length xs" and "m_byteNeed q \<noteq> 0"
    and "unat (m_byteNeed q) = unat (m_byteNeed p) - length xs"
    and "m_status q = m_status p" and "payload_len g = payload_len f"
proof -
  have need: "m_byteNeed q = m_byteNeed p - of_nat (length xs)"
    using assms by (auto simp: read_payload_def Let_def split: prod.splits)
  show u: "unat (m_byteNeed q) = unat (m_byteNeed p) - length xs"
    using assms(1) unfolding need by (intro unat_sub_of_nat) simp
  then show "m_byteNeed q \<noteq> 0"
    using assms(1) by auto
  show n: "n = length xs" and "m_status q = m_status p" and "payload_len g = payload_len f"
    using assms by (auto simp: read_payload_def Let_def split: prod.splits)
  have "min (length (xs @ ys)) (unat (m_byteNeed p))
      = length xs + min (length ys) (unat (m_byteNeed q))"
    using assms(1) u by simp
  then show "read_payload p f (xs @ ys) =
           (let (q', g', m) = read_payload q g ys in (q', g', length xs + m))"
    using assms by (auto simp: read_payload_def Let_def unmask_append algebra_simps
        split: prod.splits if_splits)
qed

lemma read_payload_enough:
  assumes "unat (m_byteNeed p) \<le> length xs"
  shows "read_payload p f (xs @ ys) = read_payload p f xs"
  using assms by (simp add: read_payload_def Let_def min_absorb2 split: prod.splits)

lemma read_payload_taken:
  "read_payload p f xs = (q, g, n) \<Longrightarrow> n = min (length xs) (unat (m_byteNeed p))"
  by (auto simp: read_payload_def Let_def split: prod.splits)

definition then_parse ::
  "(WsFrame \<Rightarrow> 's \<Rightarrow> 's) \<Rightarrow> WsParseErr \<times> websocket_parser \<times> WsFrame \<times> 's \<Rightarrow> bytes
   \<Rightarrow> WsParseErr \<times> websocket_parser \<times> WsFrame \<times> 's" where
  "then_parse cb r ys =
     (case r of (e, p, f, s) \<Rightarrow> if e = SUCCESS then parse_loop cb p f ys s else (e, p, f, s))"

lemma then_parse_simps [simp]:
  "then_parse cb (SUCCESS, p, f, s) ys = parse_loop cb p f ys s"
  "e \<noteq> SUCCESS \<Longrightarrow> then_parse cb (e, p, f, s) ys = (e, p, f, s)"
  by (auto simp: then_parse_def)

lemma parse_loop_payload:
  assumes "m_status p = St_payload" "\<not> payload_len f > LIMIT_PAYLOAD_LEN" "buf \<noteq> []"
    and "read_payload p f buf = (q, g, n)"
  shows "parse_loop cb p f buf s =
     (if m_byteNeed q = 0
      then case on_complete cb (q\<lparr>m_status := St_complete\<rparr>) g s of
             (p', s') \<Rightarrow> parse_loop cb p' g (drop n buf) s'
      else parse_loop cb q g (drop n buf) s)"
  using assms by (cases buf) (auto simp: Let_def)

lemma parse_loop_payload_short:
  assumes "m_status p = St_payload" "length xs < unat (m_byteNeed p)" "xs \<noteq> []"
  shows "parse_loop cb p f (xs @ ys) s = then_parse cb (parse_loop cb p f xs s) ys"
proof (cases "payload_len f > LIMIT_PAYLOAD_LEN")
  case True
  with assms show ?thesis by (cases xs) auto
next
  case False
  obtain q g n where r: "read_payload p f xs = (q, g, n)"
    by (cases "read_payload p f xs") auto
  note sp = read_payload_split [OF assms(2) r]
  have first: "parse_loop cb p f xs s = (SUCCESS, q, g, s)"
    using assms r sp(2,3) by (simp add: parse_loop_payload [OF assms(1) False assms(3) r])
  show ?thesis
  proof (cases "ys = []")
    case True
    then show ?thesis by (simp add: first)
  next
    case ys: False
    obtain q' g' m where r': "read_payload q g ys = (q', g', m)"
      by (cases "read_payload q g ys") auto
    have "read_payload p f (xs @ ys) = (q', g', length xs + m)"
      using sp(1) [of ys] r' by simp
    note eq1 = parse_loop_payload [OF assms(1) False _ this]
    have "m_status q = St_payload" and "\<not> payload_len g > LIMIT_PAYLOAD_LEN"
      using sp(5,6) assms(1) False by simp_all
    note eq2 = parse_loop_payload [OF this ys r']
    show ?thesis using ys by (simp add: first eq1 eq2)
  qed
qed

lemma parse_loop_append:
  "parse_loop cb p f (xs @ ys) s = then_parse cb (parse_loop cb p f xs s) ys"
proof (induction cb p f xs s rule: parse_loop.induct)
  case (1 cb p f s)
  then show ?case by simp
next
  case (2 cb p f ch rest s)
  show ?case
  proof (cases "m_status p = St_payload \<and> unat (m_byteNeed p) > length (ch # rest)")
    case True
    then show ?thesis
      using parse_loop_payload_short [of p "ch # rest" cb f ys s] by simp
  next
    case False
    show ?thesis
    proof (cases "m_status p")
      case St_payload
      with False have le: "unat (m_byteNeed p) \<le> length (ch # rest)" by simp
      obtain q g n where r: "read_payload p f (ch # rest) = (q, g, n)"
        by (cases "read_payload p f (ch # rest)") auto
      have r': "read_payload p f ((ch # rest) @ ys) = (q, g, n)"
        using read_payload_enough [OF le, of f ys] r by simp
      have d: "drop n ((ch # rest) @ ys) = drop n (ch # rest) @ ys"
        using read_payload_taken [OF r] by (simp del: append_Cons)
      obtain q' s' where c: "on_complete cb (q\<lparr>m_status := St_complete\<rparr>) g s = (q', s')"
        by (cases "on_complete cb (q\<lparr>m_status := St_complete\<rparr>) g s") auto
      show ?thesis
      proof (cases "payload_len f > LIMIT_PAYLOAD_LEN")
        case True
        then show ?thesis using St_payload by simp
      next
        case lim: False
        have ih1: "m_byteNeed q = 0 \<Longrightarrow> parse_loop cb q' g (drop n (ch # rest) @ ys) s'
            = then_parse cb (parse_loop cb q' g (drop n (ch # rest)) s') ys"
          using "2" St_payload lim r c by auto
        have ih2: "m_byteNeed q \<noteq> 0 \<Longrightarrow> parse_loop cb q g (drop n (ch # rest) @ ys) s
            = then_parse cb (parse_loop cb q g (drop n (ch # rest)) s) ys"
          using "2" St_payload lim r by auto
        show ?thesis
          using parse_loop_payload [OF St_payload lim _ r', of cb s]
            parse_loop_payload [OF St_payload lim _ r, of cb s] c d ih1 ih2
          by (simp del: parse_loop.simps append_Cons drop_append)
      qed
    qed (auto simp: "2" split: prod.splits)
  qed
qed

text \<open>
  Successive buffers of one session: the parser is called on the next buffer as long as the calls
  so far succeeded; after an error the session is closed and not parsed any further.
\<close>

definition parse_next ::
  "(WsFrame \<Rightarrow> 's \<Rightarrow> 's) \<Rightarrow> WsParseErr \<times> websocket_parser \<times> WsFrame \<times> 's \<Rightarrow> bytes
   \<Rightarrow> WsParseErr \<times> websocket_parser \<times> WsFrame \<times> 's" where
  "parse_next cb r data =
     (case r of (e, p, f, s) \<Rightarrow> if e = SUCCESS then parse cb p f data s else (e, p, f, s))"

lemma parse_eq_loop: "parse cb p f data s = parse_loop cb p f data s"
  by (simp add: parse_def)

lemma parse_next_then: "parse_next cb r data = then_parse cb r data"
  by (cases r) (simp add: parse_next_def then_parse_def parse_eq_loop)

interpretation ws_stream: stream_consumer "parse_next cb"
  by unfold_locales
    (auto simp: parse_next_then then_parse_def parse_loop_append split: prod.splits)

text \<open>
  C12. The parser is chunk independent: feeding any sequence of buffers one after the other leaves
  the same error code, parser, frame and callback effects as feeding their concatenation at once.
\<close>

theorem ws_parse_chunks:
  "foldl (parse_next cb) r chunks = parse_next cb r (concat chunks)"
  by (rule ws_stream.feed_chunks)

section \<open>The parser's invariant\<close>

text \<open>
  What holds between two bytes: the masking key is complete when payload bytes are being unmasked,
  its index is in range, and the number of missing bytes fits the state.
\<close>

definition parser_ok :: "websocket_parser \<Rightarrow> WsFrame \<Rightarrow> bool" where
  "parser_ok p f \<longleftrightarrow>
     (case m_status p of
        St_finAndOpcode \<Rightarrow> m_maskIndex p = 0
      | St_payloadLenAndMask \<Rightarrow> m_maskIndex p = 0
      | St_payloadLen \<Rightarrow> m_maskIndex p = 0 \<and> 0 < m_byteNeed p \<and> m_byteNeed p \<le> 8
      | St_maskKey \<Rightarrow> m_maskIndex p = 0 \<and> mask_bit f \<and> 0 < m_byteNeed p
          \<and> length (mask_key f) + unat (m_byteNeed p) = 4
      | St_payload \<Rightarrow> m_maskIndex p < 4 \<and> (mask_bit f \<longrightarrow> length (mask_key f) = 4)
          \<and> m_byteNeed p \<le> payload_len f
          \<and> (LIMIT_PAYLOAD_LEN < payload_len f \<longrightarrow> m_maskIndex p = 0)
      | St_complete \<Rightarrow> False)"

lemma unmask_index: "i < 4 \<Longrightarrow> snd (unmask key i bs) < 4"
  by (induction key i bs rule: unmask.induct) (auto simp: Let_def split: prod.splits)

lemma SWITCH_TO_MASK_ok:
  "m_maskIndex p = 0 \<Longrightarrow> case SWITCH_TO_MASK p f of (q, g) \<Rightarrow> parser_ok q g"
  by (simp add: SWITCH_TO_MASK_def parser_ok_def)

lemma on_finAndOpcode_ok:
  "m_status p = St_finAndOpcode \<Longrightarrow> parser_ok p f \<Longrightarrow>
     case on_finAndOpcode p f ch of (q, g) \<Rightarrow> parser_ok q g"
  by (simp add: on_finAndOpcode_def parser_ok_def Let_def)

lemma on_payloadLenAndMask_ok:
  "m_status p = St_payloadLenAndMask \<Longrightarrow> parser_ok p f \<Longrightarrow>
     case on_payloadLenAndMask p f ch of (q, g) \<Rightarrow> parser_ok q g"
  by (auto simp: on_payloadLenAndMask_def SWITCH_TO_MASK_def parser_ok_def Let_def)

lemma on_payloadLen_ok:
  assumes st: "m_status p = St_payloadLen" and ok: "parser_ok p f"
  shows "case on_payloadLen p f ch of (q, g) \<Rightarrow> parser_ok q g"
proof -
  from st ok have need: "m_maskIndex p = 0" "0 < m_byteNeed p" "m_byteNeed p \<le> 8"
    by (simp_all add: parser_ok_def)
  show ?thesis
  proof (cases "m_byteNeed p = 1")
    case True
    then show ?thesis
      using SWITCH_TO_MASK_ok need st by (simp add: on_payloadLen_def Let_def)
  next
    case False
    then have "0 < m_byteNeed p - 1" "m_byteNeed p - 1 \<le> 8"
      using need by (unat_arith, unat_arith)
    then show ?thesis
      using False need st by (auto simp: on_payloadLen_def Let_def parser_ok_def)
  qed
qed

lemma on_maskKey_ok:
  assumes st: "m_status p = St_maskKey" and ok: "parser_ok p f"
  shows "case on_maskKey p f ch of (q, g) \<Rightarrow> parser_ok q g"
proof -
  from st ok have k: "m_maskIndex p = 0" "mask_bit f" "0 < m_byteNeed p"
      "length (mask_key f) + unat (m_byteNeed p) = 4"
    by (simp_all add: parser_ok_def)
  have u: "unat (m_byteNeed p - 1) = unat (m_byteNeed p) - 1"
    using k(3) unat_sub_of_nat [of 1 "m_byteNeed p"] by (simp add: word_less_nat_alt)
  show ?thesis
  proof (cases "m_byteNeed p = 1")
    case True
    then show ?thesis
      using k st by (simp add: on_maskKey_def Let_def parser_ok_def)
  next
    case False
    then have "0 < m_byteNeed p - 1" using k(3) by unat_arith
    then show ?thesis
      using False k st u by (auto simp: on_maskKey_def Let_def parser_ok_def word_less_nat_alt)
  qed
qed

lemma on_complete_ok: "case on_complete cb p f s of (q, t) \<Rightarrow> parser_ok q f"
  by (simp add: on_complete_def parser_ok_def Let_def)

lemma read_payload_fields:
  assumes "read_payload p f buf = (q, g, n)"
  shows "m_byteNeed q = m_byteNeed p - of_nat n" "m_status q = m_status p"
    "m_isContinuation q = m_isContinuation p"
    "m_maskIndex q = (if mask_bit f then snd (unmask (mask_key f) (m_maskIndex p) (take n buf))
                      else m_maskIndex p)"
    "mask_key g = mask_key f" "mask_bit g = mask_bit f" "payload_len g = payload_len f"
    "opcode g = opcode f" "fin g = fin f"
    "payload g = payload f @ (if mask_bit f
       then fst (unmask (mask_key f) (m_maskIndex p) (take n buf)) else take n buf)"
  using assms by (auto simp: read_payload_def Let_def split: prod.splits if_splits)

lemma read_payload_ok:
  assumes st: "m_status p = St_payload" and ok: "parser_ok p f"
    and lim: "\<not> LIMIT_PAYLOAD_LEN < payload_len f"
    and r: "read_payload p f (b # bs) = (q, g, n)"
  shows "parser_ok q g"
proof -
  note fields = read_payload_fields [OF r]
  have "n \<le> unat (m_byteNeed p)" using read_payload_taken [OF r] by simp
  then have "unat (m_byteNeed q) \<le> unat (m_byteNeed p)"
    by (simp add: fields unat_sub_of_nat)
  moreover have "m_maskIndex q < 4"
    using ok st unmask_index [of "m_maskIndex p"] by (simp add: fields parser_ok_def)
  ultimately show ?thesis
    using ok st lim by (simp add: parser_ok_def fields word_le_nat_alt)
qed

lemma parse_loop_ok:
  "parser_ok p f \<Longrightarrow> case parse_loop cb p f buf s of (e, q, g, t) \<Rightarrow> parser_ok q g"
proof (induction cb p f buf s rule: parse_loop.induct)
  case (1 cb p f s)
  then show ?case by simp
next
  case (2 cb p f ch rest s)
  show ?case
  proof (cases "m_status p")
    case St_finAndOpcode
    with "2" on_finAndOpcode_ok [of p f ch] show ?thesis by (auto split: prod.splits)
  next
    case St_payloadLenAndMask
    with "2" on_payloadLenAndMask_ok [of p f ch] show ?thesis by (auto split: prod.splits)
  next
    case St_payloadLen
    with "2" on_payloadLen_ok [of p f ch] show ?thesis by (auto split: prod.splits)
  next
    case St_maskKey
    with "2" on_maskKey_ok [of p f ch] show ?thesis by (auto split: prod.splits)
  next
    case St_payload
    show ?thesis
    proof (cases "payload_len f > LIMIT_PAYLOAD_LEN")
      case True
      with St_payload "2.prems" show ?thesis by (simp add: parser_ok_def)
    next
      case False
      obtain q g n where r: "read_payload p f (ch # rest) = (q, g, n)"
        by (cases "read_payload p f (ch # rest)") auto
      obtain q' s' where c: "on_complete cb (q\<lparr>m_status := St_complete\<rparr>) g s = (q', s')"
        by (cases "on_complete cb (q\<lparr>m_status := St_complete\<rparr>) g s") auto
      have "m_byteNeed q = 0 \<Longrightarrow> parser_ok q' g"
        using on_complete_ok [where cb = cb and p = "q\<lparr>m_status := St_complete\<rparr>" and f = g and s = s]
          c by simp
      moreover have "parser_ok q g"
        using read_payload_ok [OF St_payload "2.prems" False r] .
      ultimately show ?thesis
        using "2" St_payload False r c parse_loop_payload [OF St_payload False _ r, of cb s]
        by auto
    qed
  next
    case St_complete
    with "2.prems" show ?thesis by (simp add: parser_ok_def)
  qed
qed

lemma parser_ok_init: "parser_ok websocket_parser_init f"
  by (simp add: parser_ok_def websocket_parser_init_def)

text \<open>
  C22. Whatever buffers a session receives, from the constructed parser on the parser stays in a
  well-formed state. In particular the index used to read \<open>mask_key\<close> is below 4 and the key has
  four bytes whenever masked payload is read, so the indexed access is in bounds.
\<close>

theorem ws_parser_invariant:
  "case foldl (parse_next cb) (SUCCESS, websocket_parser_init, f, s) chunks of
     (e, q, g, t) \<Rightarrow> parser_ok q g"
  using parse_loop_ok [OF parser_ok_init, where cb = cb and buf = "concat chunks" and s = s]
  by (simp add: ws_stream.feed_chunks parse_next_def parse_eq_loop)

end
