(* ===== verification/Ws_Frame.thy ===== *)
theory Ws_Frame
  imports Ws_Parser
begin

text \<open>
  The frame writer of \<open>WsSession::inter_send\<close> (\<open>src/core/WebSocket.cpp\<close>) and its agreement with
  the parser: the header the server writes is read back with the same length, and a stream of
  masked frames in the layout drawn in \<open>websocket_parser.h\<close> delivers exactly the messages that
  were sent, however the stream is cut into buffers.
\<close>

unbundle bit_operations_syntax

section \<open>The frame header of inter\_send\<close>

definition header_len :: "byte \<Rightarrow> size_t \<Rightarrow> bytes" where
  "header_len mk len =
     (if len < 126 then [ucast (len OR ucast mk)]
      else if len < 0x10000
      then [126 OR mk, ucast (drop_bit 8 len), ucast (len AND 0xFF)]
      else (127 OR mk) # map (\<lambda>i. ucast (drop_bit (i * 8) len)) (rev [0..<8]))"

definition inter_send_header :: "byte \<Rightarrow> size_t \<Rightarrow> bytes" where
  "inter_send_header opc len = (0x80 OR opc) # header_len 0x00 len"

lemma length_header_len:
  "length (header_len m len) = (if len < 126 then 1 else if len < 0x10000 then 3 else 9)"
  by (simp add: header_len_def)

section \<open>Reading a header back\<close>

lemma SWITCH_TO_MASK_upd [simp]:
  "SWITCH_TO_MASK (p\<lparr>m_byteNeed := n\<rparr>) f = SWITCH_TO_MASK p f"
  "SWITCH_TO_MASK (p\<lparr>m_status := st\<rparr>) f = SWITCH_TO_MASK p f"
  by (simp_all add: SWITCH_TO_MASK_def)

lemma shift_in_byte:
  "push_bit 8 (drop_bit (Suc k * 8) w) OR ucast (ucast (drop_bit (k * 8) w) :: byte)
     = drop_bit (k * 8) (w :: u64)"
  by (rule bit_word_eqI) (auto simp: bit_simps)

lemma parse_length_bytes:
  assumes "0 < k" "k \<le> 8"
  shows "parse_loop cb (p\<lparr>m_status := St_payloadLen, m_byteNeed := of_nat k\<rparr>)
           (f\<lparr>payload_len := drop_bit (k * 8) len\<rparr>)
           (map (\<lambda>i. ucast (drop_bit (i * 8) len)) (rev [0..<k]) @ rest) s
         = (let (q, g) = SWITCH_TO_MASK p
                           (f\<lparr>payload_len := len\<rparr>)
            in parse_loop cb q g rest s)"
  using assms
proof (induction k)
  case 0
  then show ?case by simp
next
  case (Suc k)
  have nz: "(of_nat (Suc k) :: size_t) \<noteq> 0"
    using of_nat_u64_eq_0_iff [of "Suc k"] Suc.prems(2) by (simp del: of_nat_Suc)
  have pred: "(of_nat (Suc k) :: size_t) - 1 = of_nat k"
    by simp
  have zero: "(of_nat k :: size_t) = 0 \<longleftrightarrow> k = 0"
    using of_nat_u64_eq_0_iff [of k] Suc.prems(2) by simp
  have one: "(of_nat (Suc k) :: size_t) = 1 \<longleftrightarrow> k = 0"
    using zero pred by (metis eq_iff_diff_eq_0)
  show ?case
  proof (cases "k = 0")
    case True
    then show ?thesis
      using shift_in_byte [of 0 len] by (simp add: on_payloadLen_def Let_def)
  next
    case False
    then have ih: "parse_loop cb (p\<lparr>m_status := St_payloadLen, m_byteNeed := of_nat k\<rparr>)
           (f\<lparr>payload_len := drop_bit (k * 8) len\<rparr>)
           (map (\<lambda>i. ucast (drop_bit (i * 8) len)) (rev [0..<k]) @ rest) s
         = (let (q, g) = SWITCH_TO_MASK p
                           (f\<lparr>payload_len := len\<rparr>)
            in parse_loop cb q g rest s)"
      using Suc by simp
    show ?thesis
      using False zero nz one shift_in_byte [of k len]
      by (simp add: on_payloadLen_def Let_def pred ih [unfolded Let_def] del: of_nat_Suc)
  qed
qed

lemma short_length_byte:
  assumes "len < (126 :: size_t)" "mk = 0 \<or> mk = (0x80 :: byte)"
  shows "ucast ((ucast (len OR ucast mk) :: byte) AND 0x7F) = len"
    and "(ucast (len OR ucast mk) :: byte) AND 0x80 \<noteq> 0 \<longleftrightarrow> mk \<noteq> 0"
proof -
  have "len < 2 ^ 7" using assms(1) by (rule less_trans) simp
  then have b: "\<not> bit len n" if "7 \<le> n" for n
    using that by (rule not_bit_of_less)
  have m7: "(0x7F :: byte) = mask 7" by (simp add: mask_eq_exp_minus_1)
  show "ucast ((ucast (len OR ucast mk) :: byte) AND 0x7F) = len"
    unfolding m7 using assms(2) b
    by (intro bit_word_eqI) (auto simp: bit_simps bit_0x80 intro: ccontr)
  show "(ucast (len OR ucast mk) :: byte) AND 0x80 \<noteq> 0 \<longleftrightarrow> mk \<noteq> 0"
    unfolding byte_top_bit using assms(2) b [of 7] by (auto simp: bit_simps bit_0x80)
qed

lemma parse_header_len:
  assumes "m_status p = St_payloadLenAndMask" "mk = 0 \<or> mk = 0x80"
  shows "parse_loop cb p f (header_len mk len @ rest) s =
     (let (q, g) = SWITCH_TO_MASK p (f\<lparr>mask_bit := (mk \<noteq> 0), payload_len := len\<rparr>)
      in parse_loop cb q g rest s)"
proof -
  consider (short) "len < 126" | (mid) "126 \<le> len" "len < 2 ^ 16" | (long) "2 ^ 16 \<le> len"
    by (meson leI)
  then show ?thesis
  proof cases
    case short
    then have "len \<le> 125" by (simp add: word_le_nat_alt word_less_nat_alt)
    with short assms short_length_byte [OF short assms(2)] show ?thesis
      by (simp add: header_len_def on_payloadLenAndMask_def GET_MASK_def GET_PAYLOAD_LEN_def
          Let_def)
  next
    case mid
    have z: "drop_bit (2 * 8) len = 0"
      using not_bit_of_less [OF mid(2)] by (intro bit_word_eqI) (auto simp: bit_simps)
    have "(len AND 0xFF) = take_bit 8 len"
      by (simp add: take_bit_eq_mask mask_eq_exp_minus_1)
    then have lo: "ucast (len AND 0xFF) = (ucast (drop_bit (0 * 8) len) :: byte)"
      by (intro bit_word_eqI) (auto simp: bit_simps)
    have bs: "header_len mk len = (126 OR mk) # map (\<lambda>i. ucast (drop_bit (i * 8) len)) (rev [0..<2])"
      using mid lo by (simp add: header_len_def upt_rec numeral_2_eq_2 not_less)
    have "(126 OR mk) AND 0x80 \<noteq> 0 \<longleftrightarrow> mk \<noteq> 0" and "(126 OR mk) AND 0x7F = 126"
      using assms(2) by auto
    then show ?thesis
      using assms(1) parse_length_bytes [where k = 2 and cb = cb and p = p and len = len and rest = rest and s = s and f = "f\<lparr>mask_bit := (mk \<noteq> 0)\<rparr>"] z
      by (simp add: bs on_payloadLenAndMask_def GET_MASK_def GET_PAYLOAD_LEN_def Let_def)
  next
    case long
    then have "\<not> len < 126" by (simp add: word_le_nat_alt word_less_nat_alt)
    have z: "drop_bit (8 * 8) len = 0"
      by (intro bit_word_eqI) (auto simp: bit_simps)
    have bs: "header_len mk len = (127 OR mk) # map (\<lambda>i. ucast (drop_bit (i * 8) len)) (rev [0..<8])"
      using long \<open>\<not> len < 126\<close> by (auto simp: header_len_def dest: leD)
    have "(127 OR mk) AND 0x80 \<noteq> 0 \<longleftrightarrow> mk \<noteq> 0" and "(127 OR mk) AND 0x7F = 127"
      using assms(2) by auto
    then show ?thesis
      using assms(1) parse_length_bytes [where k = 8 and cb = cb and p = p and len = len and rest = rest and s = s and f = "f\<lparr>mask_bit := (mk \<noteq> 0)\<rparr>"] z
      by (simp add: bs on_payloadLenAndMask_def GET_MASK_def GET_PAYLOAD_LEN_def Let_def
          del: upt_rec_numeral)
  qed
qed

section \<open>Masked frames, as a client sends them\<close>

text \<open>
  A frame in the layout of \<open>websocket_parser.h\<close>: first byte, length with the mask bit set, masking
  key, payload combined with the key by exclusive or. \<open>unmask\<close> is its own inverse, so it also
  writes the masked payload.
\<close>

definition client_frame :: "byte \<Rightarrow> bytes \<Rightarrow> bytes \<Rightarrow> bytes" where
  "client_frame b0 key pl =
     b0 # header_len 0x80 (of_nat (length pl)) @ key @ fst (unmask key 0 pl)"

lemma length_unmask [simp]: "length (fst (unmask key i bs)) = length bs"
  by (induction key i bs rule: unmask.induct) (auto simp: Let_def split: prod.splits)

lemma unmask_unmask: "fst (unmask key i (fst (unmask key i bs))) = bs"
  by (induction key i bs rule: unmask.induct)
    (auto simp: Let_def xor.assoc split: prod.splits)

lemma parse_mask_key:
  assumes "length key = 4"
  shows "parse_loop cb (p\<lparr>m_status := St_maskKey, m_byteNeed := 4\<rparr>) (f\<lparr>mask_key := []\<rparr>)
           (key @ rest) s
         = parse_loop cb (p\<lparr>m_byteNeed := payload_len f, m_status := St_payload\<rparr>)
             (f\<lparr>mask_key := key\<rparr>) rest s"
proof -
  obtain a b c d where "key = [a, b, c, d]"
    using assms by (auto simp: length_Suc_conv numeral_eq_Suc)
  then show ?thesis by (simp add: on_maskKey_def Let_def)
qed

text \<open>What the first byte of a frame does to the frame record.\<close>

definition frame_begin :: "websocket_parser \<Rightarrow> WsFrame \<Rightarrow> byte \<Rightarrow> WsFrame" where
  "frame_begin p f b0 = snd (on_finAndOpcode p f b0)"

lemma fin_frame_begin [simp]: "fin (frame_begin p f b0) = GET_FIN b0"
  by (simp add: frame_begin_def on_finAndOpcode_def Let_def)

text \<open>The frame record once the whole frame has been read.\<close>

definition frame_end :: "websocket_parser \<Rightarrow> WsFrame \<Rightarrow> byte \<Rightarrow> bytes \<Rightarrow> bytes \<Rightarrow> WsFrame" where
  "frame_end p f b0 key pl =
     (frame_begin p f b0)\<lparr>mask_bit := True, payload_len := of_nat (length pl),
        mask_key := key, payload := payload (frame_begin p f b0) @ pl\<rparr>"

lemma read_payload_masked:
  assumes "m_maskIndex p = 0" "m_byteNeed p = of_nat (length pl)" "mask_bit f"
    and "length pl < 2 ^ 64"
  shows "read_payload p f (fst (unmask (mask_key f) 0 pl) @ rest) =
     (p\<lparr>m_maskIndex := snd (unmask (mask_key f) 0 (fst (unmask (mask_key f) 0 pl))), m_byteNeed := 0\<rparr>,
      f\<lparr>payload := payload f @ pl\<rparr>, length pl)"
  using assms
  by (simp add: read_payload_def Let_def unat_of_nat_u64 unmask_unmask
      prod.case_eq_if min_absorb2)

lemma parse_client_frame:
  assumes st: "m_status p = St_finAndOpcode" "m_maskIndex p = 0"
    and key: "length key = 4"
    and pl: "pl \<noteq> []" "length pl \<le> 1024 * 1024"
  shows "parse_loop cb p f (client_frame b0 key pl @ rest) s =
     parse_loop cb \<lparr>m_status = St_finAndOpcode, m_byteNeed = 0,
                    m_isContinuation = (\<not> GET_FIN b0), m_maskIndex = 0\<rparr>
       (frame_end p f b0 key pl) rest
       (if GET_FIN b0 then cb (frame_end p f b0 key pl) s else s)"
proof -
  let ?n = "of_nat (length pl) :: size_t"
  let ?f0 = "frame_begin p f b0"
  let ?f1 = "?f0\<lparr>mask_bit := True, payload_len := ?n\<rparr>"
  let ?p1 = "p\<lparr>m_status := St_payloadLenAndMask\<rparr>"
  let ?p2 = "p\<lparr>m_byteNeed := ?n, m_status := St_payload\<rparr>"
  let ?f2 = "?f1\<lparr>mask_key := key\<rparr>"
  let ?wire = "fst (unmask key 0 pl)"
  have lim: "\<not> payload_len ?f2 > LIMIT_PAYLOAD_LEN"
    using pl(2) by (simp add: LIMIT_PAYLOAD_LEN_def word_less_nat_alt unat_of_nat_u64)
  have "parse_loop cb p f (client_frame b0 key pl @ rest) s
      = parse_loop cb ?p1 ?f0 (header_len 0x80 ?n @ key @ ?wire @ rest) s"
    using st by (simp add: client_frame_def frame_begin_def on_finAndOpcode_def Let_def)
  also have "\<dots> = parse_loop cb (p\<lparr>m_status := St_maskKey, m_byteNeed := 4\<rparr>)
                    (?f1\<lparr>mask_key := []\<rparr>) (key @ ?wire @ rest) s"
    by (subst parse_header_len) (simp_all add: SWITCH_TO_MASK_def)
  also have "\<dots> = parse_loop cb ?p2 ?f2 (?wire @ rest) s"
    using parse_mask_key [OF key, of cb p ?f1 "?wire @ rest" s] by simp
  also have "\<dots> = parse_loop cb \<lparr>m_status = St_finAndOpcode, m_byteNeed = 0,
                    m_isContinuation = (\<not> GET_FIN b0), m_maskIndex = 0\<rparr>
       (frame_end p f b0 key pl) rest
       (if GET_FIN b0 then cb (frame_end p f b0 key pl) s else s)"
  proof -
    have r: "read_payload ?p2 ?f2 (?wire @ rest) =
        (?p2\<lparr>m_maskIndex := snd (unmask key 0 ?wire), m_byteNeed := 0\<rparr>,
         frame_end p f b0 key pl, length pl)"
      using read_payload_masked [of ?p2 pl ?f2 rest] st(2) pl(2) by (simp add: frame_end_def)
    have ne: "?wire @ rest \<noteq> []"
      using pl(1) by (metis append_is_Nil_conv length_0_conv length_unmask)
    have reset: "p\<lparr>m_maskIndex := 0, m_byteNeed := 0, m_status := St_finAndOpcode,
        m_isContinuation := b\<rparr> = \<lparr>m_status = St_finAndOpcode, m_byteNeed = 0,
        m_isContinuation = b, m_maskIndex = 0\<rparr>" for b
      by (cases p) simp
    have fe: "fin (frame_end p f b0 key pl) = GET_FIN b0"
      by (simp add: frame_end_def)
    show ?thesis
      unfolding parse_loop_payload [OF _ lim ne r, of cb s, simplified]
      by (simp add: on_complete_def Let_def fe reset)
  qed
  finally show ?thesis .
qed

section \<open>Messages\<close>

text \<open>
  A message is an operation code and its fragments, each a masking key and a piece of the payload.
  The first fragment carries the code, the last one the FIN bit.
\<close>

type_synonym ws_message = "byte \<times> (bytes \<times> bytes) list"

fun wire_fragments :: "byte \<Rightarrow> (bytes \<times> bytes) list \<Rightarrow> bytes" where
  "wire_fragments opc [] = []"
| "wire_fragments opc [(key, pl)] = client_frame (0x80 OR opc) key pl"
| "wire_fragments opc ((key, pl) # frs) = client_frame opc key pl @ wire_fragments 0 frs"

definition wire_message :: "ws_message \<Rightarrow> bytes" where
  "wire_message m = wire_fragments (fst m) (snd m)"

definition fragment_ok :: "bytes \<times> bytes \<Rightarrow> bool" where
  "fragment_ok fr \<longleftrightarrow>
     length (fst fr) = 4 \<and> snd fr \<noteq> [] \<and> length (snd fr) \<le> 1024 * 1024"

definition message_ok :: "ws_message \<Rightarrow> bool" where
  "message_ok m \<longleftrightarrow> fst m \<noteq> 0 \<and> fst m < 16 \<and> snd m \<noteq> [] \<and> list_all fragment_ok (snd m)"

definition message_text :: "ws_message \<Rightarrow> byte \<times> bytes" where
  "message_text m = (fst m, concat (map snd (snd m)))"

definition collect :: "WsFrame \<Rightarrow> (byte \<times> bytes) list \<Rightarrow> (byte \<times> bytes) list" where
  "collect f out = out @ [(opcode f, payload f)]"

definition between_frames :: "bool \<Rightarrow> websocket_parser \<Rightarrow> bool" where
  "between_frames cont p \<longleftrightarrow>
     m_status p = St_finAndOpcode \<and> m_maskIndex p = 0 \<and> m_isContinuation p = cont"

lemma first_byte_bits:
  assumes "opc < (16 :: byte)"
  shows "GET_FIN (0x80 OR opc)" "\<not> GET_FIN opc" "GET_OPCODE (0x80 OR opc) = opc"
    "GET_OPCODE opc = opc"
proof -
  have b: "\<not> bit opc n" if "4 \<le> n" for n
    using not_bit_of_less [of opc 4] assms that by simp
  have m4: "(0x0F :: byte) = mask 4" by (simp add: mask_eq_exp_minus_1)
  show "GET_FIN (0x80 OR opc)" "\<not> GET_FIN opc"
    using b [of 7] by (auto simp: GET_FIN_def byte_top_bit bit_simps bit_0x80)
  show "GET_OPCODE (0x80 OR opc) = opc"
    unfolding GET_OPCODE_def m4 using b
    by (intro bit_word_eqI) (auto simp: bit_simps bit_0x80 intro: ccontr)
  show "GET_OPCODE opc = opc"
    unfolding GET_OPCODE_def m4 using b
    by (intro bit_word_eqI) (auto simp: bit_simps bit_0x80 intro: ccontr)
qed

text \<open>The opcode and payload a frame starts from, by the kind of frame it is.\<close>

lemma frame_end_fields:
  assumes "opc < 16" "b0 = opc \<or> b0 = 0x80 OR opc"
  shows "opcode (frame_end p f b0 key pl) =
           (if \<not> m_isContinuation p \<and> opc \<noteq> 0 then opc else opcode f)"
    and "payload (frame_end p f b0 key pl) =
           (if \<not> m_isContinuation p \<and> opc \<noteq> 0 then [] else payload f) @ pl"
    and "mask_bit (frame_end p f b0 key pl)"
  using assms first_byte_bits [OF assms(1)]
  by (auto simp: frame_end_def frame_begin_def on_finAndOpcode_def Let_def)

lemma parse_fragments:
  assumes "between_frames cont p" "opc < 16" "frs \<noteq> []" "list_all fragment_ok frs"
    and "cont \<longleftrightarrow> opc = 0"
  shows "\<exists>q g. parse_loop cb p f (wire_fragments opc frs @ rest) s = parse_loop cb q g rest (cb g s)
     \<and> between_frames False q \<and> mask_bit g
     \<and> opcode g = (if cont then opcode f else opc)
     \<and> payload g = (if cont then payload f else []) @ concat (map snd frs)"
  using assms
proof (induction opc frs arbitrary: p f cont rule: wire_fragments.induct)
  case (1 opc)
  then show ?case by simp
next
  case (2 opc key pl)
  let ?q = "\<lparr>m_status = St_finAndOpcode, m_byteNeed = 0, m_isContinuation = False, m_maskIndex = 0\<rparr>"
  have "parse_loop cb p f (wire_fragments opc [(key, pl)] @ rest) s =
      parse_loop cb ?q (frame_end p f (0x80 OR opc) key pl) rest
        (cb (frame_end p f (0x80 OR opc) key pl) s)"
    using "2.prems" first_byte_bits [of opc]
    by (simp add: parse_client_frame between_frames_def fragment_ok_def)
  moreover have "between_frames False ?q" by (simp add: between_frames_def)
  ultimately show ?case
    using "2.prems" frame_end_fields [of opc "0x80 OR opc" p f key pl]
    by (intro exI [of _ ?q] exI [of _ "frame_end p f (0x80 OR opc) key pl"])
      (auto simp: between_frames_def)
next
  case (3 opc key pl v va)
  let ?q = "\<lparr>m_status = St_finAndOpcode, m_byteNeed = 0, m_isContinuation = True, m_maskIndex = 0\<rparr>"
  let ?f = "frame_end p f opc key pl"
  have step: "parse_loop cb p f (wire_fragments opc ((key, pl) # v # va) @ rest) s =
      parse_loop cb ?q ?f (wire_fragments 0 (v # va) @ rest) s"
    using "3.prems" first_byte_bits [of opc]
    by (simp add: parse_client_frame between_frames_def fragment_ok_def)
  have "between_frames True ?q" by (simp add: between_frames_def)
  with "3.IH" [of True ?q ?f] "3.prems" obtain q g where
    "parse_loop cb ?q ?f (wire_fragments 0 (v # va) @ rest) s = parse_loop cb q g rest (cb g s)"
    "between_frames False q" "mask_bit g" "opcode g = opcode ?f"
    "payload g = payload ?f @ concat (map snd (v # va))"
    by auto
  then show ?case
    using step "3.prems" frame_end_fields [of opc opc p f key pl]
    by (intro exI [of _ q] exI [of _ g]) (auto simp: between_frames_def)
qed

text \<open>
  The contract of a completion callback that follows an abstract step per message: \<open>abs\<close> reads off
  the abstract value, \<open>step\<close> advances it by one message, \<open>inv\<close> is what the callback keeps, and
  \<open>ok\<close> tells which operation codes it is prepared for.
\<close>

locale frame_handler =
  fixes cb :: "WsFrame \<Rightarrow> 's \<Rightarrow> 's"
    and abs :: "'s \<Rightarrow> 'a"
    and step :: "byte \<times> bytes \<Rightarrow> 'a \<Rightarrow> 'a"
    and ok :: "byte \<Rightarrow> bool"
    and inv :: "'s \<Rightarrow> bool"
  assumes cb_step:
      "inv s \<Longrightarrow> mask_bit g \<Longrightarrow> ok (opcode g) \<Longrightarrow> abs (cb g s) = step (opcode g, payload g) (abs s)"
    and cb_inv: "inv s \<Longrightarrow> mask_bit g \<Longrightarrow> ok (opcode g) \<Longrightarrow> inv (cb g s)"
begin

lemma handles_messages:
  assumes "between_frames False p" "list_all message_ok ms" "\<forall>m \<in> set ms. ok (fst m)" "inv s"
  shows "\<exists>q g t. parse_loop cb p f (concat (map wire_message ms) @ rest) s = parse_loop cb q g rest t
           \<and> between_frames False q \<and> inv t \<and> abs t = fold step (map message_text ms) (abs s)"
  using assms
proof (induction ms arbitrary: p f s)
  case Nil
  then show ?case by auto
next
  case (Cons m ms)
  let ?rest = "concat (map wire_message ms) @ rest"
  have m: "fst m < 16" "snd m \<noteq> []" "list_all fragment_ok (snd m)" "fst m \<noteq> 0" "ok (fst m)"
    using Cons.prems by (simp_all add: message_ok_def)
  obtain q g where st: "parse_loop cb p f (wire_message m @ ?rest) s = parse_loop cb q g ?rest (cb g s)"
    and q: "between_frames False q" and g: "mask_bit g" "(opcode g, payload g) = message_text m"
    using parse_fragments [OF Cons.prems(1) m(1-3), of cb f ?rest s] m(4)
    by (auto simp: wire_message_def message_text_def)
  have "abs (cb g s) = step (message_text m) (abs s)" "inv (cb g s)"
    using cb_step [OF Cons.prems(4) g(1)] cb_inv [OF Cons.prems(4) g(1)] g(2) m(5)
    by (auto simp: message_text_def)
  with Cons.IH [OF q, of "cb g s" g] Cons.prems st show ?case by auto
qed

end

interpretation collecting: frame_handler collect "\<lambda>out. out" "\<lambda>m out. out @ [m]" "\<lambda>_. True" "\<lambda>_. True"
  by unfold_locales (simp_all add: collect_def)

lemma fold_snoc: "fold (\<lambda>m out. out @ [m]) ms out = out @ ms"
  by (induction ms arbitrary: out) auto

text \<open>
  Message delivery. Take any list of well-formed messages (codes 1 to 15, at least one
  fragment, fragments of 1 byte to 1 MiB, four-byte keys), write them one after the other as
  masked frames, and cut the stream into buffers in any way. A freshly constructed parser reads
  it without error, and its completion callback runs once per message, in order, with the
  operation code of the message and the concatenated unmasked payload of its fragments.
\<close>

theorem ws_delivers_messages:
  assumes "list_all message_ok ms" "concat chunks = concat (map wire_message ms)"
  shows "\<exists>q g. foldl (parse_next collect) (SUCCESS, websocket_parser_init, f, []) chunks
           = (SUCCESS, q, g, map message_text ms)"
proof -
  have "between_frames False websocket_parser_init"
    by (simp add: between_frames_def websocket_parser_init_def)
  from collecting.handles_messages [OF this assms(1), where s = "[]" and f = f and rest = "[]"]
  show ?thesis
    by (auto simp: fold_snoc ws_stream.feed_chunks parse_next_def parse_eq_loop assms(2))
qed

theorem ws_delivers_messages_witness:
  "\<exists>q g. foldl (parse_next collect)
        (SUCCESS, websocket_parser_init, \<lparr>fin = False, rsv = 0, opcode = 0, mask_bit = False,
           payload_len = 0, mask_key = [], payload = []\<rparr>, [])
        [take 3 (wire_message (1, [([1, 2, 3, 4], [72]), ([9, 9, 9, 9], [105, 33])])),
         drop 3 (wire_message (1, [([1, 2, 3, 4], [72]), ([9, 9, 9, 9], [105, 33])]))]
      = (SUCCESS, q, g, [(1, [72, 105, 33])])"
  using ws_delivers_messages [of "[(1, [([1, 2, 3, 4], [72]), ([9, 9, 9, 9], [105, 33])])]"
      "[take 3 (wire_message (1, [([1, 2, 3, 4], [72]), ([9, 9, 9, 9], [105, 33])])),
        drop 3 (wire_message (1, [([1, 2, 3, 4], [72]), ([9, 9, 9, 9], [105, 33])]))]"]
  by (simp add: message_ok_def fragment_ok_def message_text_def)

lemma inter_send_reads_back:
  assumes "between_frames False p" "0 < opc" "opc < 16" "pl \<noteq> []" "length pl \<le> 1024 * 1024"
  shows "\<exists>q g. parse cb p f (inter_send_header opc (of_nat (length pl)) @ pl) s
                 = (SUCCESS, q, g, cb g s)
           \<and> between_frames False q \<and> opcode g = opc \<and> payload g = pl \<and> \<not> mask_bit g
           \<and> payload_len g = of_nat (length pl)"
proof -
  let ?n = "of_nat (length pl) :: size_t"
  let ?f0 = "frame_begin p f (0x80 OR opc)"
  let ?f1 = "?f0\<lparr>mask_bit := False, payload_len := ?n\<rparr>"
  let ?p1 = "p\<lparr>m_status := St_payload, m_byteNeed := ?n\<rparr>"
  have st: "m_status p = St_finAndOpcode" "m_isContinuation p = False"
    using assms(1) by (simp_all add: between_frames_def)
  have f0: "opcode ?f0 = opc" "payload ?f0 = []"
    using first_byte_bits [OF assms(3)] assms(2) st
    by (auto simp: frame_begin_def on_finAndOpcode_def Let_def)
  have lim: "\<not> payload_len ?f1 > LIMIT_PAYLOAD_LEN"
    using assms(5) by (simp add: LIMIT_PAYLOAD_LEN_def word_less_nat_alt unat_of_nat_u64)
  have "parse_loop cb p f (inter_send_header opc ?n @ pl) s
      = parse_loop cb (p\<lparr>m_status := St_payloadLenAndMask\<rparr>) ?f0 (header_len 0 ?n @ pl) s"
    using st by (simp add: inter_send_header_def frame_begin_def on_finAndOpcode_def Let_def)
  also have "\<dots> = parse_loop cb ?p1 ?f1 pl s"
    by (subst parse_header_len) (simp_all add: SWITCH_TO_MASK_def)
  also have "\<exists>q g. \<dots> = (SUCCESS, q, g, cb g s)
           \<and> between_frames False q \<and> opcode g = opc \<and> payload g = pl \<and> \<not> mask_bit g
           \<and> payload_len g = ?n"
  proof -
    have u: "unat ?n = length pl" using assms(5) by (simp add: unat_of_nat_u64)
    have r: "read_payload ?p1 ?f1 pl = (?p1\<lparr>m_byteNeed := 0\<rparr>, ?f1\<lparr>payload := pl\<rparr>, length pl)"
      using f0 u by (simp add: read_payload_def Let_def)
    have "fin (?f1\<lparr>payload := pl\<rparr>)" using first_byte_bits [OF assms(3)] by simp
    then show ?thesis
      using parse_loop_payload [OF _ lim assms(4) r, of cb s] assms(1) f0
      by (auto simp: on_complete_def Let_def between_frames_def)
  qed
  finally show ?thesis by (simp add: parse_eq_loop)
qed

text \<open>
  C21. The server's own frames read back: the header \<open>inter_send\<close> writes for a payload of 1 byte
  to 1 MiB (its 7 bit, 16 bit and 64 bit length forms), followed by the payload, makes the parser
  complete exactly one frame, unmasked, with the same operation code, length and payload.
\<close>

theorem inter_send_roundtrip:
  assumes "between_frames False p" "0 < opc" "opc < 16" "pl \<noteq> []" "length pl \<le> 1024 * 1024"
  shows "\<exists>q g. parse cb p f (inter_send_header opc (of_nat (length pl)) @ pl) s
                 = (SUCCESS, q, g, cb g s)
           \<and> between_frames False q \<and> opcode g = opc \<and> payload g = pl \<and> \<not> mask_bit g
           \<and> payload_len g = of_nat (length pl)"
  by (rule inter_send_reads_back [OF assms])

theorem inter_send_roundtrip_witness:
  "\<exists>q g. parse collect websocket_parser_init
       \<lparr>fin = False, rsv = 0, opcode = 0, mask_bit = False, payload_len = 0,
        mask_key = [], payload = []\<rparr>
       (inter_send_header WS_TEXT (of_nat (length [104, 105 :: byte])) @ [104, 105]) []
     = (SUCCESS, q, g, collect g [])
     \<and> between_frames False q \<and> opcode g = WS_TEXT \<and> payload g = [104, 105] \<and> \<not> mask_bit g
     \<and> payload_len g = of_nat (length [104, 105 :: byte])"
  by (rule inter_send_roundtrip)
    (simp_all add: between_frames_def websocket_parser_init_def WS_TEXT_def)

text \<open>
  The size limit. A masked frame whose header announces more than \<open>LIMIT_PAYLOAD_LEN\<close> bytes is
  rejected with \<open>INVALID_PAYLOAD_LEN\<close> at its first payload byte: the callback does not run, no
  payload byte is stored, and the parser is ready for a new frame.
\<close>

theorem ws_overlong_rejected:
  assumes "between_frames cont p" "length key = 4" "LIMIT_PAYLOAD_LEN < len"
  shows "\<exists>q g. parse cb p f (b0 # header_len 0x80 len @ key @ b # rest) s
                 = (INVALID_PAYLOAD_LEN, q, g, s)
           \<and> between_frames False q \<and> payload g = payload (frame_begin p f b0)"
proof -
  let ?f1 = "(frame_begin p f b0)\<lparr>mask_bit := True, payload_len := len\<rparr>"
  have "parse_loop cb p f (b0 # header_len 0x80 len @ key @ b # rest) s
      = parse_loop cb (p\<lparr>m_status := St_payloadLenAndMask\<rparr>) (frame_begin p f b0)
          (header_len 0x80 len @ key @ b # rest) s"
    using assms(1)
    by (simp add: between_frames_def frame_begin_def on_finAndOpcode_def Let_def)
  also have "\<dots> = parse_loop cb (p\<lparr>m_status := St_maskKey, m_byteNeed := 4\<rparr>)
                    (?f1\<lparr>mask_key := []\<rparr>) (key @ b # rest) s"
    by (subst parse_header_len) (simp_all add: SWITCH_TO_MASK_def)
  also have "\<dots> = (INVALID_PAYLOAD_LEN, p\<lparr>m_byteNeed := len, m_status := St_finAndOpcode,
      m_isContinuation := False\<rparr>, ?f1\<lparr>mask_key := key\<rparr>, s)"
    using parse_mask_key [OF assms(2), of cb p ?f1 "b # rest" s] assms(3) by simp
  finally show ?thesis
    using assms(1) by (simp add: parse_eq_loop between_frames_def)
qed

theorem ws_overlong_rejected_witness:
  "\<exists>q g. parse collect websocket_parser_init
       \<lparr>fin = False, rsv = 0, opcode = 0, mask_bit = False, payload_len = 0,
        mask_key = [], payload = []\<rparr>
       (0x82 # header_len 0x80 (1024 * 1024 + 1) @ [1, 2, 3, 4] @ 65 # [66]) []
     = (INVALID_PAYLOAD_LEN, q, g, [])
     \<and> between_frames False q
     \<and> payload g = payload (frame_begin websocket_parser_init
         \<lparr>fin = False, rsv = 0, opcode = 0, mask_bit = False, payload_len = 0,
          mask_key = [], payload = []\<rparr> 0x82)"
  by (rule ws_overlong_rejected [where cont = False])
    (simp_all add: between_frames_def websocket_parser_init_def LIMIT_PAYLOAD_LEN_def)

text \<open>
  Empty frames wait. A masked frame with an empty payload (an empty ping or close, say) leaves
  the parser in \<open>Status::payload\<close> with nothing left to read and does not run the callback; the
  callback for it runs only when the first byte of whatever comes next is parsed.
\<close>

theorem ws_empty_frame_deferred:
  assumes "between_frames cont p" "length key = 4"
  shows "\<exists>q g. parse cb p f (b0 # header_len 0x80 0 @ key) s = (SUCCESS, q, g, s)
           \<and> m_status q = St_payload \<and> m_byteNeed q = 0 \<and> payload g = payload (frame_begin p f b0)
           \<and> (\<forall>b. GET_FIN b0 \<longrightarrow> snd (snd (snd (parse cb q g [b] s))) = cb g s)"
proof -
  let ?f1 = "(frame_begin p f b0)\<lparr>mask_bit := True, payload_len := 0\<rparr>"
  let ?q = "p\<lparr>m_byteNeed := 0, m_status := St_payload\<rparr>" and ?g = "?f1\<lparr>mask_key := key\<rparr>"
  have "parse_loop cb p f (b0 # header_len 0x80 0 @ key) s
      = parse_loop cb (p\<lparr>m_status := St_payloadLenAndMask\<rparr>) (frame_begin p f b0)
          (header_len 0x80 0 @ key) s"
    using assms(1)
    by (simp add: between_frames_def frame_begin_def on_finAndOpcode_def Let_def)
  also have "\<dots> = parse_loop cb (p\<lparr>m_status := St_maskKey, m_byteNeed := 4\<rparr>)
                    (?f1\<lparr>mask_key := []\<rparr>) (key @ []) s"
    by (subst parse_header_len) (simp_all add: SWITCH_TO_MASK_def)
  also have "\<dots> = (SUCCESS, ?q, ?g, s)"
    using parse_mask_key [OF assms(2), of cb p ?f1 "[]" s] by simp
  finally have one: "parse cb p f (b0 # header_len 0x80 0 @ key) s = (SUCCESS, ?q, ?g, s)"
    by (simp add: parse_eq_loop)
  have lim: "\<not> payload_len ?g > LIMIT_PAYLOAD_LEN" by simp
  have "read_payload ?q ?g [b] = (?q, ?g, 0)" for b
    by (cases p) (simp add: read_payload_def Let_def)
  then have "GET_FIN b0 \<Longrightarrow> snd (snd (snd (parse_loop cb ?q ?g [b] s))) = cb ?g s" for b
    using parse_loop_payload [OF _ lim, of ?q "[b]" ?q ?g 0 cb s]
    by (simp add: on_complete_def Let_def on_finAndOpcode_def)
  with one show ?thesis by (auto simp: parse_eq_loop)
qed

theorem ws_empty_frame_deferred_witness:
  "\<exists>q g. parse collect websocket_parser_init
       \<lparr>fin = False, rsv = 0, opcode = 0, mask_bit = False, payload_len = 0,
        mask_key = [], payload = []\<rparr> (0x89 # header_len 0x80 0 @ [1, 2, 3, 4]) []
     = (SUCCESS, q, g, [])
     \<and> m_status q = St_payload \<and> m_byteNeed q = 0
     \<and> payload g = payload (frame_begin websocket_parser_init
         \<lparr>fin = False, rsv = 0, opcode = 0, mask_bit = False, payload_len = 0,
          mask_key = [], payload = []\<rparr> 0x89)
     \<and> (\<forall>b. GET_FIN 0x89 \<longrightarrow> snd (snd (snd (parse collect q g [b] []))) = collect g [])"
  by (rule ws_empty_frame_deferred [where cont = False])
    (simp_all add: between_frames_def websocket_parser_init_def)

end
