(* ===== verification/Ws_Session.thy ===== *)
theory Ws_Session
  imports Ws_Frame Recv_Buffer
begin

text \<open>
  \<open>WsSession\<close> of \<open>include/WebSocket.h\<close> and \<open>src/core/WebSocket.cpp\<close>. The session is a record of
  its fields; what it does to its socket, to the application and to its server is recorded, in
  order, in the trace \<open>io\<close>. An application callback is a function from the session it is given to
  the list of public calls it makes on that session.
\<close>

section \<open>State\<close>

datatype WsStatus = CONNECTING | OPEN | CLOSING | CLOSED

datatype ws_io =
    Io_ReadStart
  | Io_ReadStop
  | Io_UvClose
  | Io_UvWrite bytes
  | Io_OnConnect
  | Io_OnClose
  | Io_OnMessage byte bytes
  | Io_OnError string
  | Io_DeleteCtx
  | Io_RemoveWs

record WsSession =
  readyState :: WsStatus
  m_recvBufLen :: size_t
  m_parser :: websocket_parser
  m_frame :: WsFrame
  io :: "ws_io list"

datatype ws_cmd = Cmd_send bytes | Cmd_close

record ws_callbacks =
  m_onConnectCb :: "(WsSession \<Rightarrow> ws_cmd list) option"
  m_onCloseCb :: "(WsSession \<Rightarrow> ws_cmd list) option"
  m_onErrorCb :: "(WsSession \<Rightarrow> ws_cmd list) option"
  m_onMessageCb :: "(WsSession \<Rightarrow> ws_cmd list) option"

definition emit :: "ws_io list \<Rightarrow> WsSession \<Rightarrow> WsSession" where
  "emit evs s = s\<lparr>io := io s @ evs\<rparr>"

text \<open>The default-initialised frame and the constructor of a session.\<close>

definition WsFrame_init :: WsFrame where
  "WsFrame_init = \<lparr>fin = False, rsv = 0, opcode = 0, mask_bit = False, payload_len = 0,
                   mask_key = [], payload = []\<rparr>"

definition WsSession_init :: "size_t \<Rightarrow> WsSession" where
  "WsSession_init http_len =
     \<lparr>readyState = CLOSED, m_recvBufLen = fst (transferBufferToWsSession http_len),
      m_parser = websocket_parser_init, m_frame = WsFrame_init, io = []\<rparr>"

definition getStrMessage :: "WsSession \<Rightarrow> bytes" where
  "getStrMessage s = payload (m_frame s)"

section \<open>Sending\<close>

text \<open>\<open>inter_send\<close> for a string: the frame header and the message go out in one write.\<close>

definition inter_send :: "bytes \<Rightarrow> byte \<Rightarrow> WsSession \<Rightarrow> WsSession" where
  "inter_send str opc s =
     emit [Io_UvWrite (inter_send_header opc (of_nat (length str)) @ str)] s"

definition ws_send :: "bytes \<Rightarrow> WsSession \<Rightarrow> WsSession" where
  "ws_send str s = inter_send str WS_TEXT s"

definition sendPong :: "WsSession \<Rightarrow> WsSession" where
  "sendPong s = inter_send [] WS_PONG s"

section \<open>Closing\<close>

text \<open>
  The calls of a close callback: the session is already CLOSED when it runs, so a nested
  \<open>close()\<close> returns at once.
\<close>

fun run_close_cb :: "ws_cmd list \<Rightarrow> WsSession \<Rightarrow> WsSession" where
  "run_close_cb [] s = s"
| "run_close_cb (Cmd_send d # cs) s = run_close_cb cs (ws_send d s)"
| "run_close_cb (Cmd_close # cs) s = run_close_cb cs s"

definition inter_close :: "ws_callbacks \<Rightarrow> WsSession \<Rightarrow> WsSession" where
  "inter_close cbs s =
     (let s = emit [Io_ReadStop, Io_UvClose] (s\<lparr>readyState := CLOSED\<rparr>);
          s = (case m_onCloseCb cbs of None \<Rightarrow> s
               | Some cb \<Rightarrow> (let s = emit [Io_OnClose] s in run_close_cb (cb s) s))
      in emit [Io_RemoveWs] s)"

definition ws_close :: "ws_callbacks \<Rightarrow> WsSession \<Rightarrow> WsSession" where
  "ws_close cbs s = (if readyState s = CLOSED then s else inter_close cbs s)"

text \<open>The calls any other callback makes.\<close>

fun run_cmds :: "ws_callbacks \<Rightarrow> ws_cmd list \<Rightarrow> WsSession \<Rightarrow> WsSession" where
  "run_cmds cbs [] s = s"
| "run_cmds cbs (Cmd_send d # cs) s = run_cmds cbs cs (ws_send d s)"
| "run_cmds cbs (Cmd_close # cs) s = run_cmds cbs cs (ws_close cbs s)"

text \<open>\<open>WS_CALLBACK\<close>: an unset callback is skipped.\<close>

definition WS_CALLBACK ::
  "ws_callbacks \<Rightarrow> (WsSession \<Rightarrow> ws_cmd list) option \<Rightarrow> ws_io \<Rightarrow> WsSession \<Rightarrow> WsSession" where
  "WS_CALLBACK cbs cb ev s =
     (case cb of None \<Rightarrow> s | Some f \<Rightarrow> (let s = emit [ev] s in run_cmds cbs (f s) s))"

definition connect :: "ws_callbacks \<Rightarrow> WsSession \<Rightarrow> WsSession" where
  "connect cbs s =
     (let s = emit [Io_ReadStart] (s\<lparr>readyState := CONNECTING\<rparr>);
          s = s\<lparr>readyState := OPEN\<rparr>
      in WS_CALLBACK cbs (m_onConnectCb cbs) Io_OnConnect s)"

section \<open>Receiving\<close>

definition handleWsFrame :: "ws_callbacks \<Rightarrow> WsSession \<Rightarrow> WsSession" where
  "handleWsFrame cbs s =
     (if \<not> mask_bit (m_frame s)
      then inter_close cbs
             (WS_CALLBACK cbs (m_onErrorCb cbs) (Io_OnError ''websocket message no mask'') s)
      else if opcode (m_frame s) = WS_PONG then s
      else if opcode (m_frame s) = WS_PING then sendPong s
      else if opcode (m_frame s) = WS_CLOSE then inter_close cbs s
      else WS_CALLBACK cbs (m_onMessageCb cbs)
             (Io_OnMessage (opcode (m_frame s)) (payload (m_frame s))) s)"

definition handleMessage :: "ws_callbacks \<Rightarrow> bytes \<Rightarrow> WsSession \<Rightarrow> WsSession" where
  "handleMessage cbs data s =
     (let (err, p, f, s) = parse (\<lambda>f s. handleWsFrame cbs (s\<lparr>m_frame := f\<rparr>))
                             (m_parser s) (m_frame s) data s;
          s = s\<lparr>m_parser := p, m_frame := f\<rparr>
      in if err \<noteq> SUCCESS
         then inter_close cbs
                (WS_CALLBACK cbs (m_onErrorCb cbs) (Io_OnError ''websocket session parse error'') s)
         else s)"

text \<open>\<open>recv_cb\<close>, on what libuv reports.\<close>

fun ws_recv_cb :: "ws_callbacks \<Rightarrow> uv_read \<Rightarrow> WsSession \<Rightarrow> WsSession" where
  "ws_recv_cb cbs (Read_data data) s =
     (if readyState s = OPEN then handleMessage cbs data s else s)"
| "ws_recv_cb cbs _ s = inter_close cbs s"

text \<open>
  The completion callback of \<open>inter_send\<close>'s write. On an error the context is deleted, the session
  closed, and control then reaches the common end, which deletes the context again.
\<close>

definition write_done :: "ws_callbacks \<Rightarrow> int \<Rightarrow> WsSession \<Rightarrow> WsSession" where
  "write_done cbs status s =
     (let s = (if status < 0
               then inter_close cbs (emit [Io_DeleteCtx]
                      (WS_CALLBACK cbs (m_onErrorCb cbs) (Io_OnError ''websocket send error'') s))
               else s)
      in emit [Io_DeleteCtx] s)"

lemmas ws_session_defs = emit_def inter_send_def ws_send_def sendPong_def inter_close_def
  ws_close_def WS_CALLBACK_def connect_def handleWsFrame_def

section \<open>Frame conditions\<close>

lemma run_close_cb_fields [simp]:
  "readyState (run_close_cb cs s) = readyState s"
  "m_parser (run_close_cb cs s) = m_parser s"
  "m_frame (run_close_cb cs s) = m_frame s"
  by (induction cs s rule: run_close_cb.induct) (simp_all add: ws_session_defs)

lemma inter_close_fields [simp]:
  "readyState (inter_close cbs s) = CLOSED"
  "m_parser (inter_close cbs s) = m_parser s"
  "m_frame (inter_close cbs s) = m_frame s"
  by (simp_all add: inter_close_def emit_def Let_def split: option.splits)

lemma run_cmds_fields [simp]:
  "m_parser (run_cmds cbs cs s) = m_parser s"
  "m_frame (run_cmds cbs cs s) = m_frame s"
  by (induction cbs cs s rule: run_cmds.induct)
    (simp_all add: ws_send_def inter_send_def emit_def ws_close_def)

lemma run_cmds_closed: "readyState s = CLOSED \<Longrightarrow> readyState (run_cmds cbs cs s) = CLOSED"
  by (induction cbs cs s rule: run_cmds.induct)
    (simp_all add: ws_send_def inter_send_def emit_def ws_close_def)

lemma run_cmds_not_reopened: "readyState (run_cmds cbs cs s) = OPEN \<Longrightarrow> readyState s = OPEN"
  by (induction cbs cs s rule: run_cmds.induct)
    (auto simp: ws_send_def inter_send_def emit_def ws_close_def split: if_splits)

lemma handleWsFrame_fields [simp]:
  "m_parser (handleWsFrame cbs s) = m_parser s"
  "m_frame (handleWsFrame cbs s) = m_frame s"
  by (simp_all add: handleWsFrame_def WS_CALLBACK_def sendPong_def inter_send_def emit_def Let_def
      split: option.splits)

lemma handleWsFrame_not_reopened:
  "readyState (handleWsFrame cbs s) = OPEN \<Longrightarrow> readyState s = OPEN"
  by (auto simp: handleWsFrame_def WS_CALLBACK_def sendPong_def inter_send_def emit_def Let_def
      split: option.splits if_splits dest: run_cmds_not_reopened)

section \<open>Counting events\<close>

text \<open>How often each operation emits an event that none of the application's calls emits.\<close>

definition quiet :: "ws_io \<Rightarrow> bool" where
  "quiet ev \<longleftrightarrow> (case ev of Io_OnMessage _ _ \<Rightarrow> True | Io_DeleteCtx \<Rightarrow> True | _ \<Rightarrow> False)"

definition events :: "(ws_io \<Rightarrow> bool) \<Rightarrow> WsSession \<Rightarrow> ws_io list" where
  "events P s = filter P (io s)"

lemma events_emit [simp]: "events P (emit evs s) = events P s @ filter P evs"
  by (simp add: events_def emit_def)

lemma events_upd [simp]:
  "events P (s\<lparr>readyState := r\<rparr>) = events P s" "events P (s\<lparr>m_parser := p\<rparr>) = events P s"
  "events P (s\<lparr>m_frame := f\<rparr>) = events P s"
  by (simp_all add: events_def)

lemma run_close_cb_quiet:
  "\<forall>d. \<not> P (Io_UvWrite d) \<Longrightarrow> events P (run_close_cb cs s) = events P s"
  by (induction cs s rule: run_close_cb.induct) (simp_all add: ws_send_def inter_send_def)

lemma inter_close_quiet:
  assumes "\<forall>d. \<not> P (Io_UvWrite d)"
  shows "events P (inter_close cbs s) = events P s
     @ filter P ([Io_ReadStop, Io_UvClose] @ (if m_onCloseCb cbs = None then [] else [Io_OnClose])
                 @ [Io_RemoveWs])"
  using run_close_cb_quiet [OF assms] by (auto simp: inter_close_def Let_def split: option.splits)

lemma run_cmds_quiet:
  assumes "P = (\<lambda>e. quiet e \<and> Q e)"
  shows "events P (run_cmds cbs cs s) = events P s"
  using assms
  by (induction cbs cs s rule: run_cmds.induct)
    (auto simp: ws_send_def inter_send_def ws_close_def inter_close_quiet quiet_def)

section \<open>Behaviour of the operations\<close>

text \<open>
  Closing is idempotent: after \<open>close()\<close> the session is CLOSED, a second \<open>close()\<close> changes
  nothing, and data that still arrives is not parsed.
\<close>

theorem ws_close_idempotent:
  "readyState (ws_close cbs s) = CLOSED \<and> ws_close cbs (ws_close cbs s) = ws_close cbs s
   \<and> ws_recv_cb cbs (Read_data d) (ws_close cbs s) = ws_close cbs s"
  by (simp add: ws_close_def)

text \<open>
  C26. Unmasked frames are refused: whatever the callbacks do, a completed frame without the mask
  bit closes the session and is never handed to the message callback.
\<close>

theorem unmasked_frame_refused:
  assumes "\<not> mask_bit (m_frame s)"
  shows "readyState (handleWsFrame cbs s) = CLOSED
     \<and> filter (\<lambda>e. \<exists>op pl. e = Io_OnMessage op pl) (io (handleWsFrame cbs s))
       = filter (\<lambda>e. \<exists>op pl. e = Io_OnMessage op pl) (io s)"
proof -
  let ?P = "\<lambda>e. quiet e \<and> (\<exists>op pl. e = Io_OnMessage op pl)"
  have P: "(\<lambda>e. \<exists>op pl. e = Io_OnMessage op pl) = ?P"
    by (auto simp: quiet_def fun_eq_iff)
  have "events ?P (handleWsFrame cbs s) = events ?P s"
    using assms
    by (simp add: handleWsFrame_def WS_CALLBACK_def Let_def inter_close_quiet run_cmds_quiet
        split: option.splits)
  then show ?thesis using assms unfolding P by (simp add: events_def handleWsFrame_def)
qed

theorem unmasked_frame_refused_witness:
  "readyState (handleWsFrame \<lparr>m_onConnectCb = None, m_onCloseCb = None, m_onErrorCb = None,
       m_onMessageCb = Some (\<lambda>s. [Cmd_send (getStrMessage s)])\<rparr>
       (connect \<lparr>m_onConnectCb = None, m_onCloseCb = None, m_onErrorCb = None,
          m_onMessageCb = None\<rparr> (WsSession_init 65536))) = CLOSED
   \<and> filter (\<lambda>e. \<exists>op pl. e = Io_OnMessage op pl)
       (io (handleWsFrame \<lparr>m_onConnectCb = None, m_onCloseCb = None, m_onErrorCb = None,
          m_onMessageCb = Some (\<lambda>s. [Cmd_send (getStrMessage s)])\<rparr>
          (connect \<lparr>m_onConnectCb = None, m_onCloseCb = None, m_onErrorCb = None,
             m_onMessageCb = None\<rparr> (WsSession_init 65536))))
     = filter (\<lambda>e. \<exists>op pl. e = Io_OnMessage op pl)
         (io (connect \<lparr>m_onConnectCb = None, m_onCloseCb = None, m_onErrorCb = None,
            m_onMessageCb = None\<rparr> (WsSession_init 65536)))"
  by (rule unmasked_frame_refused)
    (simp add: connect_def WS_CALLBACK_def emit_def Let_def WsSession_init_def WsFrame_init_def)

text \<open>
  C38. The completion of a write frees its context once on success, but twice when the write
  failed, whatever the callbacks do.
\<close>

theorem write_done_deletes:
  "count_list (io (write_done cbs status s)) Io_DeleteCtx
     = count_list (io s) Io_DeleteCtx + (if status < 0 then 2 else 1)"
proof -
  let ?P = "\<lambda>e. quiet e \<and> e = Io_DeleteCtx"
  have P: "(\<lambda>e. e = Io_DeleteCtx) = ?P" by (auto simp: quiet_def fun_eq_iff)
  have cnt: "count_list (io t) Io_DeleteCtx = length (events ?P t)" for t
    unfolding events_def P [symmetric]
    by (simp add: count_list_eq_length_filter) (rule arg_cong [where f = length], rule filter_cong, auto)
  have "length (events ?P (write_done cbs status s))
      = length (events ?P s) + (if status < 0 then 2 else 1)"
    by (simp add: write_done_def WS_CALLBACK_def Let_def inter_close_quiet run_cmds_quiet quiet_def
        split: option.splits)
  then show ?thesis by (simp add: cnt)
qed

section \<open>Whole conversations\<close>

text \<open>
  The parser treats the surrounding state as opaque: two runs on related states stay related if
  the callbacks keep the relation.
\<close>

lemma on_complete_sim:
  assumes "\<And>f s t. R s t \<Longrightarrow> R (cb f s) (cb' f t)" "R s t"
  obtains q s' t' where "on_complete cb p f s = (q, s')" "on_complete cb' p f t = (q, t')" "R s' t'"
  using assms that by (cases "fin f") (auto simp: on_complete_def Let_def)

definition sim_result :: "('s \<Rightarrow> 't \<Rightarrow> bool) \<Rightarrow> WsParseErr \<times> websocket_parser \<times> WsFrame \<times> 's
    \<Rightarrow> WsParseErr \<times> websocket_parser \<times> WsFrame \<times> 't \<Rightarrow> bool" where
  "sim_result R x y \<longleftrightarrow> fst x = fst y \<and> fst (snd x) = fst (snd y)
     \<and> fst (snd (snd x)) = fst (snd (snd y)) \<and> R (snd (snd (snd x))) (snd (snd (snd y)))"

lemma parse_loop_sim:
  assumes "\<And>f s t. R s t \<Longrightarrow> R (cb f s) (cb' f t)" "R s t"
  shows "sim_result R (parse_loop cb p f buf s) (parse_loop cb' p f buf t)"
  using assms
proof (induction cb p f buf s arbitrary: t rule: parse_loop.induct)
  case (1 cb p f s)
  then show ?case by (simp add: sim_result_def)
next
  case (2 cb p f ch rest s)
  obtain q g n where r: "read_payload p f (ch # rest) = (q, g, n)"
    by (cases "read_payload p f (ch # rest)") auto
  show ?case
  proof (cases "m_status p")
    case St_payload
    show ?thesis
    proof (cases "payload_len f > LIMIT_PAYLOAD_LEN")
      case True
      then show ?thesis using St_payload "2.prems"(2) by (simp add: sim_result_def)
    next
      case False
      obtain q' s' t' where c: "on_complete cb (q\<lparr>m_status := St_complete\<rparr>) g s = (q', s')"
        "on_complete cb' (q\<lparr>m_status := St_complete\<rparr>) g t = (q', t')" "R s' t'"
        by (rule on_complete_sim [where R = R and cb = cb and cb' = cb', OF "2.prems"])
      show ?thesis
        using "2" St_payload False r c parse_loop_payload [OF St_payload False _ r, of cb s]
          parse_loop_payload [OF St_payload False _ r, of cb' t]
        by auto
    qed
  next
    case St_complete
    obtain q' s' t' where "on_complete cb p f s = (q', s')" "on_complete cb' p f t = (q', t')" "R s' t'"
      by (rule on_complete_sim [where R = R and cb = cb and cb' = cb', OF "2.prems"])
    then show ?thesis using "2" St_complete by auto
  qed (use "2" in \<open>auto split: prod.splits\<close>)
qed

text \<open>
  Two sessions that differ only in the fields the parser run overwrites.
\<close>

definition same_session :: "WsSession \<Rightarrow> WsSession \<Rightarrow> bool" where
  "same_session s t \<longleftrightarrow> readyState s = readyState t \<and> m_recvBufLen s = m_recvBufLen t \<and> io s = io t"

text \<open>
  An application whose message callback answers each message with a list of strings that depends
  on the message only, and that registers no other callback.
\<close>

definition answering :: "(byte \<Rightarrow> bytes \<Rightarrow> bytes list) \<Rightarrow> ws_callbacks" where
  "answering reply = \<lparr>m_onConnectCb = None, m_onCloseCb = None, m_onErrorCb = None,
     m_onMessageCb = Some (\<lambda>s. map Cmd_send (reply (opcode (m_frame s)) (payload (m_frame s))))\<rparr>"

definition text_frame :: "bytes \<Rightarrow> bytes" where
  "text_frame str = inter_send_header WS_TEXT (of_nat (length str)) @ str"

text \<open>What such an application and the session do, in terms of messages alone.\<close>

definition answer :: "(byte \<Rightarrow> bytes \<Rightarrow> bytes list) \<Rightarrow> byte \<times> bytes \<Rightarrow> ws_io list \<Rightarrow> ws_io list" where
  "answer reply m tr =
     tr @ (if fst m = WS_PONG then []
           else if fst m = WS_PING then [Io_UvWrite [0x8A, 0x00]]
           else Io_OnMessage (fst m) (snd m)
                  # map (\<lambda>d. Io_UvWrite (text_frame d)) (reply (fst m) (snd m)))"

lemma run_sends:
  "run_cmds cbs (map Cmd_send ds) s = emit (map (\<lambda>d. Io_UvWrite (text_frame d)) ds) s"
  by (induction ds arbitrary: s)
    (simp_all add: ws_send_def inter_send_def emit_def text_frame_def)

definition on_frame :: "ws_callbacks \<Rightarrow> WsFrame \<Rightarrow> WsSession \<Rightarrow> WsSession" where
  "on_frame cbs f s = handleWsFrame cbs (s\<lparr>m_frame := f\<rparr>)"

lemma pong_frame: "inter_send_header WS_PONG 0 = [0x8A, 0x00]"
  by (simp add: inter_send_header_def header_len_def WS_PONG_def)

lemma on_frame_answering:
  assumes "mask_bit g" "opcode g \<noteq> WS_CLOSE"
  shows "on_frame (answering reply) g s
    = (s\<lparr>m_frame := g, io := answer reply (opcode g, payload g) (io s)\<rparr>)"
  using assms
  by (simp add: on_frame_def handleWsFrame_def answering_def WS_CALLBACK_def run_sends emit_def
      answer_def sendPong_def inter_send_def pong_frame Let_def)

interpretation answering: frame_handler "on_frame (answering reply)" io "answer reply"
    "\<lambda>op. op \<noteq> WS_CLOSE" "\<lambda>s. readyState s = OPEN"
  by unfold_locales (simp_all add: on_frame_answering)

lemma on_frame_same_session:
  "same_session s t \<Longrightarrow> same_session (on_frame (answering reply) f s) (on_frame (answering reply) f t)"
  by (simp add: same_session_def on_frame_def handleWsFrame_def answering_def WS_CALLBACK_def
      run_sends emit_def sendPong_def inter_send_def inter_close_def Let_def)

lemma parse_loop_not_reopened:
  assumes "parse_loop (on_frame cbs) p f buf s = (e, q, g, t)" "readyState t = OPEN"
  shows "readyState s = OPEN"
proof -
  have "sim_result (\<lambda>s' t'. readyState s' = OPEN \<longrightarrow> readyState s = OPEN)
      (parse_loop (on_frame cbs) p f buf s) (parse_loop (\<lambda>_ u. u) p f buf ())"
    by (rule parse_loop_sim) (auto simp: on_frame_def dest: handleWsFrame_not_reopened)
  with assms show ?thesis by (simp add: sim_result_def)
qed

lemma recv_chunks:
  assumes "foldl (parse_next (on_frame (answering reply))) (SUCCESS, m_parser s, m_frame s, s') chunks
             = (SUCCESS, q, g, t)"
    and "readyState t = OPEN" "same_session s s'"
  shows "same_session (foldl (\<lambda>s d. ws_recv_cb (answering reply) (Read_data d) s) s chunks) t"
  using assms
proof (induction chunks arbitrary: s s')
  case Nil
  then show ?case by simp
next
  case (Cons d chunks)
  let ?cb = "on_frame (answering reply)"
  let ?run = "\<lambda>s'. parse_loop ?cb (m_parser s) (m_frame s) d s'"
  obtain e p1 f1 u where r: "?run s' = (e, p1, f1, u)" by (cases "?run s'") auto
  obtain e' p1' f1' v where r': "?run s = (e', p1', f1', v)" by (cases "?run s") auto
  have same: "e' = e" "p1' = p1" "f1' = f1" "same_session v u"
    using parse_loop_sim [of same_session ?cb ?cb s s' "m_parser s" "m_frame s" d]
      on_frame_same_session Cons.prems(3) r r' by (auto simp: sim_result_def)
  have err: "foldl (parse_next ?cb) (x, a) cs = (x, a)" if "x \<noteq> SUCCESS" for x a cs
    using that by (cases a) (simp add: ws_stream.feed_chunks parse_next_def)
  have "parse_next ?cb (SUCCESS, m_parser s, m_frame s, s') d = (e, p1, f1, u)"
    using r by (simp add: parse_next_def parse_eq_loop)
  with Cons.prems(1) have nxt: "foldl (parse_next ?cb) (e, p1, f1, u) chunks = (SUCCESS, q, g, t)"
    by simp
  with err [of e "(p1, f1, u)" chunks] have e: "e = SUCCESS" by (cases "e = SUCCESS") auto
  have rest: "foldl (parse_next ?cb) (SUCCESS, p1, f1, u) chunks = (SUCCESS, q, g, t)"
    using nxt e by simp
  then have "parse_loop ?cb p1 f1 (concat chunks) u = (SUCCESS, q, g, t)"
    by (simp add: ws_stream.feed_chunks parse_next_def parse_eq_loop)
  then have "readyState u = OPEN" using Cons.prems(2) by (rule parse_loop_not_reopened)
  then have "readyState s = OPEN"
    using parse_loop_not_reopened [OF r] Cons.prems(3) by (simp add: same_session_def)
  then have step: "ws_recv_cb (answering reply) (Read_data d) s = v\<lparr>m_parser := p1, m_frame := f1\<rparr>"
    using r' same e by (simp add: handleMessage_def parse_eq_loop on_frame_def [abs_def] Let_def)
  show ?case
    using Cons.IH [of "v\<lparr>m_parser := p1, m_frame := f1\<rparr>" u] rest Cons.prems(2) same(4) step
    by (simp add: same_session_def)
qed

lemma conversation_trace:
  assumes "readyState s = OPEN" "between_frames False (m_parser s)"
    and "list_all message_ok ms" "\<forall>m \<in> set ms. fst m \<noteq> WS_CLOSE"
    and "concat chunks = concat (map wire_message ms)"
  shows "readyState (foldl (\<lambda>s d. ws_recv_cb (answering reply) (Read_data d) s) s chunks) = OPEN"
    and "io (foldl (\<lambda>s d. ws_recv_cb (answering reply) (Read_data d) s) s chunks)
      = fold (answer reply) (map message_text ms) (io s)"
proof -
  obtain q g t where "parse_loop (on_frame (answering reply)) (m_parser s) (m_frame s)
        (concat (map wire_message ms) @ []) s = parse_loop (on_frame (answering reply)) q g [] t"
    and t: "readyState t = OPEN" "io t = fold (answer reply) (map message_text ms) (io s)"
    using answering.handles_messages [OF assms(2-4), of s reply "m_frame s" "[]"] assms(1) by blast
  then have "foldl (parse_next (on_frame (answering reply))) (SUCCESS, m_parser s, m_frame s, s) chunks
      = (SUCCESS, q, g, t)"
    by (simp add: ws_stream.feed_chunks parse_next_def parse_eq_loop assms(5))
  from recv_chunks [OF this t(1)] t
  show "readyState (foldl (\<lambda>s d. ws_recv_cb (answering reply) (Read_data d) s) s chunks) = OPEN"
    and "io (foldl (\<lambda>s d. ws_recv_cb (answering reply) (Read_data d) s) s chunks)
      = fold (answer reply) (map message_text ms) (io s)"
    by (simp_all add: same_session_def)
qed

lemma connect_answering:
  "readyState (connect (answering reply) s) = OPEN" "io (connect (answering reply) s) = io s @ [Io_ReadStart]"
  "m_parser (connect (answering reply) s) = m_parser s"
  by (simp_all add: connect_def answering_def WS_CALLBACK_def emit_def)

text \<open>
  C11. A whole conversation. A session is upgraded and connected; the peer sends any list of
  well-formed messages other than close frames, cut into buffers in any way. Then the trace of the
  session is exactly: reading is started, and per message, in order, a ping is answered with the
  two-byte pong, a pong is dropped, and every other message is given to the message callback once,
  followed by one text frame for each string the callback answers with; the session stays OPEN.
\<close>

theorem ws_conversation:
  assumes "list_all message_ok ms" "\<forall>m \<in> set ms. fst m \<noteq> WS_CLOSE"
    and "concat chunks = concat (map wire_message ms)"
    and "s = connect (answering reply) (WsSession_init len)"
  shows "readyState (foldl (\<lambda>s d. ws_recv_cb (answering reply) (Read_data d) s) s chunks) = OPEN
    \<and> io (foldl (\<lambda>s d. ws_recv_cb (answering reply) (Read_data d) s) s chunks)
      = fold (answer reply) (map message_text ms) [Io_ReadStart]"
proof -
  have "readyState s = OPEN" "between_frames False (m_parser s)" "io s = [Io_ReadStart]"
    by (simp_all add: assms(4) connect_answering WsSession_init_def between_frames_def websocket_parser_init_def)
  with conversation_trace [OF this(1,2) assms(1-3)] show ?thesis by simp
qed

theorem ws_conversation_witness:
  "readyState (foldl (\<lambda>s d. ws_recv_cb (answering (\<lambda>_ pl. [pl])) (Read_data d) s)
       (connect (answering (\<lambda>_ pl. [pl])) (WsSession_init 65536))
       [wire_message (WS_TEXT, [([1, 2, 3, 4], [72, 105])]), wire_message (WS_PING, [([0, 0, 0, 0], [1])])]) = OPEN
   \<and> io (foldl (\<lambda>s d. ws_recv_cb (answering (\<lambda>_ pl. [pl])) (Read_data d) s)
       (connect (answering (\<lambda>_ pl. [pl])) (WsSession_init 65536))
       [wire_message (WS_TEXT, [([1, 2, 3, 4], [72, 105])]), wire_message (WS_PING, [([0, 0, 0, 0], [1])])])
     = [Io_ReadStart, Io_OnMessage WS_TEXT [72, 105], Io_UvWrite (text_frame [72, 105]),
        Io_UvWrite [0x8A, 0x00]]"
  using ws_conversation [of "[(WS_TEXT, [([1, 2, 3, 4], [72, 105])]), (WS_PING, [([0, 0, 0, 0], [1])])]"
      "[wire_message (WS_TEXT, [([1, 2, 3, 4], [72, 105])]), wire_message (WS_PING, [([0, 0, 0, 0], [1])])]"
      "connect (answering (\<lambda>_ pl. [pl])) (WsSession_init 65536)" "\<lambda>_ pl. [pl]" 65536]
  by (simp add: message_ok_def fragment_ok_def message_text_def answer_def WsCode_defs)

text \<open>
  C39. Frames behind a close frame are still handled. If one buffer holds two close frames, the
  second one is parsed although the first has closed the session, and the socket handle is closed
  a second time, whatever the callbacks do. The session object is taken to be still alive at that
  point, kept by another shared pointer to it, such as a write that is still pending.
\<close>

theorem two_close_frames_close_twice:
  assumes "between_frames False (m_parser s)" "readyState s = OPEN"
    and "fragment_ok (k1, pl1)" "fragment_ok (k2, pl2)"
  shows "count_list (io (ws_recv_cb cbs
           (Read_data (client_frame (0x80 OR WS_CLOSE) k1 pl1 @ client_frame (0x80 OR WS_CLOSE) k2 pl2)) s))
           Io_UvClose = count_list (io s) Io_UvClose + 2"
proof -
  let ?m1 = "(WS_CLOSE, [(k1, pl1)])" and ?m2 = "(WS_CLOSE, [(k2, pl2)])"
  have cnt: "count_list (io t) Io_UvClose = length (events (\<lambda>e. e = Io_UvClose) t)" for t
    unfolding events_def
    by (simp add: count_list_eq_length_filter)
      (rule arg_cong [where f = length], rule filter_cong, auto)
  have close: "events (\<lambda>e. e = Io_UvClose) (on_frame cbs g t) = events (\<lambda>e. e = Io_UvClose) t @ [Io_UvClose]"
    if "mask_bit g" "opcode g = WS_CLOSE" for g t
    using that by (simp add: on_frame_def handleWsFrame_def WsCode_defs inter_close_quiet)
  obtain q1 g1 where 1: "parse_loop (on_frame cbs) (m_parser s) (m_frame s)
      (wire_message ?m1 @ wire_message ?m2 @ []) s
      = parse_loop (on_frame cbs) q1 g1 (wire_message ?m2 @ []) (on_frame cbs g1 s)"
    "between_frames False q1" "mask_bit g1" "opcode g1 = WS_CLOSE"
    using parse_fragments [OF assms(1), of WS_CLOSE "[(k1, pl1)]" "on_frame cbs" "m_frame s"
        "wire_message ?m2 @ []" s] assms(3)
    by (auto simp: wire_message_def WsCode_defs)
  obtain q2 g2 where 2: "parse_loop (on_frame cbs) q1 g1 (wire_message ?m2 @ []) (on_frame cbs g1 s)
      = parse_loop (on_frame cbs) q2 g2 [] (on_frame cbs g2 (on_frame cbs g1 s))"
    "mask_bit g2" "opcode g2 = WS_CLOSE"
    using parse_fragments [OF 1(2), of WS_CLOSE "[(k2, pl2)]" "on_frame cbs" g1 "[]"
        "on_frame cbs g1 s"] assms(4)
    by (auto simp: wire_message_def WsCode_defs)
  have w: "wire_message ?m1 @ wire_message ?m2
      = client_frame (0x80 OR WS_CLOSE) k1 pl1 @ client_frame (0x80 OR WS_CLOSE) k2 pl2"
    by (simp add: wire_message_def)
  have "handleMessage cbs (wire_message ?m1 @ wire_message ?m2) s
      = (on_frame cbs g2 (on_frame cbs g1 s))\<lparr>m_parser := q2, m_frame := g2\<rparr>"
    using 1(1) 2(1) by (simp add: handleMessage_def parse_eq_loop on_frame_def [abs_def] Let_def)
  then show ?thesis
    using close [OF 1(3,4), of s] close [OF 2(2,3), of "on_frame cbs g1 s"] assms(2)
    unfolding w by (simp add: cnt)
qed

theorem two_close_frames_close_twice_witness:
  "count_list (io (ws_recv_cb (answering (\<lambda>_ _. []))
       (Read_data (client_frame (0x80 OR WS_CLOSE) [1, 2, 3, 4] [3, 232]
                   @ client_frame (0x80 OR WS_CLOSE) [1, 2, 3, 4] [3, 232]))
       (connect (answering (\<lambda>_ _. [])) (WsSession_init 65536)))) Io_UvClose
   = count_list (io (connect (answering (\<lambda>_ _. [])) (WsSession_init 65536))) Io_UvClose + 2"
  by (rule two_close_frames_close_twice)
    (simp_all add: fragment_ok_def connect_def WS_CALLBACK_def answering_def emit_def Let_def
      WsSession_init_def between_frames_def websocket_parser_init_def)

end
