(* ===== verification/Ws_Server.thy ===== *)
theory Ws_Server
  imports Ws_Session Registry
begin

text \<open>
  \<open>WsServer\<close> of \<open>include/WsServer.h\<close> and \<open>src/core/WsServer.cpp\<close>: its table of sessions, the
  upgrade of an HTTP session, and the runs of the server as a step relation over the table and the
  session objects. The mutex only guards the table; the event loop runs every step on one thread.
\<close>

section \<open>The session table\<close>

definition pushWsSession :: "'a \<Rightarrow> 'a list \<Rightarrow> 'a list" where
  "pushWsSession ws v = v @ [ws]"

definition removeWsSession :: "'a \<Rightarrow> 'a list \<Rightarrow> 'a list" where
  "removeWsSession ws v =
     (let i = find_index ws v in if i \<noteq> length v then swap_pop i v else v)"

definition getWsCount :: "'a list \<Rightarrow> nat" where
  "getWsCount v = length v"

interpretation ws_reg: session_registry pushWsSession removeWsSession
  by unfold_locales (simp_all add: pushWsSession_def removeWsSession_def mset_find_swap_pop)

text \<open>
  The session table of the WebSocket server is a set: removing a session that is present takes
  out exactly that session and keeps every other one, removing an absent one changes no membership,
  and the count follows.
\<close>

theorem removeWsSession_exact:
  assumes "distinct v"
  shows "set (removeWsSession ws v) = set v - {ws} \<and> distinct (removeWsSession ws v)
    \<and> getWsCount (removeWsSession ws v) = (if ws \<in> set v then getWsCount v - 1 else getWsCount v)"
  using ws_reg.set_remove [OF assms] ws_reg.distinct_remove [OF assms] ws_reg.length_remove [of ws v]
  by (simp add: getWsCount_def)

theorem removeWsSession_exact_witness:
  "set (removeWsSession 2 [1, 2, 3, 4 :: nat]) = set [1, 2, 3, 4] - {2}
    \<and> distinct (removeWsSession 2 [1, 2, 3, 4 :: nat])
    \<and> getWsCount (removeWsSession 2 [1, 2, 3, 4 :: nat])
      = (if 2 \<in> set [1, 2, 3, 4 :: nat] then getWsCount [1, 2, 3, 4 :: nat] - 1
         else getWsCount [1, 2, 3, 4 :: nat])"
  by (rule removeWsSession_exact) simp

section \<open>The contract of a session operation\<close>

text \<open>
  What the server relies on: an operation only appends to the trace, a session is never reopened,
  and the table removal is requested when the session is closed and only then.
\<close>

definition tracked :: "WsSession \<Rightarrow> WsSession \<Rightarrow> bool" where
  "tracked s t \<longleftrightarrow> (\<exists>evs. io t = io s @ evs
     \<and> (readyState t = readyState s \<or> readyState t = CLOSED)
     \<and> (readyState s \<noteq> CLOSED \<and> readyState t = CLOSED \<longrightarrow> Io_RemoveWs \<in> set evs)
     \<and> (readyState t \<noteq> CLOSED \<longrightarrow> Io_RemoveWs \<notin> set evs))"

lemma tracked_refl [simp, intro]: "tracked s s"
  by (simp add: tracked_def)

lemma tracked_trans [trans]: "tracked s t \<Longrightarrow> tracked t u \<Longrightarrow> tracked s u"
  unfolding tracked_def
  by (elim exE, rename_tac a b, rule_tac x = "a @ b" in exI) auto

lemma tracked_emit: "Io_RemoveWs \<notin> set evs \<Longrightarrow> tracked s (emit evs s)"
  by (auto simp: tracked_def emit_def)

lemma tracked_fields [simp]:
  "tracked s (t\<lparr>m_frame := f\<rparr>) = tracked s t" "tracked s (t\<lparr>m_parser := p\<rparr>) = tracked s t"
  "tracked (s\<lparr>m_frame := f\<rparr>) t = tracked s t"
  by (simp_all add: tracked_def)

lemma tracked_inter_send: "tracked s (inter_send d opc s)"
  by (simp add: inter_send_def tracked_emit)

lemma run_close_cb_prefix: "\<exists>evs. io (run_close_cb cs s) = io s @ evs"
  by (induction cs s rule: run_close_cb.induct) (auto simp: ws_send_def inter_send_def emit_def)

lemma tracked_inter_close: "tracked s (inter_close cbs s)"
proof -
  have "\<exists>evs. io (inter_close cbs s) = io s @ evs \<and> Io_RemoveWs \<in> set evs"
  proof (cases "m_onCloseCb cbs")
    case None
    then show ?thesis by (simp add: inter_close_def emit_def Let_def)
  next
    case (Some cb)
    let ?t = "emit [Io_OnClose] (emit [Io_ReadStop, Io_UvClose] (s\<lparr>readyState := CLOSED\<rparr>))"
    obtain evs where "io (run_close_cb (cb ?t) ?t) = io ?t @ evs"
      using run_close_cb_prefix by blast
    with Some show ?thesis by (simp add: inter_close_def emit_def Let_def)
  qed
  then show ?thesis by (auto simp: tracked_def)
qed

lemma tracked_ws_close: "tracked s (ws_close cbs s)"
  by (simp add: ws_close_def tracked_inter_close)

lemma tracked_run_cmds: "tracked s (run_cmds cbs cs s)"
  by (induction cbs cs s rule: run_cmds.induct)
    (auto simp: ws_send_def intro: tracked_trans tracked_inter_send tracked_ws_close)

lemma tracked_WS_CALLBACK: "ev \<noteq> Io_RemoveWs \<Longrightarrow> tracked s (WS_CALLBACK cbs cb ev s)"
  by (auto simp: WS_CALLBACK_def Let_def split: option.splits
      intro: tracked_trans [OF tracked_emit tracked_run_cmds])

lemma tracked_handleWsFrame: "tracked s (handleWsFrame cbs s)"
  by (auto simp: handleWsFrame_def sendPong_def
      intro: tracked_WS_CALLBACK tracked_inter_send tracked_inter_close
        tracked_trans [OF tracked_WS_CALLBACK tracked_inter_close])

lemma tracked_parse:
  assumes "parse (on_frame cbs) p f data s = (e, q, g, t)"
  shows "tracked s t"
proof -
  have "tracked u (on_frame cbs h u)" for h u
    using tracked_handleWsFrame [of "u\<lparr>m_frame := h\<rparr>" cbs] by (simp add: on_frame_def)
  then have "sim_result (\<lambda>t _. tracked s t) (parse_loop (on_frame cbs) p f data s)
      (parse_loop (\<lambda>_ u. u) p f data ())"
    by (intro parse_loop_sim) (auto intro: tracked_trans)
  with assms show ?thesis by (simp add: sim_result_def parse_eq_loop)
qed

lemma tracked_handleMessage: "tracked s (handleMessage cbs data s)"
proof -
  obtain e q g t where r: "parse (on_frame cbs) (m_parser s) (m_frame s) data s = (e, q, g, t)"
    by (cases "parse (on_frame cbs) (m_parser s) (m_frame s) data s") auto
  let ?t = "t\<lparr>m_parser := q, m_frame := g\<rparr>"
  have "tracked s ?t" using tracked_parse [OF r] by simp
  moreover have "handleMessage cbs data s = (if e \<noteq> SUCCESS then inter_close cbs (WS_CALLBACK cbs
      (m_onErrorCb cbs) (Io_OnError ''websocket session parse error'') ?t) else ?t)"
    using r by (simp add: handleMessage_def on_frame_def [abs_def] Let_def)
  ultimately show ?thesis
    using tracked_trans [OF _ tracked_trans [OF tracked_WS_CALLBACK tracked_inter_close], of s ?t]
    by auto
qed

locale session_operation =
  fixes operation :: "WsSession \<Rightarrow> WsSession"
  assumes operation_tracked: "tracked s (operation s)"

interpretation recv: session_operation "ws_recv_cb cbs ev"
  by unfold_locales (cases ev, auto intro: tracked_inter_close tracked_handleMessage)

interpretation app_close: session_operation "ws_close cbs"
  by unfold_locales (rule tracked_ws_close)

interpretation app_calls: session_operation "run_cmds cbs cs"
  by unfold_locales (rule tracked_run_cmds)

interpretation write_cb: session_operation "write_done cbs status"
  by unfold_locales
    (auto simp: write_done_def Let_def
      intro: tracked_emit tracked_trans [OF tracked_trans [OF tracked_trans
        [OF tracked_WS_CALLBACK tracked_emit] tracked_inter_close] tracked_emit])

section \<open>The server\<close>

record WsServer =
  m_wsSessions :: "nat list"
  ws_objs :: "nat \<Rightarrow> WsSession option"

text \<open>
  The effect of an operation that took session \<open>ws\<close> from \<open>s\<close> to \<open>t\<close>: the object is updated, and
  the table removals the operation asked its owner for are carried out.
\<close>

definition commit :: "nat \<Rightarrow> WsSession \<Rightarrow> WsSession \<Rightarrow> WsServer \<Rightarrow> WsServer" where
  "commit ws s t w =
     w\<lparr>ws_objs := (ws_objs w)(ws \<mapsto> t),
       m_wsSessions := (removeWsSession ws ^^ count_list (drop (length (io s)) (io t)) Io_RemoveWs)
                         (m_wsSessions w)\<rparr>"

text \<open>
  \<open>WsServer::onUpgrade\<close>: the session is built on the buffer of the HTTP session, entered into the
  table, shown to the server's connect callback, and connected.
\<close>

definition onUpgrade ::
  "(WsSession \<Rightarrow> ws_cmd list) option \<Rightarrow> ws_callbacks \<Rightarrow> nat \<Rightarrow> size_t \<Rightarrow> WsServer \<Rightarrow> WsServer" where
  "onUpgrade srvCb cbs ws http_len w =
     (let s = WsSession_init http_len;
          w = w\<lparr>m_wsSessions := pushWsSession ws (m_wsSessions w)\<rparr>;
          t = (case srvCb of None \<Rightarrow> s | Some f \<Rightarrow> run_cmds cbs (f s) s);
          t = connect cbs t
      in commit ws s t w)"

definition WsServer_init :: WsServer where
  "WsServer_init = \<lparr>m_wsSessions = [], ws_objs = Map.empty\<rparr>"

text \<open>
  The runs of the server. A fresh address is used for an upgraded session; bytes and errors are
  delivered while the session is OPEN, that is between the start and the stop of reading; the
  application may call a session it holds, and a pending write may complete, at any time.
\<close>

inductive ws_step :: "(WsSession \<Rightarrow> ws_cmd list) option \<Rightarrow> (nat \<Rightarrow> ws_callbacks) \<Rightarrow> WsServer \<Rightarrow> WsServer \<Rightarrow> bool"
  for srvCb cbs where
  upgrade: "ws_objs w ws = None \<Longrightarrow> ws_step srvCb cbs w (onUpgrade srvCb (cbs ws) ws len w)"
| recv: "ws_objs w ws = Some s \<Longrightarrow> readyState s = OPEN \<Longrightarrow>
     ws_step srvCb cbs w (commit ws s (ws_recv_cb (cbs ws) ev s) w)"
| app: "ws_objs w ws = Some s \<Longrightarrow> ws_step srvCb cbs w (commit ws s (run_cmds (cbs ws) cs s) w)"
| written: "ws_objs w ws = Some s \<Longrightarrow>
     ws_step srvCb cbs w (commit ws s (write_done (cbs ws) status s) w)"

inductive ws_reachable :: "(WsSession \<Rightarrow> ws_cmd list) option \<Rightarrow> (nat \<Rightarrow> ws_callbacks) \<Rightarrow> WsServer \<Rightarrow> bool"
  for srvCb cbs where
  ws_start: "ws_reachable srvCb cbs WsServer_init"
| ws_next: "ws_reachable srvCb cbs w \<Longrightarrow> ws_step srvCb cbs w w' \<Longrightarrow> ws_reachable srvCb cbs w'"

text \<open>The table holds exactly the sessions that are OPEN, each once.\<close>

definition table_ok :: "WsServer \<Rightarrow> bool" where
  "table_ok w \<longleftrightarrow> distinct (m_wsSessions w)
     \<and> (\<forall>ws. ws \<in> set (m_wsSessions w) \<longleftrightarrow> (\<exists>s. ws_objs w ws = Some s \<and> readyState s \<noteq> CLOSED))
     \<and> (\<forall>ws s. ws_objs w ws = Some s \<longrightarrow> readyState s = OPEN \<or> readyState s = CLOSED)"

lemma funpow_remove:
  assumes "distinct v"
  shows "distinct ((removeWsSession x ^^ n) v)
    \<and> set ((removeWsSession x ^^ n) v) = (if n = 0 then set v else set v - {x})"
  using assms
  by (induction n) (auto simp: ws_reg.distinct_remove ws_reg.set_remove)

lemma commit_table:
  assumes "distinct (m_wsSessions w)" "tracked s t"
  shows "distinct (m_wsSessions (commit ws s t w))"
    and "readyState t \<noteq> CLOSED \<Longrightarrow> set (m_wsSessions (commit ws s t w)) = set (m_wsSessions w)"
    and "readyState s \<noteq> CLOSED \<Longrightarrow> readyState t = CLOSED \<Longrightarrow>
           set (m_wsSessions (commit ws s t w)) = set (m_wsSessions w) - {ws}"
    and "set (m_wsSessions (commit ws s t w)) \<in> {set (m_wsSessions w), set (m_wsSessions w) - {ws}}"
proof -
  obtain evs where evs: "io t = io s @ evs"
    "readyState s \<noteq> CLOSED \<and> readyState t = CLOSED \<longrightarrow> Io_RemoveWs \<in> set evs"
    "readyState t \<noteq> CLOSED \<longrightarrow> Io_RemoveWs \<notin> set evs"
    using assms(2) by (auto simp: tracked_def)
  note fp = funpow_remove [OF assms(1), where x = ws and n = "count_list evs Io_RemoveWs"]
  have c: "count_list evs Io_RemoveWs = 0 \<longleftrightarrow> Io_RemoveWs \<notin> set evs"
    by (simp add: count_list_0_iff)
  show "distinct (m_wsSessions (commit ws s t w))"
    "readyState t \<noteq> CLOSED \<Longrightarrow> set (m_wsSessions (commit ws s t w)) = set (m_wsSessions w)"
    "readyState s \<noteq> CLOSED \<Longrightarrow> readyState t = CLOSED \<Longrightarrow>
       set (m_wsSessions (commit ws s t w)) = set (m_wsSessions w) - {ws}"
    "set (m_wsSessions (commit ws s t w)) \<in> {set (m_wsSessions w), set (m_wsSessions w) - {ws}}"
    using evs fp c by (auto simp: commit_def)
qed

lemma commit_ok:
  assumes "table_ok w" "ws_objs w ws = Some s" "tracked s t"
  shows "table_ok (commit ws s t w)"
proof -
  have st: "readyState s = OPEN \<or> readyState s = CLOSED"
    and mem: "ws \<in> set (m_wsSessions w) \<longleftrightarrow> readyState s \<noteq> CLOSED"
    and d: "distinct (m_wsSessions w)"
    using assms(1,2) by (auto simp: table_ok_def)
  have objs: "ws_objs (commit ws s t w) = (ws_objs w)(ws \<mapsto> t)" by (simp add: commit_def)
  have t: "readyState t = readyState s \<or> readyState t = CLOSED"
    using assms(3) by (auto simp: tracked_def)
  note ct = commit_table [OF d assms(3), of ws]
  have set: "set (m_wsSessions (commit ws s t w)) =
      (if readyState t = CLOSED then set (m_wsSessions w) - {ws} else set (m_wsSessions w))"
    using ct t mem by (cases "readyState s = CLOSED") auto
  show ?thesis
    unfolding table_ok_def objs set
    using assms(1) ct(1) mem st t by (auto simp: table_ok_def split: if_splits)
qed

lemma connect_tracked:
  "tracked (s\<lparr>readyState := OPEN\<rparr>) (connect cbs s)"
proof -
  let ?s = "(emit [Io_ReadStart] (s\<lparr>readyState := CONNECTING\<rparr>))\<lparr>readyState := OPEN\<rparr>"
  have "tracked (s\<lparr>readyState := OPEN\<rparr>) ?s" by (auto simp: tracked_def emit_def)
  also have "tracked ?s (connect cbs s)" by (simp add: connect_def tracked_WS_CALLBACK)
  finally show ?thesis .
qed

text \<open>Calls made before the session is connected cannot close it: it is still CLOSED.\<close>

lemma run_cmds_before_connect:
  "readyState s = CLOSED \<Longrightarrow> tracked (s\<lparr>readyState := OPEN\<rparr>) ((run_cmds cbs cs s)\<lparr>readyState := OPEN\<rparr>)"
proof (induction cbs cs s rule: run_cmds.induct)
  case (2 cbs d cs s)
  have "tracked (s\<lparr>readyState := OPEN\<rparr>) ((ws_send d s)\<lparr>readyState := OPEN\<rparr>)"
    by (auto simp: tracked_def ws_send_def inter_send_def emit_def)
  with 2 show ?case by (auto simp: ws_send_def inter_send_def emit_def intro: tracked_trans)
qed (simp_all add: ws_close_def)

lemma onUpgrade_ok:
  assumes "table_ok w" "ws_objs w ws = None"
  shows "table_ok (onUpgrade srvCb cbs ws len w)"
proof -
  let ?s = "WsSession_init len"
  let ?u = "case srvCb of None \<Rightarrow> ?s | Some f \<Rightarrow> run_cmds cbs (f ?s) ?s"
  let ?w = "w\<lparr>m_wsSessions := pushWsSession ws (m_wsSessions w),
              ws_objs := (ws_objs w)(ws \<mapsto> ?s\<lparr>readyState := OPEN\<rparr>)\<rparr>"
  have "readyState ?s = CLOSED" by (simp add: WsSession_init_def)
  then have "tracked (?s\<lparr>readyState := OPEN\<rparr>) (?u\<lparr>readyState := OPEN\<rparr>)"
    by (simp add: run_cmds_before_connect split: option.splits)
  also have "tracked (?u\<lparr>readyState := OPEN\<rparr>) (connect cbs ?u)" by (rule connect_tracked)
  finally have tr: "tracked (?s\<lparr>readyState := OPEN\<rparr>) (connect cbs ?u)" .
  have fresh: "ws \<notin> set (m_wsSessions w)" using assms by (auto simp: table_ok_def)
  have "table_ok ?w"
    using assms fresh
    by (auto simp: table_ok_def ws_reg.set_push ws_reg.distinct_push)
  from commit_ok [OF this _ tr] have "table_ok (commit ws (?s\<lparr>readyState := OPEN\<rparr>) (connect cbs ?u) ?w)"
    by simp
  then show ?thesis by (simp add: onUpgrade_def commit_def Let_def)
qed

lemma ws_step_ok: "ws_step srvCb cbs w w' \<Longrightarrow> table_ok w \<Longrightarrow> table_ok w'"
proof (induction rule: ws_step.induct)
  case (upgrade w ws len)
  then show ?case by (simp add: onUpgrade_ok)
next
  case (recv w ws s ev)
  then show ?case by (auto intro: commit_ok recv.operation_tracked)
next
  case (app w ws s cs)
  then show ?case by (auto intro: commit_ok app_calls.operation_tracked)
next
  case (written w ws s status)
  then show ?case by (auto intro: commit_ok write_cb.operation_tracked)
qed

lemma reachable_table_ok: "ws_reachable srvCb cbs w \<Longrightarrow> table_ok w"
proof (induction rule: ws_reachable.induct)
  case ws_start
  show ?case by (simp add: table_ok_def WsServer_init_def)
next
  case (ws_next w w')
  then show ?case by (blast intro: ws_step_ok)
qed

text \<open>
  In every run of the server (upgrades, received bytes and errors, calls by the application,
  completed writes, in any order and with any callbacks) the session table lists exactly the
  sessions that are OPEN, each of them once.
\<close>

theorem ws_table_is_open_sessions:
  assumes "ws_reachable srvCb cbs w"
  shows "distinct (m_wsSessions w)
    \<and> set (m_wsSessions w) = {ws. \<exists>s. ws_objs w ws = Some s \<and> readyState s = OPEN}"
proof -
  have ok: "table_ok w" using assms by (rule reachable_table_ok)
  then have "(\<exists>s. ws_objs w ws = Some s \<and> readyState s \<noteq> CLOSED)
      \<longleftrightarrow> (\<exists>s. ws_objs w ws = Some s \<and> readyState s = OPEN)" for ws
    unfolding table_ok_def by (metis WsStatus.distinct(9))
  with ok show ?thesis by (auto simp: table_ok_def)
qed

theorem ws_table_is_open_sessions_witness:
  "distinct (m_wsSessions (onUpgrade None (answering (\<lambda>_ _. [])) 7 65536 WsServer_init))
   \<and> set (m_wsSessions (onUpgrade None (answering (\<lambda>_ _. [])) 7 65536 WsServer_init))
     = {ws. \<exists>s. ws_objs (onUpgrade None (answering (\<lambda>_ _. [])) 7 65536 WsServer_init) ws = Some s
              \<and> readyState s = OPEN}"
proof (rule ws_table_is_open_sessions)
  show "ws_reachable None (\<lambda>_. answering (\<lambda>_ _. []))
      (onUpgrade None (answering (\<lambda>_ _. [])) 7 65536 WsServer_init)"
    by (rule ws_next [OF ws_start], rule upgrade [where cbs = "\<lambda>_. answering (\<lambda>_ _. [])"])
      (simp add: WsServer_init_def)
qed

end
