(* ===== verification/Upgrade.thy ===== *)
theory Upgrade
  imports Http_Service Ws_Server
begin

text \<open>
  The handshake and the composition of the two servers: an upgrade request is answered with the
  switching-protocols response, and the completion of its write hands the socket and the receive buffer
  of the HTTP session to the WebSocket server. The runs of the whole program interleave the steps of both.
\<close>

section \<open>The handshake response\<close>

abbreviation WS_KEY :: bytes where "WS_KEY \<equiv> bstr ''sec-websocket-key''"

definition client_key_of :: "httpReq \<Rightarrow> bytes" where
  "client_key_of req = (case headers req WS_KEY of None \<Rightarrow> [] | Some v \<Rightarrow> v)"

definition handshake_headers :: "bytes \<Rightarrow> (bytes \<times> bytes) list" where
  "handshake_headers k =
     [(bstr ''upgrade'', bstr ''websocket''), (bstr ''connection'', bstr ''Upgrade''),
      (bstr ''sec-websocket-accept'', k), (bstr ''Content-Type'', bstr ''text/plain'')]"

definition handshake_reply :: "bytes \<Rightarrow> header_iter \<Rightarrow> http_response" where
  "handshake_reply k it =
     \<lparr>resp = sendStr it FileReader_init [] (setHeader (bstr ''sec-websocket-accept'') k
        (setHeader (bstr ''connection'') (bstr ''Upgrade'') (setHeader (bstr ''upgrade'') (bstr ''websocket'')
          (setStatus SWITCHING_PROTOCOLS httpResp_init)))),
      m_onSent = Sent_upgrade, m_reader = None\<rparr>"

lemma setHeader_writes [simp]: "writes (setHeader n v r) = writes r"
  by (simp add: setHeader_def)

lemma handle_request_upgrade:
  assumes "calculate_accept_key (sha1_of env) (bio_of env) (client_key_of (m_req (sess c))) = Inr k"
  shows "handle_request env True c =
    c\<lparr>resps := resps c @ [handshake_reply k (hdr_order env)], wq := wq c @ [length (resps c)],
      sess := (sess c)\<lparr>m_isKeepAlive := needKeepConnection (m_req (sess c)),
        m_req := (m_req (sess c))\<lparr>headers := (headers (m_req (sess c)))(WS_KEY \<mapsto> client_key_of (m_req (sess c)))\<rparr>\<rparr>\<rparr>"
proof -
  have u: "(resps c @ [r])[length (resps c) := x] = resps c @ [x]" for r x by simp
  show ?thesis
    using assms unfolding client_key_of_def
    by (simp add: handle_request_def initResp_def upgradeToWs_def upd_sess_def upd_req_def on_resp_def upd_resp_def
        Let_def reader_of_def handshake_reply_def nth_append u del: fun_upd_apply)
qed

lemma base64_clean: "clean (base64 bs)"
proof -
  have "13 \<notin> insert 61 (set b64_alphabet)" by (simp add: b64_alphabet_def)
  then show ?thesis using set_base64 [of bs] by (auto simp: clean_def)
qed

lemma handshake_reply_reads:
  assumes "\<And>hs. mset (it hs) = mset hs" "clean k"
  shows "\<exists>w. writes (resp (handshake_reply k it)) = [w]
    \<and> read_response (wire w @ rest) =
        Some (bstr ''HTTP/1.1 101 Web Socket Protocol Handshake'', it (handshake_headers k) @ [(CL, bstr ''0'')], [], rest)"
proof -
  let ?r0 = "setHeader (bstr ''sec-websocket-accept'') k
        (setHeader (bstr ''connection'') (bstr ''Upgrade'') (setHeader (bstr ''upgrade'') (bstr ''websocket'')
          (setStatus SWITCHING_PROTOCOLS httpResp_init)))"
  let ?r = "(setHeader (bstr ''Content-Type'') (bstr ''text/plain'') (?r0\<lparr>m_body := []\<rparr>))\<lparr>m_sendType := Send_STR\<rparr>"
  have s: "set (it hs) = set hs" for hs by (metis assms(1) set_mset_mset)
  have h: "headers_ok (handshake_headers k)"
    using assms(2) by (simp add: headers_ok_def handshake_headers_def field_ok_def) (simp add: clean_def)
  have m: "m_headers ?r = handshake_headers k" "httpResp.m_status ?r = SWITCHING_PROTOCOLS" "m_sendType ?r = Send_STR" "m_body ?r = []"
    "writes ?r = []"
    by (simp_all add: setHeader_def setStatus_def httpResp_init_def handshake_headers_def)
  from wire_send [of ?r FileReader_init it] m obtain w where
    w: "writes (send it FileReader_init ?r) = [w]" "wire w = response_text SWITCHING_PROTOCOLS (it (handshake_headers k)) []"
    by auto
  have "resp (handshake_reply k it) = send it FileReader_init ?r" by (simp add: handshake_reply_def sendStr_def)
  with w read_response_headers_ok [OF h, of it SWITCHING_PROTOCOLS "[]" rest] s show ?thesis
    by (auto simp: to_string.simps)
qed


section \<open>Handing the socket over\<close>

text \<open>
  The callback the constructor of \<open>WsServer\<close> registers: \<open>WsServer::onUpgrade\<close>, in which the constructor of
  \<open>WsSession\<close> takes the receive buffer from the HTTP session.
\<close>

definition ws_upgrade ::
  "(WsSession \<Rightarrow> ws_cmd list) option \<Rightarrow> (nat \<Rightarrow> ws_callbacks) \<Rightarrow> nat \<Rightarrow> Session \<Rightarrow> WsServer \<Rightarrow> Session \<times> WsServer" where
  "ws_upgrade srvCb cbs sid s w =
     (s\<lparr>m_recvBuf := snd (transferBufferToWsSession (m_recvBuf s))\<rparr>,
      Ws_Server.onUpgrade srvCb (cbs sid) sid (m_recvBuf s) w)"

lemma write_complete_upgrade:
  assumes "conns sv sid = Some c" "wq c = i # q" "m_onSent (resps c ! i) = Sent_upgrade" "live c" "\<not> crashed c"
    "\<not> terminated sv" "distinct (m_sessions sv)" "onUpgradeCb sv = Some cb" "cb sid (sess c) (ws_world sv) = (s, w)"
  shows "write_complete env sid status sv =
    sv\<lparr>conns := (conns sv)(sid \<mapsto> c\<lparr>wq := q, reading := False, sess := s, upgraded := True, live := False\<rparr>),
       m_sessions := removeSession sid (m_sessions sv), ws_world := w\<rparr>"
proof -
  have gone: "sid \<notin> set (removeSession sid (m_sessions sv))" using assms(7) by (simp add: http_reg.set_remove)
  have "sv\<lparr>terminated := False\<rparr> = sv" using assms(6) by (cases sv) simp
  then show ?thesis
    using assms gone
    by (simp add: write_complete_def onWriteEnd_def on_sent_def upgradeSession_def closeSession_def release_def
        upd_conn_def Let_def)
qed

lemma write_complete_no_handler:
  assumes "conns sv sid = Some c" "wq c = i # q" "m_onSent (resps c ! i) = Sent_upgrade" "live c" "onUpgradeCb sv = None"
  shows "terminated (write_complete env sid status sv)"
  using assms by (simp add: write_complete_def onWriteEnd_def on_sent_def upgradeSession_def release_def upd_conn_def Let_def)

lemma deliver_upgrade:
  assumes "conns sv sid = Some c" "\<not> terminated sv" "idle c" "len \<noteq> 0" "request_ok mhs m tgt hs" "wants_upgrade hs"
    "connection_upgrade hs"
    "calculate_accept_key (sha1_of env) (bio_of env) (client_key_of (request_of m 1 1 tgt hs [] (m_req (sess c)))) = Inr k"
  obtains c' where "deliver mhs env sid len (request_text m tgt hs @ xs) sv = sv\<lparr>conns := (conns sv)(sid \<mapsto> c')\<rparr>"
    "resps c' = resps c @ [handshake_reply k (hdr_order env)]" "wq c' = [length (resps c)]"
    "live c'" "\<not> crashed c'" "closes c' = closes c" "m_recvBuf (sess c') = len" "upgraded c' = upgraded c"
proof -
  let ?d = "stopped (alloc_to len c)"
  obtain h' where h': "execute_events mhs (m_hparser (sess (alloc_to len c))) (request_text m tgt hs @ xs)
      = Some (h', request_events m tgt hs @ [Ev_Complete True], length (request_text m tgt hs))"
    using execute_upgrade [OF _ assms(5,6,7), of "m_hparser (sess c)" xs] assms(3) by (auto simp: idle_def)
  let ?e = "upd_sess (\<lambda>s. s\<lparr>m_tmpKey := (if hs = [] then m_tmpKey s else map tolower (fst (last hs))),
     m_req := request_of m 1 1 tgt hs [] (m_req s)\<rparr>) ?d"
  have run: "fold (on_event env) (request_events m tgt hs @ [Ev_Complete True]) ?d = handle_request env True ?e"
    using fold_message [where bs = "[]" and env = env and u = tgt and hs = hs and m = m and major = 1 and minor = 1 and upg = True and c = ?d]
    by (simp add: request_events_def)
  have "calculate_accept_key (sha1_of env) (bio_of env) (client_key_of (m_req (sess ?e))) = Inr k"
    using assms(8) by (simp add: upd_sess_def)
  note run = run [unfolded handle_request_upgrade [OF this]]
  define c' where "c' = recv_data mhs env (request_text m tgt hs @ xs) (alloc_to len c)"
  have c': "c' = upd_sess (\<lambda>s. s\<lparr>m_hparser := h'\<rparr>) (fold (on_event env) (request_events m tgt hs @ [Ev_Complete True]) ?d)"
    using recv_data_events [OF h', of env] assms(4) by (simp add: c'_def stopped_def)
  note c' = c' [unfolded run]
  have f: "resps c' = resps c @ [handshake_reply k (hdr_order env)]" "wq c' = [length (resps c)]"
    "live c'" "\<not> crashed c'" "closes c' = closes c" "m_recvBuf (sess c') = len" "upgraded c' = upgraded c"
    using assms(3) by (simp_all add: c' upd_sess_def idle_def)
  have "deliver mhs env sid len (request_text m tgt hs @ xs) sv = sv\<lparr>conns := (conns sv)(sid \<mapsto> c')\<rparr>"
    using assms(2,3) f(4) by (simp add: deliver_eq [OF assms(1)] idle_def Let_def still_running flip: c'_def)
  with f show thesis by (intro that)
qed

section \<open>What an HTTP step does to the sessions handed over\<close>

definition handed_over :: "'w HttpServer \<Rightarrow> nat set" where
  "handed_over sv = {sid. \<exists>c. conns sv sid = Some c \<and> upgraded c}"

text \<open>
  The effect of a step on the world behind the upgrade callback: none, or one call of the callback for a
  session that had not been handed over.
\<close>

definition frame :: "'w HttpServer \<Rightarrow> 'w HttpServer \<Rightarrow> bool" where
  "frame sv sv' \<longleftrightarrow> onUpgradeCb sv' = onUpgradeCb sv \<and>
     (ws_world sv' = ws_world sv \<and> handed_over sv' = handed_over sv
      \<or> (\<exists>sid cb s. onUpgradeCb sv = Some cb \<and> sid \<notin> handed_over sv
           \<and> ws_world sv' = snd (cb sid s (ws_world sv)) \<and> handed_over sv' = insert sid (handed_over sv)))"

lemma frame_refl [simp]: "frame sv sv"
  by (simp add: frame_def)

definition quiet_step :: "'w HttpServer \<Rightarrow> 'w HttpServer \<Rightarrow> bool" where
  "quiet_step sv sv' \<longleftrightarrow> onUpgradeCb sv' = onUpgradeCb sv \<and> ws_world sv' = ws_world sv \<and> handed_over sv' = handed_over sv"

lemma quiet_step_frame: "quiet_step sv sv' \<Longrightarrow> frame sv sv'"
  by (simp add: quiet_step_def frame_def)

lemma quiet_step_refl [simp]: "quiet_step sv sv"
  by (simp add: quiet_step_def)

lemma quiet_step_trans: "quiet_step sv sv1 \<Longrightarrow> quiet_step sv1 sv2 \<Longrightarrow> quiet_step sv sv2"
  by (simp add: quiet_step_def)

lemma quiet_frame: "quiet_step sv sv1 \<Longrightarrow> frame sv1 sv2 \<Longrightarrow> frame sv sv2"
  by (auto simp: quiet_step_def frame_def)

lemma quiet_upd_conn:
  assumes "\<And>c. conns sv sid = Some c \<Longrightarrow> upgraded (f c) = upgraded c"
  shows "quiet_step sv (upd_conn sid f sv)"
  using assms by (auto simp: quiet_step_def upd_conn_def handed_over_def split: option.splits)

lemma quiet_release: "quiet_step sv (release sid sv)"
  by (simp add: release_def quiet_upd_conn)

lemma quiet_closeSession: "quiet_step sv (closeSession sid b sv)"
proof -
  have t: "quiet_step sv' (sv'\<lparr>m_sessions := v\<rparr>)" for sv' :: "'a HttpServer" and v
    by (simp add: quiet_step_def handed_over_def)
  have 1: "quiet_step sv (upd_conn sid (\<lambda>c. c\<lparr>reading := False\<rparr>) sv)" by (rule quiet_upd_conn) simp
  have 2: "quiet_step sv' (upd_conn sid (\<lambda>c. c\<lparr>closes := closes c + 1\<rparr>) sv')" for sv' :: "'a HttpServer"
    by (rule quiet_upd_conn) simp
  show ?thesis
    unfolding closeSession_def Let_def
    by (rule quiet_step_trans [OF _ t]) (use quiet_step_trans [OF 1 2] 1 in simp)
qed

lemma quiet_session_close: "quiet_step sv (session_close sid sv)"
  unfolding session_close_def by (rule quiet_step_trans [OF quiet_closeSession quiet_release])

lemma frame_upgrade:
  assumes "conns sv sid = Some c" "\<not> upgraded c"
  shows "frame sv (upgradeSession sid sv)"
proof (cases "onUpgradeCb sv")
  case None
  then show ?thesis by (simp add: upgradeSession_def frame_def handed_over_def)
next
  case (Some cb)
  let ?sv = "closeSession sid True sv"
  have q: "quiet_step sv ?sv" by (rule quiet_closeSession)
  obtain s w where r: "cb sid (sess c) (ws_world sv) = (s, w)" by (cases "cb sid (sess c) (ws_world sv)")
  have n: "sid \<notin> handed_over sv" using assms by (simp add: handed_over_def)
  define sv1 where "sv1 = ?sv"
  have c1: "conns sv1 sid = Some (c\<lparr>reading := False\<rparr>)"
    using conns_closeSession(1) [OF assms(1), where b = True] by (simp add: sv1_def)
  have q1: "onUpgradeCb sv1 = Some cb" "ws_world sv1 = ws_world sv" "handed_over sv1 = handed_over sv"
    using q Some by (simp_all add: quiet_step_def sv1_def)
  have "upgradeSession sid sv = upd_conn sid (\<lambda>c. c\<lparr>sess := s, upgraded := True\<rparr>) (sv1\<lparr>ws_world := w\<rparr>)"
    using Some r c1 q1(2) by (simp add: upgradeSession_def Let_def flip: sv1_def)
  then have u: "handed_over (upgradeSession sid sv) = insert sid (handed_over sv)"
    "ws_world (upgradeSession sid sv) = w" "onUpgradeCb (upgradeSession sid sv) = Some cb"
    using c1 q1 by (auto simp: upd_conn_def handed_over_def)
  have "w = snd (cb sid (sess c) (ws_world sv))" by (simp add: r)
  with u Some n show ?thesis by (auto simp: frame_def)
qed

lemma frame_on_sent:
  assumes "server_ok sv"
  shows "frame sv (on_sent env sid cb sv)"
proof (cases "\<exists>c. conns sv sid = Some c \<and> live c")
  case False
  then show ?thesis by (auto simp: on_sent_def split: option.split)
next
  case True
  then obtain c where c: "conns sv sid = Some c" "live c" by blast
  with assms have "\<not> upgraded c" by (auto simp: server_ok_def conn_ok_def)
  from frame_upgrade [OF c(1) this] have u: "frame sv (release sid (upgradeSession sid sv))"
    using quiet_release [of "upgradeSession sid sv" sid] by (auto simp: frame_def quiet_step_def)
  have k: "quiet_step sv (upd_conn sid (startKeepAliveTimer env) sv)"
    by (rule quiet_upd_conn) (simp add: startKeepAliveTimer_def upd_sess_def)
  show ?thesis
    using c u quiet_step_frame [OF k] quiet_step_frame [OF quiet_session_close [of sv sid]]
    by (cases cb) (simp_all add: on_sent_def)
qed

lemma recv_data_upgraded [simp]: "upgraded (recv_data mhs env buf c) = upgraded c"
  using keeps_recv_data [of c mhs env buf] by (simp add: keeps_def stopKeepAliveTimer_def upd_sess_def split: if_splits)

lemma quiet_recv: "quiet_step sv (upd_conn sid (recv_data mhs env buf) sv)"
  by (rule quiet_upd_conn) simp

lemma quiet_stop: "quiet_step sv (upd_conn sid stopKeepAliveTimer sv)"
  by (rule quiet_upd_conn) (simp add: stopKeepAliveTimer_def upd_sess_def)

lemma http_step_frame: "http_step mhs env sv sv' \<Longrightarrow> server_ok sv \<Longrightarrow> frame sv sv'"
proof (induction rule: http_step.induct)
  case (connected sv sid status accept_ret peer)
  have "quiet_step sv (handle_connect sid peer sv)"
    using connected.hyps(2)
    by (auto simp: quiet_step_def handle_connect_def upd_conn_def handed_over_def conn_init_def upd_req_def upd_sess_def Let_def)
  then show ?case by (simp add: inter_on_connect_def quiet_step_frame)
next
  case (received sv sid c suggested len ev)
  have a: "quiet_step sv (upd_conn sid (alloc_to len) sv)" by (rule quiet_upd_conn) simp
  show ?case
  proof (cases ev)
    case (Read_data buf)
    with quiet_step_frame [OF quiet_step_trans [OF a quiet_recv]] show ?thesis by simp
  qed (use quiet_step_frame [OF quiet_step_trans [OF a quiet_step_trans [OF quiet_stop quiet_session_close]]] in simp_all)
next
  case (written sv sid c status)
  have w: "quiet_step sv (upd_conn sid (\<lambda>c. c\<lparr>wq := q\<rparr>) sv)" for q by (rule quiet_upd_conn) simp
  have "server_ok (upd_conn sid (\<lambda>c. c\<lparr>wq := q\<rparr>) sv)" for q
    using written.prems by (intro server_ok_upd_conn) (auto simp: conn_ok_def server_ok_def)
  from quiet_frame [OF w frame_on_sent [OF this]] show ?case
    by (auto simp: write_complete_def onWriteEnd_def Let_def split: option.split list.split)
next
  case (filed sv sid c i fr)
  then show ?case
    by (intro quiet_step_frame quiet_upd_conn) (use keeps_file_done in \<open>auto simp: keeps_def\<close>)
next
  case (timeout sv sid c)
  have e: "quiet_step sv (upd_conn sid expire sv)" by (rule quiet_upd_conn) (simp add: expire_def upd_sess_def)
  show ?case
    using quiet_step_frame [OF e] quiet_step_frame [OF quiet_step_trans [OF e quiet_session_close [of "upd_conn sid expire sv" sid]]]
    by (auto simp: keepAliveTimerCb_def split: option.split)
next
  case (app sv sid c i calls)
  then show ?case
    by (intro quiet_step_frame quiet_upd_conn) (use keeps_run_calls in \<open>auto simp: keeps_def\<close>)
qed

lemma http_reachable_callback:
  "http_reachable mhs env sv0 sv \<Longrightarrow> server_ok sv0 \<Longrightarrow> onUpgradeCb sv = onUpgradeCb sv0"
proof (induction rule: http_reachable.induct)
  case (http_next sv sv')
  then show ?case using http_step_frame [OF http_next.hyps(2)] http_reachable_ok by (auto simp: frame_def)
qed simp

section \<open>From request to hand-over\<close>

text \<open>
  C8. The handshake. An upgrade request on an idle connection (with \<open>Upgrade\<close> and \<open>Connection: Upgrade\<close>, any
  target and other headers) is answered with one switching-protocols response that carries the accept key
  RFC 6455 prescribes for the client's key. When its write completes, the HTTP server forgets the session
  without closing the socket, and the WebSocket server has performed its upgrade step on exactly the
  buffer of the HTTP session, which is left empty. Bytes \<open>xs\<close> that follow the request in the same read reach
  neither server.
\<close>

theorem websocket_handshake:
  fixes xs :: bytes and status :: int
  assumes "http_reachable mhs env (server0 (Some (ws_upgrade srvCb cbs)) w0) sv" "conns sv sid = Some c" "\<not> terminated sv" "idle c"
    "len \<noteq> 0" "request_ok mhs m tgt hs" "wants_upgrade hs" "connection_upgrade hs"
    "\<And>t. length (sha1_of env t) = 20" "\<And>bs. bs \<noteq> [] \<Longrightarrow> bio_of env bs = Some (base64 bs)" "\<And>hs. mset (hdr_order env hs) = mset hs"
  defines "sv1 \<equiv> deliver mhs env sid len (request_text m tgt hs @ xs) sv"
    and "key \<equiv> client_key_of (request_of m 1 1 tgt hs [] (m_req (sess c)))"
  shows "\<exists>c1 c2 r x. conns sv1 sid = Some c1 \<and> resps c1 = resps c @ [r] \<and> wq c1 = [length (resps c)] \<and> writes (resp r) = [x]
    \<and> read_response (wire x) = Some (bstr ''HTTP/1.1 101 Web Socket Protocol Handshake'',
        hdr_order env (handshake_headers (base64 (sha1_of env (key @ WS_GUID)))) @ [(CL, bstr ''0'')], [], [])
    \<and> conns (write_complete env sid status sv1) sid = Some c2 \<and> \<not> live c2 \<and> \<not> reading c2 \<and> closes c2 = 0
    \<and> m_recvBuf (sess c2) = 0 \<and> sid \<notin> set (m_sessions (write_complete env sid status sv1))
    \<and> \<not> terminated (write_complete env sid status sv1)
    \<and> ws_world (write_complete env sid status sv1) = Ws_Server.onUpgrade srvCb (cbs sid) sid len (ws_world sv)"
proof -
  have ok: "server_ok sv" using http_reachable_ok [OF assms(1) server_ok_server0] .
  then have c: "closes c = 0" "distinct (m_sessions sv)" using assms(2,4) by (auto simp: server_ok_def conn_ok_def idle_def)
  have cbs: "onUpgradeCb sv = Some (ws_upgrade srvCb cbs)"
    using http_reachable_callback [OF assms(1) server_ok_server0] by (simp add: server0_def)
  let ?k = "base64 (sha1_of env (key @ WS_GUID))"
  have "sha1_of env (key @ WS_GUID) \<noteq> []" using assms(9) [of "key @ WS_GUID"] by auto
  then have k: "calculate_accept_key (sha1_of env) (bio_of env) key = Inr ?k"
    using assms(9,10) by (simp add: calculate_accept_key_def base64_encode_def SHA_DIGEST_LENGTH_def)
  obtain c1 where c1: "sv1 = sv\<lparr>conns := (conns sv)(sid \<mapsto> c1)\<rparr>"
    "resps c1 = resps c @ [handshake_reply ?k (hdr_order env)]" "wq c1 = [length (resps c)]"
    "live c1" "\<not> crashed c1" "closes c1 = closes c" "m_recvBuf (sess c1) = len" "upgraded c1 = upgraded c"
    unfolding sv1_def by (rule deliver_upgrade [OF assms(2,3,4,5-8) k [unfolded key_def]]) (simp add: key_def)
  obtain x where x: "writes (resp (handshake_reply ?k (hdr_order env))) = [x]"
    "read_response (wire x) = Some (bstr ''HTTP/1.1 101 Web Socket Protocol Handshake'',
        hdr_order env (handshake_headers ?k) @ [(CL, bstr ''0'')], [], [])"
    using handshake_reply_reads [OF assms(11) base64_clean, where rest = "[]"] by (metis append_Nil2)
  let ?w = "Ws_Server.onUpgrade srvCb (cbs sid) sid len (ws_world sv)"
  have cb: "ws_upgrade srvCb cbs sid (sess c1) (ws_world sv1) = ((sess c1)\<lparr>m_recvBuf := 0\<rparr>, ?w)"
    using c1(1,7) by (simp add: ws_upgrade_def transferBufferToWsSession_def)
  have s1: "conns sv1 sid = Some c1" "m_onSent (resps c1 ! length (resps c)) = Sent_upgrade" "\<not> terminated sv1"
    "distinct (m_sessions sv1)" "onUpgradeCb sv1 = Some (ws_upgrade srvCb cbs)"
    using c1(1,2) c(2) assms(3) cbs by (simp_all add: handshake_reply_def)
  have fin: "write_complete env sid status sv1 =
    sv1\<lparr>conns := (conns sv1)(sid \<mapsto> c1\<lparr>wq := [], reading := False, sess := (sess c1)\<lparr>m_recvBuf := 0\<rparr>, upgraded := True, live := False\<rparr>),
       m_sessions := removeSession sid (m_sessions sv1), ws_world := ?w\<rparr>"
    by (rule write_complete_upgrade [OF s1(1) c1(3) s1(2) c1(4,5) s1(3-5) cb])
  have "sid \<notin> set (removeSession sid (m_sessions sv1))" using s1(4) by (simp add: http_reg.set_remove)
  with s1 c1 c x show ?thesis unfolding fin by simp
qed

text \<open>A client asks for the upgrade of its first connection, with the key of the example of RFC 6455.\<close>

abbreviation upgrade_lines :: "(bytes \<times> bytes) list" where
  "upgrade_lines \<equiv> [(bstr ''Upgrade'', bstr ''websocket''), (bstr ''Connection'', bstr ''Upgrade''),
     (bstr ''Sec-WebSocket-Key'', bstr ''dGhlIHNhbXBsZSBub25jZQ=='')]"

lemma upgrade_request:
  "request_ok HTTP_MAX_HEADER_SIZE HTTP_GET [47] upgrade_lines" "wants_upgrade upgrade_lines" "connection_upgrade upgrade_lines"
proof -
  show "request_ok HTTP_MAX_HEADER_SIZE HTTP_GET [47] upgrade_lines" by (rule request_okI; code_simp)
  show "wants_upgrade upgrade_lines" "connection_upgrade upgrade_lines" by code_simp+
qed

lemma upgrade_key:
  "client_key_of (request_of HTTP_GET 1 1 [47] upgrade_lines [] req) = bstr ''dGhlIHNhbXBsZSBub25jZQ==''"
  by (simp add: client_key_of_def request_of_def stored_headers_def tolower_def)

lemma plain_env_crypto:
  "length (sha1_of plain_env t) = 20" "bs \<noteq> [] \<Longrightarrow> bio_of plain_env bs = Some (base64 bs)"
  "mset (hdr_order plain_env hs) = mset hs" "hdr_order plain_env = id"
  "sha1_of plain_env t = take 20 (t @ replicate 20 0)"
  by (simp_all add: plain_env_def)

theorem websocket_handshake_witness:
  "\<exists>c1 c2 r x. conns (deliver HTTP_MAX_HEADER_SIZE plain_env 7 65536 (request_text HTTP_GET [47] upgrade_lines)
        (one_client (server0 (Some (ws_upgrade None (\<lambda>_. answering (\<lambda>_ _. [])))) WsServer_init))) 7 = Some c1
    \<and> resps c1 = [r] \<and> wq c1 = [0] \<and> writes (resp r) = [x]
    \<and> read_response (wire x) = Some (bstr ''HTTP/1.1 101 Web Socket Protocol Handshake'',
        handshake_headers (base64 (bstr ''dGhlIHNhbXBsZSBub25j'')) @ [(CL, bstr ''0'')], [], [])
    \<and> conns (write_complete plain_env 7 0 (deliver HTTP_MAX_HEADER_SIZE plain_env 7 65536 (request_text HTTP_GET [47] upgrade_lines)
        (one_client (server0 (Some (ws_upgrade None (\<lambda>_. answering (\<lambda>_ _. [])))) WsServer_init)))) 7 = Some c2
    \<and> \<not> live c2 \<and> closes c2 = 0
    \<and> ws_world (write_complete plain_env 7 0 (deliver HTTP_MAX_HEADER_SIZE plain_env 7 65536 (request_text HTTP_GET [47] upgrade_lines)
        (one_client (server0 (Some (ws_upgrade None (\<lambda>_. answering (\<lambda>_ _. [])))) WsServer_init))))
      = Ws_Server.onUpgrade None (answering (\<lambda>_ _. [])) 7 65536 WsServer_init"
proof -
  have w: "ws_world (one_client (server0 cb w)) = w" for cb :: "(nat \<Rightarrow> Session \<Rightarrow> WsServer \<Rightarrow> Session \<times> WsServer) option" and w
    by (simp add: one_client_def handle_connect_def upd_conn_def Let_def server0_def)
  have r: "resps ((upd_req (set_ip (Peer_Ip4 [49] 80)) conn_init)\<lparr>reading := True\<rparr>) = []"
    by (simp add: conn_init_def upd_req_def upd_sess_def)
  have d: "take 20 (bstr ''dGhlIHNhbXBsZSBub25jZQ=='' @ WS_GUID @ replicate 20 0) = bstr ''dGhlIHNhbXBsZSBub25j''" by simp
  have len: "(65536 :: size_t) \<noteq> 0" by simp
  from websocket_handshake [OF one_connection [where env = plain_env and mhs = HTTP_MAX_HEADER_SIZE, folded one_client_def]
      one_client_conn(1-3) len upgrade_request plain_env_crypto(1-3), where status = 0 and xs = "[]"]
  show ?thesis
    unfolding w r upgrade_key plain_env_crypto(4,5) id_apply append_Nil append_Nil2 list.size append_assoc d
    by blast
qed

text \<open>
  C36. Without a WebSocket server the same request ends the process: the assertion on the upgrade callback
  fails when the response has been written.
\<close>

theorem upgrade_without_handler_aborts:
  assumes "conns sv sid = Some c" "\<not> terminated sv" "idle c" "onUpgradeCb sv = None" "len \<noteq> 0" "request_ok mhs m tgt hs"
    "wants_upgrade hs" "connection_upgrade hs"
    "calculate_accept_key (sha1_of env) (bio_of env) (client_key_of (request_of m 1 1 tgt hs [] (m_req (sess c)))) = Inr k"
  shows "terminated (write_complete env sid status (deliver mhs env sid len (request_text m tgt hs) sv))"
proof -
  obtain c1 where c1: "deliver mhs env sid len (request_text m tgt hs @ []) sv = sv\<lparr>conns := (conns sv)(sid \<mapsto> c1)\<rparr>"
    "resps c1 = resps c @ [handshake_reply k (hdr_order env)]" "wq c1 = [length (resps c)]" "live c1"
    by (rule deliver_upgrade [OF assms(1-3,5-9)])
  from c1(1) have "deliver mhs env sid len (request_text m tgt hs) sv = sv\<lparr>conns := (conns sv)(sid \<mapsto> c1)\<rparr>" by simp
  moreover have "terminated (write_complete env sid status (sv\<lparr>conns := (conns sv)(sid \<mapsto> c1)\<rparr>))"
    by (rule write_complete_no_handler [OF _ c1(3) _ c1(4)]) (use c1(2) assms(4) in \<open>simp_all add: handshake_reply_def\<close>)
  ultimately show ?thesis by simp
qed

theorem upgrade_without_handler_aborts_witness:
  "terminated (write_complete plain_env 7 0 (deliver HTTP_MAX_HEADER_SIZE plain_env 7 65536
     (request_text HTTP_GET [47] upgrade_lines) (one_client (server0 None ()))))"
proof -
  have n: "onUpgradeCb (one_client (server0 None ())) = None"
    by (simp add: one_client_def handle_connect_def upd_conn_def Let_def server0_def)
  have k: "\<exists>k. calculate_accept_key (sha1_of plain_env) (bio_of plain_env) t = Inr k" for t
  proof -
    have "sha1_of plain_env t \<noteq> []" for t using plain_env_crypto(1) [of t] by auto
    then show ?thesis
      by (simp add: calculate_accept_key_def base64_encode_def SHA_DIGEST_LENGTH_def plain_env_crypto(1,2))
  qed
  then obtain k where "calculate_accept_key (sha1_of plain_env) (bio_of plain_env)
      (client_key_of (request_of HTTP_GET 1 1 [47] upgrade_lines []
        (m_req (sess ((upd_req (set_ip (Peer_Ip4 [49] 80)) conn_init)\<lparr>reading := True\<rparr>))))) = Inr k" by blast
  from upgrade_without_handler_aborts [OF one_client_conn(1-3) n _ upgrade_request this, where len = 65536 and status = 0]
  show ?thesis by simp
qed

end
