(* ===== verification/Both_Servers.thy ===== *)
theory Both_Servers
  imports Upgrade
begin

text \<open>
  The program: one HTTP server whose upgrade callback is the WebSocket server's, run by one event loop. A
  run interleaves the steps of the HTTP server, among them the hand-over of a session, with the steps of
  the WebSocket server on the sessions it has been handed.
\<close>

section \<open>Runs of the program\<close>

text \<open>
  A step of the WebSocket server that adds no session: bytes or an error on a socket it reads, a call of
  the application, the completion of a write. Sessions are only added by the HTTP server's callback.
\<close>

inductive sys_step ::
  "(WsSession \<Rightarrow> ws_cmd list) option \<Rightarrow> (nat \<Rightarrow> ws_callbacks) \<Rightarrow> u32 \<Rightarrow> 'rx http_env \<Rightarrow> WsServer HttpServer
    \<Rightarrow> WsServer HttpServer \<Rightarrow> bool"
  for srvCb cbs mhs env where
  on_http: "http_step mhs env sv sv' \<Longrightarrow> sys_step srvCb cbs mhs env sv sv'"
| on_websocket: "\<not> terminated sv \<Longrightarrow> ws_step srvCb cbs (ws_world sv) w \<Longrightarrow>
     dom (ws_objs w) = dom (ws_objs (ws_world sv)) \<Longrightarrow> sys_step srvCb cbs mhs env sv (sv\<lparr>ws_world := w\<rparr>)"

definition sys_init :: "(WsSession \<Rightarrow> ws_cmd list) option \<Rightarrow> (nat \<Rightarrow> ws_callbacks) \<Rightarrow> WsServer HttpServer" where
  "sys_init srvCb cbs = set_onUpgrade (ws_upgrade srvCb cbs) (server0 None WsServer_init)"

inductive sys_reachable ::
  "(WsSession \<Rightarrow> ws_cmd list) option \<Rightarrow> (nat \<Rightarrow> ws_callbacks) \<Rightarrow> u32 \<Rightarrow> 'rx http_env \<Rightarrow> WsServer HttpServer \<Rightarrow> bool"
  for srvCb cbs mhs env where
  sys_start: "sys_reachable srvCb cbs mhs env (sys_init srvCb cbs)"
| sys_next: "sys_reachable srvCb cbs mhs env sv \<Longrightarrow> sys_step srvCb cbs mhs env sv sv' \<Longrightarrow>
     sys_reachable srvCb cbs mhs env sv'"

section \<open>The invariant\<close>

text \<open>
  Both tables are right, and the WebSocket server has an object exactly for the sessions that the HTTP
  server has handed over.
\<close>

definition sys_ok ::
  "(WsSession \<Rightarrow> ws_cmd list) option \<Rightarrow> (nat \<Rightarrow> ws_callbacks) \<Rightarrow> WsServer HttpServer \<Rightarrow> bool" where
  "sys_ok srvCb cbs sv \<longleftrightarrow> server_ok sv \<and> table_ok (ws_world sv) \<and> onUpgradeCb sv = Some (ws_upgrade srvCb cbs)
     \<and> dom (ws_objs (ws_world sv)) = handed_over sv"

lemma sys_init_ok: "sys_ok srvCb cbs (sys_init srvCb cbs)"
  by (simp add: sys_ok_def sys_init_def set_onUpgrade_def server0_def server_ok_def table_ok_def WsServer_init_def handed_over_def)

lemma dom_onUpgrade: "dom (ws_objs (Ws_Server.onUpgrade srvCb cbs sid len w)) = insert sid (dom (ws_objs w))"
  by (simp add: Ws_Server.onUpgrade_def commit_def Let_def)

lemma ws_upgrade_ok:
  assumes "table_ok w" "dom (ws_objs w) = H" "sid \<notin> H"
  shows "table_ok (snd (ws_upgrade srvCb cbs sid s w))" "dom (ws_objs (snd (ws_upgrade srvCb cbs sid s w))) = insert sid H"
proof -
  have "ws_objs w sid = None" using assms(2,3) by (auto simp: dom_def)
  with assms(1) show "table_ok (snd (ws_upgrade srvCb cbs sid s w))" by (simp add: ws_upgrade_def onUpgrade_ok)
  show "dom (ws_objs (snd (ws_upgrade srvCb cbs sid s w))) = insert sid H"
    using assms(2) by (simp add: ws_upgrade_def dom_onUpgrade)
qed

lemma sys_step_ok: "sys_step srvCb cbs mhs env sv sv' \<Longrightarrow> sys_ok srvCb cbs sv \<Longrightarrow> sys_ok srvCb cbs sv'"
proof (induction rule: sys_step.induct)
  case (on_http sv sv')
  from http_step_frame [OF on_http.hyps] on_http.prems have f: "frame sv sv'" by (simp add: sys_ok_def)
  from http_step_ok [OF on_http.hyps] on_http.prems have ok: "server_ok sv'" by (simp add: sys_ok_def)
  have w: "table_ok (ws_world sv)" "dom (ws_objs (ws_world sv)) = handed_over sv"
    using on_http.prems by (simp_all add: sys_ok_def)
  show ?case
    using f ok on_http.prems ws_upgrade_ok [OF w]
    unfolding frame_def sys_ok_def by (elim conjE disjE exE) simp_all
next
  case (on_websocket sv w)
  have "handed_over (sv\<lparr>ws_world := w\<rparr>) = handed_over sv" "server_ok (sv\<lparr>ws_world := w\<rparr>) = server_ok sv"
    by (simp_all add: handed_over_def server_ok_def)
  with on_websocket.hyps(3) ws_step_ok [OF on_websocket.hyps(2)] on_websocket.prems show ?case by (simp add: sys_ok_def)
qed

lemma sys_reachable_ok: "sys_reachable srvCb cbs mhs env sv \<Longrightarrow> sys_ok srvCb cbs sv"
  by (induction rule: sys_reachable.induct) (auto intro: sys_init_ok sys_step_ok)

section \<open>Who owns a socket\<close>

text \<open>
  C9. Ownership of sockets. In every run of the whole program (connections, reads, writes, files, timers and
  application calls on the HTTP side; reads, writes and application calls on the WebSocket side, in any
  order) no session is in both tables, neither table lists a session twice, the HTTP table lists exactly
  the live HTTP sessions and the WebSocket table exactly the open WebSocket sessions; and a socket in the
  WebSocket table is one the HTTP server has accepted and handed over, that it no longer reads and has
  never closed.
\<close>

theorem sockets_have_one_owner:
  assumes "sys_reachable srvCb cbs mhs env sv"
  shows "set (m_sessions sv) \<inter> set (m_wsSessions (ws_world sv)) = {}
    \<and> distinct (m_sessions sv) \<and> distinct (m_wsSessions (ws_world sv))
    \<and> set (m_sessions sv) = {sid. \<exists>c. conns sv sid = Some c \<and> live c}
    \<and> set (m_wsSessions (ws_world sv)) = {sid. \<exists>s. ws_objs (ws_world sv) sid = Some s \<and> readyState s = OPEN}
    \<and> (\<forall>sid. sid \<in> set (m_wsSessions (ws_world sv)) \<longrightarrow>
         (\<exists>c. conns sv sid = Some c \<and> upgraded c \<and> \<not> live c \<and> \<not> reading c \<and> closes c = 0))"
proof -
  have ok: "server_ok sv" "table_ok (ws_world sv)" "dom (ws_objs (ws_world sv)) = handed_over sv"
    using sys_reachable_ok [OF assms] by (simp_all add: sys_ok_def)
  have tab: "set (m_wsSessions (ws_world sv)) = {sid. \<exists>s. ws_objs (ws_world sv) sid = Some s \<and> readyState s = OPEN}"
    "distinct (m_wsSessions (ws_world sv))"
    using ok(2) unfolding table_ok_def by force+
  have up: "\<exists>c. conns sv sid = Some c \<and> upgraded c \<and> \<not> live c \<and> \<not> reading c \<and> closes c = 0"
    if "sid \<in> set (m_wsSessions (ws_world sv))" for sid
  proof -
    have "sid \<in> handed_over sv" using that tab(1) ok(3) by auto
    then obtain c where c: "conns sv sid = Some c" "upgraded c" by (auto simp: handed_over_def)
    with ok(1) have "conn_ok c" by (simp add: server_ok_def)
    with c show ?thesis by (auto simp: conn_ok_def split: if_splits)
  qed
  have http: "distinct (m_sessions sv)" "set (m_sessions sv) = {sid. \<exists>c. conns sv sid = Some c \<and> live c}"
    using ok(1) by (auto simp: server_ok_def)
  have "set (m_sessions sv) \<inter> set (m_wsSessions (ws_world sv)) = {}" using up http(2) by fastforce
  with up http tab show ?thesis by blast
qed

lemma http_run_is_sys_run:
  "http_reachable mhs env (sys_init srvCb cbs) sv \<Longrightarrow> sys_reachable srvCb cbs mhs env sv"
  by (induction rule: http_reachable.induct) (auto intro: sys_start sys_next on_http)

text \<open>The run in which the first client connects, asks for the upgrade and is handed over.\<close>

definition handshake_run :: "WsServer HttpServer" where
  "handshake_run = write_complete plain_env 7 0
     (deliver HTTP_MAX_HEADER_SIZE plain_env 7 HTTP_DEFAULT_RECV_BUF_SIZE (request_text HTTP_GET [47] upgrade_lines)
       (one_client (sys_init None (\<lambda>_. answering (\<lambda>_ _. [])))))"

lemma handshake_run_reachable:
  "sys_reachable None (\<lambda>_. answering (\<lambda>_ _. [])) HTTP_MAX_HEADER_SIZE plain_env handshake_run"
proof -
  let ?c = "(upd_req (set_ip (Peer_Ip4 [49] 80)) conn_init)\<lparr>reading := True\<rparr>"
  let ?buf = "request_text HTTP_GET [47] upgrade_lines"
  have init: "sys_init srvCb cbs = server0 (Some (ws_upgrade srvCb cbs)) WsServer_init" for srvCb cbs
    by (simp add: sys_init_def set_onUpgrade_def server0_def)
  let ?sv = "one_client (sys_init None (\<lambda>_. answering (\<lambda>_ _. [])))"
  let ?sv1 = "deliver HTTP_MAX_HEADER_SIZE plain_env 7 HTTP_DEFAULT_RECV_BUF_SIZE ?buf ?sv"
  note conn = one_client_conn(1,2) [where cb = "Some (ws_upgrade None (\<lambda>_. answering (\<lambda>_ _. [])))" and w = WsServer_init, folded init]
    one_client_conn(3)
  have 0: "http_reachable HTTP_MAX_HEADER_SIZE plain_env (sys_init None (\<lambda>_. answering (\<lambda>_ _. []))) ?sv"
    unfolding init one_client_def by (rule one_connection)
  have "length ?buf \<le> 300" by code_simp
  then have len: "length ?buf \<le> unat HTTP_DEFAULT_RECV_BUF_SIZE" by (simp add: HTTP_DEFAULT_RECV_BUF_SIZE_def)
  have "recv_alloc_cb (m_recvBuf (sess ?c)) 65536 = Some HTTP_DEFAULT_RECV_BUF_SIZE"
    by (simp add: upd_req_def upd_sess_def conn_init_def Session_init_def recv_alloc_cb_def HTTP_DEFAULT_RECV_BUF_SIZE_def)
  from http_step.received [OF conn(2,1) _ this, of "Read_data ?buf" HTTP_MAX_HEADER_SIZE plain_env] len
  have "http_step HTTP_MAX_HEADER_SIZE plain_env ?sv ?sv1" by (simp add: deliver_def)
  note 1 = http_next [OF 0 this]
  have "\<exists>k. calculate_accept_key (sha1_of plain_env) (bio_of plain_env) t = Inr k" for t
    by (simp add: plain_env_def calculate_accept_key_def base64_encode_def SHA_DIGEST_LENGTH_def)
  then obtain k where k: "calculate_accept_key (sha1_of plain_env) (bio_of plain_env)
      (client_key_of (request_of HTTP_GET 1 1 [47] upgrade_lines [] (m_req (sess ?c)))) = Inr k" by blast
  have n: "HTTP_DEFAULT_RECV_BUF_SIZE \<noteq> 0" by (simp add: HTTP_DEFAULT_RECV_BUF_SIZE_def)
  obtain c1 where
    "deliver HTTP_MAX_HEADER_SIZE plain_env 7 HTTP_DEFAULT_RECV_BUF_SIZE (?buf @ []) ?sv = ?sv\<lparr>conns := (conns ?sv)(7 \<mapsto> c1)\<rparr>"
    "wq c1 = [length (resps ?c)]"
    by (rule deliver_upgrade [OF conn n upgrade_request k, where xs = "[]"])
  then have c1: "?sv1 = ?sv\<lparr>conns := (conns ?sv)(7 \<mapsto> c1)\<rparr>" "wq c1 \<noteq> []" by (simp_all only: append_Nil2) simp
  have "\<not> terminated ?sv1" "conns ?sv1 7 = Some c1" unfolding c1(1) using conn(2) by simp_all
  from http_next [OF 1 http_step.written [OF this c1(2), of HTTP_MAX_HEADER_SIZE plain_env 0]] show ?thesis
    unfolding handshake_run_def by (rule http_run_is_sys_run)
qed

theorem sockets_have_one_owner_witness:
  "set (m_sessions handshake_run) \<inter> set (m_wsSessions (ws_world handshake_run)) = {}
   \<and> distinct (m_sessions handshake_run) \<and> distinct (m_wsSessions (ws_world handshake_run))"
  using sockets_have_one_owner [OF handshake_run_reachable] by blast

end
