(* ===== verification/Lifecycle.thy ===== *)
theory Lifecycle
  imports Both_Servers
begin

text \<open>
  What the two servers do together, seen from outside: every socket runs through a small machine. It is fresh,
  then served by the HTTP server, then perhaps upgraded, then closed, and a step of the program moves at most
  one socket by one arrow. The runs of the program refine the runs of this machine.
\<close>

section \<open>The abstract machine\<close>

datatype phase = Fresh | Serving | Upgraded | Closed

fun arrow :: "phase \<Rightarrow> phase \<Rightarrow> bool" where
  "arrow Fresh p \<longleftrightarrow> p \<in> {Fresh, Serving}"
| "arrow Serving p \<longleftrightarrow> p \<noteq> Fresh"
| "arrow Upgraded p \<longleftrightarrow> p \<in> {Upgraded, Closed}"
| "arrow Closed p \<longleftrightarrow> p = Closed"

definition life_step :: "(nat \<Rightarrow> phase) \<Rightarrow> (nat \<Rightarrow> phase) \<Rightarrow> bool" where
  "life_step F G \<longleftrightarrow> (\<exists>sid p. arrow (F sid) p \<and> G = F(sid := p))"

text \<open>The phase of a socket in a state of the program.\<close>

definition ws_open :: "WsServer \<Rightarrow> nat \<Rightarrow> bool" where
  "ws_open w sid = (case ws_objs w sid of None \<Rightarrow> False | Some s \<Rightarrow> readyState s = OPEN)"

definition phases :: "WsServer HttpServer \<Rightarrow> nat \<Rightarrow> phase" where
  "phases sv sid = (case conns sv sid of None \<Rightarrow> Fresh
     | Some c \<Rightarrow> if live c then Serving else if upgraded c \<and> ws_open (ws_world sv) sid then Upgraded else Closed)"

section \<open>How a step changes a connection\<close>

text \<open>Only connection \<open>sid\<close> changes; it does not come to life again and is upgraded only while it lives.\<close>

definition evolves :: "nat \<Rightarrow> 'w HttpServer \<Rightarrow> 'w HttpServer \<Rightarrow> bool" where
  "evolves sid sv sv' \<longleftrightarrow> (\<forall>t. t \<noteq> sid \<longrightarrow> conns sv' t = conns sv t)
     \<and> (case conns sv sid of None \<Rightarrow> conns sv' sid = None
        | Some c \<Rightarrow> \<exists>c'. conns sv' sid = Some c' \<and> (live c' \<longrightarrow> live c) \<and> (upgraded c \<longrightarrow> upgraded c')
            \<and> (upgraded c' \<longrightarrow> upgraded c \<or> live c))"

lemma evolves_refl [simp]: "evolves sid sv sv"
  by (simp add: evolves_def split: option.split)

lemma evolves_trans [trans]: "evolves sid sv sv1 \<Longrightarrow> evolves sid sv1 sv2 \<Longrightarrow> evolves sid sv sv2"
  by (auto simp: evolves_def split: option.splits)

lemma evolves_table [simp]:
  "evolves sid sv (sv'\<lparr>m_sessions := v\<rparr>) = evolves sid sv sv'" "evolves sid sv (sv'\<lparr>ws_world := w\<rparr>) = evolves sid sv sv'"
  "evolves sid sv (sv'\<lparr>terminated := b\<rparr>) = evolves sid sv sv'"
  by (simp_all add: evolves_def cong: option.case_cong)

lemma evolves_upd:
  assumes "\<And>c. conns sv sid = Some c \<Longrightarrow> (live (f c) \<longrightarrow> live c) \<and> (upgraded c \<longrightarrow> upgraded (f c)) \<and> (upgraded (f c) \<longrightarrow> upgraded c \<or> live c)"
  shows "evolves sid sv (upd_conn sid f sv)"
  using assms by (auto simp: evolves_def upd_conn_def split: option.splits)

lemma evolves_keeps: "(\<And>c. keeps c (f c)) \<Longrightarrow> evolves sid sv (upd_conn sid f sv)"
  by (rule evolves_upd) (simp add: keeps_def)

lemma evolves_release: "evolves sid sv (release sid sv)"
  by (simp add: release_def evolves_upd)

lemma evolves_closeSession: "evolves sid sv (closeSession sid b sv)"
proof -
  have 1: "evolves sid sv (upd_conn sid (\<lambda>c. c\<lparr>reading := False\<rparr>) sv)" by (rule evolves_upd) simp
  have 2: "evolves sid sv' (upd_conn sid (\<lambda>c. c\<lparr>closes := closes c + 1\<rparr>) sv')" for sv' :: "'a HttpServer"
    by (rule evolves_upd) simp
  show ?thesis unfolding closeSession_def Let_def using evolves_trans [OF 1 2] 1 by simp
qed

lemma evolves_session_close: "evolves sid sv (session_close sid sv)"
  unfolding session_close_def by (rule evolves_trans [OF evolves_closeSession evolves_release])

lemma evolves_upgrade:
  assumes "conns sv sid = Some c" "live c"
  shows "evolves sid sv (upgradeSession sid sv)"
proof (cases "onUpgradeCb sv")
  case None
  then show ?thesis by (simp add: upgradeSession_def)
next
  case (Some cb)
  define sv1 where "sv1 = closeSession sid True sv"
  obtain s w where "cb sid (sess c) (ws_world sv) = (s, w)" by (cases "cb sid (sess c) (ws_world sv)")
  moreover have "conns sv1 sid = Some (c\<lparr>reading := False\<rparr>)" "ws_world sv1 = ws_world sv"
    using conns_closeSession(1,4) [OF assms(1), where b = True] by (simp_all add: sv1_def)
  moreover have "evolves sid sv1 (upd_conn sid (\<lambda>c. c\<lparr>sess := s, upgraded := True\<rparr>) (sv1\<lparr>ws_world := w\<rparr>))" for s w
    using assms(2) calculation(2) by (auto simp: evolves_def upd_conn_def)
  ultimately show ?thesis
    using evolves_closeSession [of sid sv True] Some
    by (auto simp: upgradeSession_def Let_def simp flip: sv1_def intro: evolves_trans)
qed

lemma evolves_on_sent: "evolves sid sv (on_sent env sid cb sv)"
proof (cases "\<exists>c. conns sv sid = Some c \<and> live c")
  case False
  then show ?thesis by (auto simp: on_sent_def split: option.split)
next
  case True
  then obtain c where c: "conns sv sid = Some c" "live c" by blast
  have "evolves sid sv (upd_conn sid (startKeepAliveTimer env) sv)"
    by (rule evolves_upd) (simp add: startKeepAliveTimer_def upd_sess_def)
  with c evolves_trans [OF evolves_upgrade [OF c] evolves_release] evolves_session_close [of sid sv] show ?thesis
    by (cases cb) (simp_all add: on_sent_def)
qed

text \<open>A step of the HTTP server changes one connection, or accepts one.\<close>

lemma http_step_evolves:
  fixes sv :: "'w HttpServer"
  assumes "http_step mhs env sv sv'"
  shows "\<exists>sid. evolves sid sv sv' \<or> (conns sv sid = None \<and> (\<exists>c. conns sv' = (conns sv)(sid \<mapsto> c) \<and> live c \<and> \<not> upgraded c))"
  using assms
proof cases
  case (connected sid status accept_ret peer)
  have "conns (handle_connect sid peer sv) = (conns sv)(sid \<mapsto> (upd_req (set_ip peer) conn_init)\<lparr>reading := True\<rparr>)"
    by (auto simp: handle_connect_def upd_conn_def Let_def)
  then have "\<exists>c. conns (handle_connect sid peer sv) = (conns sv)(sid \<mapsto> c) \<and> live c \<and> \<not> upgraded c"
    by (intro exI [of _ "(upd_req (set_ip peer) conn_init)\<lparr>reading := True\<rparr>"]) (simp add: conn_init_def upd_req_def upd_sess_def)
  with connected show ?thesis by (auto simp: inter_on_connect_def)
next
  case (received sid c suggested len ev)
  have a: "evolves sid sv (upd_conn sid (alloc_to len) sv)" by (rule evolves_upd) simp
  let ?sv = "upd_conn sid (alloc_to len) sv"
  have s: "evolves sid sv1 (upd_conn sid stopKeepAliveTimer sv1)" for sv1 :: "'w HttpServer"
    by (rule evolves_upd) (simp add: stopKeepAliveTimer_def upd_sess_def)
  have "live (recv_data mhs env buf d) = live d" for buf d
    using keeps_recv_data [of d mhs env buf] by (simp add: keeps_def stopKeepAliveTimer_def upd_sess_def split: if_splits)
  then have r: "evolves sid ?sv (upd_conn sid (recv_data mhs env buf) ?sv)" for buf by (intro evolves_upd) simp
  have "evolves sid ?sv (recv_cb mhs env sid ev ?sv)"
    by (cases ev) (simp_all add: r evolves_trans [OF s evolves_session_close])
  with received a show ?thesis by (auto intro: evolves_trans)
next
  case (written sid c status)
  have "evolves sid sv (upd_conn sid (\<lambda>c. c\<lparr>wq := q\<rparr>) sv)" for q by (rule evolves_upd) simp
  then have "evolves sid sv (on_sent env sid cb (upd_conn sid (\<lambda>c. c\<lparr>wq := q\<rparr>) sv))" for q cb
    by (rule evolves_trans [OF _ evolves_on_sent])
  then have "evolves sid sv (write_complete env sid status sv)"
    by (auto simp: write_complete_def onWriteEnd_def Let_def split: option.split list.split)
  with written show ?thesis by blast
next
  case (filed sid c i fr)
  then show ?thesis by (auto intro!: evolves_keeps keeps_file_done)
next
  case (timeout sid c)
  have "evolves sid sv (upd_conn sid expire sv)" by (rule evolves_upd) (simp add: expire_def upd_sess_def)
  then have "evolves sid sv (keepAliveTimerCb sid (upd_conn sid expire sv))"
    using evolves_session_close [of sid "upd_conn sid expire sv"]
    by (auto simp: keepAliveTimerCb_def split: option.split intro: evolves_trans)
  with timeout show ?thesis by blast
next
  case (app sid c i calls)
  then show ?thesis by (auto intro!: evolves_keeps keeps_run_calls)
qed

section \<open>The refinement\<close>

lemma ws_open_upgrade:
  "t \<noteq> sid \<Longrightarrow> ws_open (snd (ws_upgrade srvCb cbs sid s w)) t = ws_open w t"
  by (simp add: ws_upgrade_def Ws_Server.onUpgrade_def commit_def ws_open_def Let_def)

lemma phase_eqI: "conns sv' t = conns sv t \<Longrightarrow> ws_open (ws_world sv') t = ws_open (ws_world sv) t \<Longrightarrow> phases sv' t = phases sv t"
  by (simp add: phases_def split: option.split)

lemma life_stepI: "(\<And>t. t \<noteq> sid \<Longrightarrow> G t = F t) \<Longrightarrow> arrow (F sid) (G sid) \<Longrightarrow> life_step F G"
  unfolding life_step_def by (intro exI [of _ sid] exI [of _ "G sid"]) auto

lemma http_step_life:
  assumes step: "http_step mhs env sv sv'" and ok: "sys_ok srvCb cbs sv"
  shows "life_step (phases sv) (phases sv')"
proof -
  have server: "server_ok sv" "onUpgradeCb sv = Some (ws_upgrade srvCb cbs)" using ok by (simp_all add: sys_ok_def)
  from http_step_frame [OF step server(1)] have
    frame: "ws_world sv' = ws_world sv \<and> handed_over sv' = handed_over sv
      \<or> (\<exists>sid s. sid \<notin> handed_over sv \<and> ws_world sv' = snd (ws_upgrade srvCb cbs sid s (ws_world sv))
            \<and> handed_over sv' = insert sid (handed_over sv))"
    using server(2) unfolding frame_def by auto
  from http_step_evolves [OF step] obtain sid where
    ev: "evolves sid sv sv' \<or> (conns sv sid = None \<and> (\<exists>c. conns sv' = (conns sv)(sid \<mapsto> c) \<and> live c \<and> \<not> upgraded c))" by blast
  then have others: "conns sv' t = conns sv t" if "t \<noteq> sid" for t using that by (auto simp: evolves_def)
  have same: "ws_open (ws_world sv') t = ws_open (ws_world sv) t" if "t \<noteq> sid \<or> t \<in> handed_over sv \<or> t \<notin> handed_over sv'" for t
  proof (cases "ws_world sv' = ws_world sv")
    case False
    with frame obtain u s where u: "u \<notin> handed_over sv" "ws_world sv' = snd (ws_upgrade srvCb cbs u s (ws_world sv))"
      "handed_over sv' = insert u (handed_over sv)" by blast
    have "u \<in> handed_over sv'" using u(3) by simp
    then have "u = sid" using u(1) others [of u] by (cases "u = sid") (simp_all add: handed_over_def)
    with that u have "t \<noteq> u" by auto
    then show ?thesis unfolding u(2) by (rule ws_open_upgrade)
  qed simp
  show ?thesis
  proof (rule life_stepI [of sid])
    show "phases sv' t = phases sv t" if "t \<noteq> sid" for t using that others same by (intro phase_eqI) simp_all
    show "arrow (phases sv sid) (phases sv' sid)"
    proof (cases "conns sv sid")
      case None
      with ev show ?thesis by (auto simp: phases_def evolves_def)
    next
      case (Some c)
      with ev obtain c' where c': "conns sv' sid = Some c'" "live c' \<longrightarrow> live c" "upgraded c \<longrightarrow> upgraded c'" "upgraded c' \<longrightarrow> upgraded c \<or> live c"
        by (auto simp: evolves_def)
      have "upgraded c \<Longrightarrow> sid \<in> handed_over sv" using Some by (auto simp: handed_over_def)
      with same [of sid] Some c' show ?thesis by (auto simp: phases_def)
    qed
  qed
qed

lemma ws_step_life:
  assumes step: "ws_step srvCb cbs (ws_world sv) w" and dom: "dom (ws_objs w) = dom (ws_objs (ws_world sv))" and ok: "sys_ok srvCb cbs sv"
  shows "life_step (phases sv) (phases (sv\<lparr>ws_world := w\<rparr>))"
proof -
  have closed: "\<exists>sid. (\<forall>t. t \<noteq> sid \<longrightarrow> ws_open w t = ws_open (ws_world sv) t) \<and> (ws_open w sid \<longrightarrow> ws_open (ws_world sv) sid)"
    using step
  proof cases
    case (upgrade ws len)
    then have "ws \<in> dom (ws_objs w)" by (simp add: dom_onUpgrade)
    with dom upgrade show ?thesis by auto
  next
    case (recv ws s ev)
    with recv.operation_tracked [where s = s and cbs = "cbs ws" and ev = ev] show ?thesis
      by (intro exI [of _ ws]) (auto simp: commit_def ws_open_def tracked_def)
  next
    case (app ws s cs)
    with app_calls.operation_tracked [where s = s and cbs = "cbs ws" and cs = cs] show ?thesis
      by (intro exI [of _ ws]) (auto simp: commit_def ws_open_def tracked_def)
  next
    case (written ws s status)
    with write_cb.operation_tracked [where s = s and cbs = "cbs ws" and status = status] show ?thesis
      by (intro exI [of _ ws]) (auto simp: commit_def ws_open_def tracked_def)
  qed
  then obtain sid where "\<And>t. t \<noteq> sid \<Longrightarrow> ws_open w t = ws_open (ws_world sv) t" "ws_open w sid \<longrightarrow> ws_open (ws_world sv) sid" by blast
  then show ?thesis by (intro life_stepI [of sid]) (auto simp: phases_def split: option.split)
qed

lemma sys_step_life: "sys_step srvCb cbs mhs env sv sv' \<Longrightarrow> sys_ok srvCb cbs sv \<Longrightarrow> life_step (phases sv) (phases sv')"
  by (cases rule: sys_step.cases) (auto intro: http_step_life ws_step_life)

lemma tables_are_phases:
  assumes "sys_ok srvCb cbs sv"
  shows "set (m_sessions sv) = {sid. phases sv sid = Serving}" "set (m_wsSessions (ws_world sv)) = {sid. phases sv sid = Upgraded}"
proof -
  have ok: "server_ok sv" "table_ok (ws_world sv)" "dom (ws_objs (ws_world sv)) = handed_over sv" using assms by (simp_all add: sys_ok_def)
  show "set (m_sessions sv) = {sid. phases sv sid = Serving}"
    using ok(1) by (auto simp: server_ok_def phases_def split: option.splits if_splits)
  have "ws_open (ws_world sv) sid \<longleftrightarrow> sid \<in> set (m_wsSessions (ws_world sv))" for sid
  proof -
    have "sid \<in> set (m_wsSessions (ws_world sv)) \<longleftrightarrow> (\<exists>s. ws_objs (ws_world sv) sid = Some s \<and> readyState s \<noteq> CLOSED)"
      "\<forall>s. ws_objs (ws_world sv) sid = Some s \<longrightarrow> readyState s = OPEN \<or> readyState s = CLOSED"
      using ok(2) by (simp_all add: table_ok_def)
    then show ?thesis by (cases "ws_objs (ws_world sv) sid") (auto simp: ws_open_def)
  qed
  moreover have "\<exists>c. conns sv sid = Some c \<and> upgraded c \<and> \<not> live c" if "ws_open (ws_world sv) sid" for sid
  proof -
    have "sid \<in> handed_over sv" using that ok(3) by (auto simp: ws_open_def split: option.splits)
    then obtain c where c: "conns sv sid = Some c" "upgraded c" by (auto simp: handed_over_def)
    with ok(1) have "conn_ok c" by (simp add: server_ok_def)
    with c show ?thesis by (auto simp: conn_ok_def split: if_splits)
  qed
  ultimately show "set (m_wsSessions (ws_world sv)) = {sid. phases sv sid = Upgraded}"
    by (fastforce simp: phases_def split: option.splits if_splits)
qed

text \<open>
  C3. The life of a socket. The program refines the machine above. At the start every socket is fresh; every
  step of the program (of either server, in any order) is a step of the machine, which moves at most one
  socket by one arrow; so every state that can be reached is one the machine reaches. In it the table of the
  HTTP server is the set of the sockets being served and the table of the WebSocket server the set of the
  upgraded ones. A closed socket is never served or upgraded again, an upgraded one never goes back, and
  none is upgraded that was not being served.
\<close>

theorem program_refines_lifecycle:
  assumes "sys_reachable srvCb cbs mhs env sv"
  shows "rtranclp life_step (\<lambda>_. Fresh) (phases sv)
    \<and> (\<forall>sv'. sys_step srvCb cbs mhs env sv sv' \<longrightarrow> life_step (phases sv) (phases sv'))
    \<and> set (m_sessions sv) = {sid. phases sv sid = Serving}
    \<and> set (m_wsSessions (ws_world sv)) = {sid. phases sv sid = Upgraded}"
proof -
  have init: "phases (sys_init srvCb cbs) = (\<lambda>_. Fresh)" by (simp add: phases_def sys_init_def set_onUpgrade_def server0_def fun_eq_iff)
  have "rtranclp life_step (\<lambda>_. Fresh) (phases sv)"
    using assms by (induction rule: sys_reachable.induct) (auto simp: init intro: rtranclp.rtrancl_into_rtrancl sys_step_life sys_reachable_ok)
  then show ?thesis using tables_are_phases [OF sys_reachable_ok [OF assms]] sys_step_life [OF _ sys_reachable_ok [OF assms]] by blast
qed

text \<open>After the hand-over of the first client its socket is upgraded.\<close>

theorem program_refines_lifecycle_witness:
  "rtranclp life_step (\<lambda>_. Fresh) (phases handshake_run) \<and> set (m_sessions handshake_run) = {sid. phases handshake_run sid = Serving}
    \<and> set (m_wsSessions (ws_world handshake_run)) = {sid. phases handshake_run sid = Upgraded}"
  using program_refines_lifecycle [OF handshake_run_reachable] by blast

end
