(* ===== verification/End_To_End.thy ===== *)
theory End_To_End
  imports Both_Servers
begin

text \<open>
  The whole path of a WebSocket client through the running program: its HTTP request, the hand-over of its
  socket, and its conversation with the application, while other clients are connected to both servers.
\<close>

section \<open>Reading a socket of the WebSocket server\<close>

text \<open>The event loop hands bytes to \<open>WsSession::recv_cb\<close>; what the session asks of its server is carried out.\<close>

definition ws_deliver :: "ws_callbacks \<Rightarrow> nat \<Rightarrow> WsServer HttpServer \<Rightarrow> bytes \<Rightarrow> WsServer HttpServer" where
  "ws_deliver cb sid sv buf =
     (case ws_objs (ws_world sv) sid of None \<Rightarrow> sv
      | Some s \<Rightarrow> sv\<lparr>ws_world := commit sid s (ws_recv_cb cb (Read_data buf) s) (ws_world sv)\<rparr>)"

lemma ws_deliver_simps [simp]:
  "conns (ws_deliver cb sid sv buf) = conns sv" "m_sessions (ws_deliver cb sid sv buf) = m_sessions sv"
  "terminated (ws_deliver cb sid sv buf) = terminated sv"
  by (simp_all add: ws_deliver_def split: option.split)

lemma ws_delivers_simps [simp]:
  "conns (foldl (ws_deliver cb sid) sv bufs) = conns sv" "m_sessions (foldl (ws_deliver cb sid) sv bufs) = m_sessions sv"
  "terminated (foldl (ws_deliver cb sid) sv bufs) = terminated sv"
  by (induction bufs arbitrary: sv) simp_all

lemma ws_objs_commit [simp]: "ws_objs (commit ws s t w) = (ws_objs w)(ws \<mapsto> t)"
  by (simp add: commit_def)

lemma ws_deliver_step:
  assumes "sys_reachable srvCb cbs mhs env sv" "\<not> terminated sv" "ws_objs (ws_world sv) sid = Some s" "readyState s = OPEN"
  shows "sys_reachable srvCb cbs mhs env (ws_deliver (cbs sid) sid sv buf)"
proof -
  let ?w = "commit sid s (ws_recv_cb (cbs sid) (Read_data buf) s) (ws_world sv)"
  have "dom (ws_objs ?w) = dom (ws_objs (ws_world sv))" using assms(3) by auto
  with assms(2) ws_step.recv [OF assms(3,4), of srvCb cbs "Read_data buf"]
  have "sys_step srvCb cbs mhs env sv (sv\<lparr>ws_world := ?w\<rparr>)" by (rule on_websocket)
  from sys_next [OF assms(1) this] show ?thesis using assms(3) by (simp add: ws_deliver_def del: ws_recv_cb.simps)
qed

lemma recv_not_reopened: "readyState (ws_recv_cb cb ev s) = OPEN \<Longrightarrow> readyState s = OPEN"
  using recv.operation_tracked [where s = s and cbs = cb and ev = ev] by (auto simp: tracked_def)

lemma recvs_not_reopened:
  "readyState (foldl (\<lambda>s d. ws_recv_cb cb (Read_data d) s) s bufs) = OPEN \<Longrightarrow> readyState s = OPEN"
proof (induction bufs arbitrary: s)
  case (Cons d bufs)
  from Cons.prems have "readyState (foldl (\<lambda>s d. ws_recv_cb cb (Read_data d) s) (ws_recv_cb cb (Read_data d) s) bufs) = OPEN"
    by (simp only: foldl.simps)
  from recv_not_reopened [OF Cons.IH [OF this]] show ?case .
qed simp

lemma ws_delivers:
  assumes "sys_reachable srvCb cbs mhs env sv" "\<not> terminated sv" "ws_objs (ws_world sv) sid = Some s"
    "readyState (foldl (\<lambda>s d. ws_recv_cb (cbs sid) (Read_data d) s) s bufs) = OPEN"
  shows "sys_reachable srvCb cbs mhs env (foldl (ws_deliver (cbs sid) sid) sv bufs)"
    and "ws_objs (ws_world (foldl (ws_deliver (cbs sid) sid) sv bufs))
      = (ws_objs (ws_world sv))(sid \<mapsto> foldl (\<lambda>s d. ws_recv_cb (cbs sid) (Read_data d) s) s bufs)"
proof -
  have "sys_reachable srvCb cbs mhs env (foldl (ws_deliver (cbs sid) sid) sv bufs)
    \<and> ws_objs (ws_world (foldl (ws_deliver (cbs sid) sid) sv bufs))
      = (ws_objs (ws_world sv))(sid \<mapsto> foldl (\<lambda>s d. ws_recv_cb (cbs sid) (Read_data d) s) s bufs)"
    using assms
  proof (induction bufs arbitrary: sv s)
    case Nil
    then show ?case by (simp add: fun_upd_idem)
  next
    case (Cons d bufs)
    let ?sv = "ws_deliver (cbs sid) sid sv d"
    have "readyState s = OPEN" using recvs_not_reopened [OF Cons.prems(4)] .
    from ws_deliver_step [OF Cons.prems(1-3) this] have "sys_reachable srvCb cbs mhs env ?sv" .
    moreover have objs: "ws_objs (ws_world ?sv) = (ws_objs (ws_world sv))(sid \<mapsto> ws_recv_cb (cbs sid) (Read_data d) s)"
      using Cons.prems(3) by (simp add: ws_deliver_def del: ws_recv_cb.simps)
    ultimately show ?case
      using Cons.IH [of ?sv "ws_recv_cb (cbs sid) (Read_data d) s"] Cons.prems(2,4)
      by (simp add: fun_eq_iff del: ws_recv_cb.simps)
  qed
  then show "sys_reachable srvCb cbs mhs env (foldl (ws_deliver (cbs sid) sid) sv bufs)"
    and "ws_objs (ws_world (foldl (ws_deliver (cbs sid) sid) sv bufs))
      = (ws_objs (ws_world sv))(sid \<mapsto> foldl (\<lambda>s d. ws_recv_cb (cbs sid) (Read_data d) s) s bufs)"
    by blast+
qed

section \<open>The hand-over inside a run of the program\<close>

lemma handover:
  fixes status :: int
  assumes "sys_reachable srvCb cbs mhs env sv" "conns sv sid = Some c" "\<not> terminated sv" "idle c"
    "recv_alloc_cb (m_recvBuf (sess c)) suggested = Some len" "length (request_text m tgt hs) \<le> unat len"
    "request_ok mhs m tgt hs" "wants_upgrade hs" "connection_upgrade hs"
    "calculate_accept_key (sha1_of env) (bio_of env) (client_key_of (request_of m 1 1 tgt hs [] (m_req (sess c)))) = Inr k"
  defines "sv2 \<equiv> write_complete env sid status (deliver mhs env sid len (request_text m tgt hs) sv)"
  obtains c2 where "sys_reachable srvCb cbs mhs env sv2"
    "sv2 = sv\<lparr>conns := (conns sv)(sid \<mapsto> c2), m_sessions := removeSession sid (m_sessions sv),
       ws_world := Ws_Server.onUpgrade srvCb (cbs sid) sid len (ws_world sv)\<rparr>"
    "\<not> live c2" "closes c2 = 0" "m_recvBuf (sess c2) = 0" "resps c2 = resps c @ [handshake_reply k (hdr_order env)]"
proof -
  let ?req = "request_text m tgt hs"
  let ?sv1 = "deliver mhs env sid len ?req sv"
  have ok: "server_ok sv" "onUpgradeCb sv = Some (ws_upgrade srvCb cbs)"
    using sys_reachable_ok [OF assms(1)] by (simp_all add: sys_ok_def)
  then have conn: "reading c" "closes c = 0" using assms(2,4) by (auto simp: server_ok_def conn_ok_def idle_def)
  have "len \<noteq> 0" using assms(6) by auto
  then obtain c1 where "deliver mhs env sid len (?req @ []) sv = sv\<lparr>conns := (conns sv)(sid \<mapsto> c1)\<rparr>"
    and c1: "resps c1 = resps c @ [handshake_reply k (hdr_order env)]" "wq c1 = [length (resps c)]"
      "live c1" "\<not> crashed c1" "closes c1 = closes c" "m_recvBuf (sess c1) = len" "upgraded c1 = upgraded c"
    by (rule deliver_upgrade [OF assms(2,3,4) _ assms(7-10)])
  then have sv1: "?sv1 = sv\<lparr>conns := (conns sv)(sid \<mapsto> c1)\<rparr>" by simp
  have "http_step mhs env sv ?sv1"
    using http_step.received [OF assms(3,2) conn(1) assms(5), of "Read_data ?req" mhs env] assms(6)
    by (simp add: deliver_def)
  moreover have s1: "conns ?sv1 sid = Some c1" "\<not> terminated ?sv1" "distinct (m_sessions ?sv1)"
    "onUpgradeCb ?sv1 = Some (ws_upgrade srvCb cbs)"
    unfolding sv1 using assms(3) ok by (simp_all add: server_ok_def)
  moreover have "http_step mhs env ?sv1 sv2" unfolding sv2_def
    by (rule http_step.written [OF s1(2,1)]) (simp add: c1(2))
  ultimately have reach: "sys_reachable srvCb cbs mhs env sv2" using assms(1) by (blast intro: sys_next on_http)
  have sent: "m_onSent (resps c1 ! length (resps c)) = Sent_upgrade" using c1(1) by (simp add: handshake_reply_def)
  have up: "ws_upgrade srvCb cbs sid (sess c1) (ws_world ?sv1)
      = ((sess c1)\<lparr>m_recvBuf := 0\<rparr>, Ws_Server.onUpgrade srvCb (cbs sid) sid len (ws_world sv))"
    unfolding sv1 using c1(6) by (simp add: ws_upgrade_def transferBufferToWsSession_def)
  let ?c2 = "c1\<lparr>wq := [], reading := False, sess := (sess c1)\<lparr>m_recvBuf := 0\<rparr>, upgraded := True, live := False\<rparr>"
  have "sv2 = sv\<lparr>conns := (conns sv)(sid \<mapsto> ?c2), m_sessions := removeSession sid (m_sessions sv),
      ws_world := Ws_Server.onUpgrade srvCb (cbs sid) sid len (ws_world sv)\<rparr>"
    unfolding sv2_def write_complete_upgrade [OF s1(1) c1(2) sent c1(3,4) s1(2-4) up] by (simp add: sv1)
  then show ?thesis by (rule that [of ?c2, OF reach]) (use c1 conn in simp_all)
qed

section \<open>A client of the running program\<close>

text \<open>
  C2. A WebSocket client, end to end. In any reachable state of the whole program, a client on an idle
  connection sends an upgrade request, the write of its answer completes, and the client sends any list of
  well-formed messages other than close frames, cut into reads in any way. Then the program is in a
  reachable state again in which the client was sent the switching-protocols response with the accept key of
  RFC 6455 and nothing else by the HTTP server, its socket was never closed and belongs to the WebSocket
  server alone; its session has started to read, has given the application every message once and in order,
  sent a text frame for every answer and a pong for every ping, and is OPEN; and no other client's
  connection or session has changed.
\<close>

theorem websocket_client_end_to_end:
  fixes status :: int
  assumes "sys_reachable None cbs mhs env sv" "conns sv sid = Some c" "\<not> terminated sv" "idle c"
    "recv_alloc_cb (m_recvBuf (sess c)) suggested = Some len" "length (request_text m tgt hs) \<le> unat len"
    "request_ok mhs m tgt hs" "wants_upgrade hs" "connection_upgrade hs"
    "\<And>t. length (sha1_of env t) = 20" "\<And>bs. bs \<noteq> [] \<Longrightarrow> bio_of env bs = Some (base64 bs)" "\<And>hs. mset (hdr_order env hs) = mset hs"
    "cbs sid = answering reply" "list_all message_ok ms" "\<forall>x \<in> set ms. fst x \<noteq> WS_CLOSE"
    "concat bufs = concat (map wire_message ms)"
  defines "sv' \<equiv> foldl (ws_deliver (cbs sid) sid)
      (write_complete env sid status (deliver mhs env sid len (request_text m tgt hs) sv)) bufs"
    and "key \<equiv> client_key_of (request_of m 1 1 tgt hs [] (m_req (sess c)))"
  shows "sys_reachable None cbs mhs env sv' \<and> \<not> terminated sv'
    \<and> (\<exists>c' r x. conns sv' sid = Some c' \<and> \<not> live c' \<and> closes c' = 0 \<and> resps c' = resps c @ [r] \<and> writes (resp r) = [x]
         \<and> read_response (wire x) = Some (bstr ''HTTP/1.1 101 Web Socket Protocol Handshake'',
             hdr_order env (handshake_headers (base64 (sha1_of env (key @ WS_GUID)))) @ [(CL, bstr ''0'')], [], []))
    \<and> (\<exists>s. ws_objs (ws_world sv') sid = Some s \<and> readyState s = OPEN
         \<and> io s = fold (answer reply) (map message_text ms) [Io_ReadStart])
    \<and> sid \<in> set (m_wsSessions (ws_world sv')) \<and> sid \<notin> set (m_sessions sv')
    \<and> (\<forall>j. j \<noteq> sid \<longrightarrow> conns sv' j = conns sv j \<and> ws_objs (ws_world sv') j = ws_objs (ws_world sv) j)"
proof -
  let ?k = "base64 (sha1_of env (key @ WS_GUID))"
  let ?sv2 = "write_complete env sid status (deliver mhs env sid len (request_text m tgt hs) sv)"
  let ?s = "connect (answering reply) (WsSession_init len)"
  let ?t = "foldl (\<lambda>s d. ws_recv_cb (answering reply) (Read_data d) s) ?s bufs"
  have "sha1_of env (key @ WS_GUID) \<noteq> []" using assms(10) [of "key @ WS_GUID"] by auto
  then have k: "calculate_accept_key (sha1_of env) (bio_of env) key = Inr ?k"
    using assms(10,11) by (simp add: calculate_accept_key_def base64_encode_def SHA_DIGEST_LENGTH_def)
  obtain c2 where reach: "sys_reachable None cbs mhs env ?sv2"
    and sv2: "?sv2 = sv\<lparr>conns := (conns sv)(sid \<mapsto> c2), m_sessions := removeSession sid (m_sessions sv),
       ws_world := Ws_Server.onUpgrade None (cbs sid) sid len (ws_world sv)\<rparr>"
    and c2: "\<not> live c2" "closes c2 = 0" "resps c2 = resps c @ [handshake_reply ?k (hdr_order env)]"
    by (rule handover [OF assms(1-9) k [unfolded key_def], where status = status]) (simp add: key_def)
  have r: "\<exists>x. writes (resp (handshake_reply ?k (hdr_order env))) = [x]
      \<and> read_response (wire x) = Some (bstr ''HTTP/1.1 101 Web Socket Protocol Handshake'',
          hdr_order env (handshake_headers ?k) @ [(CL, bstr ''0'')], [], [])"
    using handshake_reply_reads [OF assms(12) base64_clean, where rest = "[]"] by (metis append_Nil2)
  have s: "readyState ?s = OPEN" "io ?s = [Io_ReadStart]" "between_frames False (m_parser ?s)"
    by (simp_all add: connect_answering WsSession_init_def between_frames_def websocket_parser_init_def)
  note tr = conversation_trace [OF s(1,3) assms(14-16), of reply, unfolded s(2)]
  have two: "\<not> terminated ?sv2" "ws_objs (ws_world ?sv2) = (ws_objs (ws_world sv))(sid \<mapsto> ?s)" "conns ?sv2 = (conns sv)(sid \<mapsto> c2)"
    unfolding sv2 using assms(3) by (simp_all add: Ws_Server.onUpgrade_def assms(13) Let_def)
  have obj: "ws_objs (ws_world ?sv2) sid = Some ?s" using two(2) by simp
  have "sys_reachable None cbs mhs env sv'" and w: "ws_objs (ws_world sv') = (ws_objs (ws_world ?sv2))(sid \<mapsto> ?t)"
    using ws_delivers [OF reach two(1) obj, of bufs] tr(1) unfolding sv'_def assms(13) by simp_all
  moreover have "conns sv' = conns ?sv2" "terminated sv' = terminated ?sv2" by (simp_all add: sv'_def)
  moreover have "sid \<in> set (m_wsSessions (ws_world sv'))" "sid \<notin> set (m_sessions sv')"
    using sys_reachable_ok [OF calculation(1)] calculation(2,3) two(3) c2(1) w tr(1)
    by (auto simp: sys_ok_def table_ok_def server_ok_def)
  ultimately show ?thesis using two c2 r tr by simp
qed
text \<open>The first client of a program whose application echoes every message: it says hi and pings.\<close>

abbreviation echo_program :: "WsServer HttpServer" where
  "echo_program \<equiv> one_client (sys_init None (\<lambda>_. answering (\<lambda>_ pl. [pl])))"

lemma echo_program:
  "sys_reachable None (\<lambda>_. answering (\<lambda>_ pl. [pl])) HTTP_MAX_HEADER_SIZE plain_env echo_program"
  "conns echo_program 7 = Some ((upd_req (set_ip (Peer_Ip4 [49] 80)) conn_init)\<lparr>reading := True\<rparr>)"
  "\<not> terminated echo_program" "ws_objs (ws_world echo_program) = Map.empty"
proof -
  have init: "sys_init None cb = server0 (Some (ws_upgrade None cb)) WsServer_init" for cb
    by (simp add: sys_init_def set_onUpgrade_def server0_def)
  have "http_reachable HTTP_MAX_HEADER_SIZE plain_env (sys_init None (\<lambda>_. answering (\<lambda>_ pl. [pl]))) echo_program"
    unfolding init one_client_def by (rule one_connection)
  then show "sys_reachable None (\<lambda>_. answering (\<lambda>_ pl. [pl])) HTTP_MAX_HEADER_SIZE plain_env echo_program"
    by (rule http_run_is_sys_run)
  show "conns echo_program 7 = Some ((upd_req (set_ip (Peer_Ip4 [49] 80)) conn_init)\<lparr>reading := True\<rparr>)"
    "\<not> terminated echo_program"
    unfolding init by (rule one_client_conn)+
  show "ws_objs (ws_world echo_program) = Map.empty"
    by (simp add: init one_client_def handle_connect_def upd_conn_def Let_def server0_def WsServer_init_def)
qed

theorem websocket_client_end_to_end_witness:
  "\<exists>s. ws_objs (ws_world (foldl (ws_deliver (answering (\<lambda>_ pl. [pl])) 7)
       (write_complete plain_env 7 0 (deliver HTTP_MAX_HEADER_SIZE plain_env 7 65536
          (request_text HTTP_GET [47] upgrade_lines) echo_program))
       [wire_message (WS_TEXT, [([1, 2, 3, 4], [72, 105])]), wire_message (WS_PING, [([0, 0, 0, 0], [1])])])) 7 = Some s
     \<and> readyState s = OPEN
     \<and> io s = [Io_ReadStart, Io_OnMessage WS_TEXT [72, 105], Io_UvWrite (text_frame [72, 105]), Io_UvWrite [0x8A, 0x00]]"
proof -
  let ?ms = "[(WS_TEXT, [([1, 2, 3, 4], [72, 105])]), (WS_PING, [([0, 0, 0, 0], [1])])] :: (byte \<times> (bytes \<times> bytes) list) list"
  let ?c = "(upd_req (set_ip (Peer_Ip4 [49] 80)) conn_init)\<lparr>reading := True\<rparr>"
  have al: "recv_alloc_cb (m_recvBuf (sess ?c)) 65536 = Some 65536"
    by (simp add: upd_req_def upd_sess_def conn_init_def Session_init_def recv_alloc_cb_def HTTP_DEFAULT_RECV_BUF_SIZE_def)
  have "length (request_text HTTP_GET [47] upgrade_lines) \<le> 300" by code_simp
  then have len: "length (request_text HTTP_GET [47] upgrade_lines) \<le> unat (65536 :: size_t)" by simp
  have ms: "list_all message_ok ?ms" "\<forall>x \<in> set ?ms. fst x \<noteq> WS_CLOSE"
    "concat (map wire_message ?ms) = concat (map wire_message ?ms)"
    by (simp_all add: message_ok_def fragment_ok_def WsCode_defs)
  from websocket_client_end_to_end [OF echo_program(1-3) one_client_conn(3) al len upgrade_request plain_env_crypto(1-3)
      refl ms, where status = 0]
  show ?thesis by (simp add: message_text_def answer_def WsCode_defs)
qed

end
