(* ===== verification/Lept_Json.thy ===== *)
theory Lept_Json
  imports Http_Resp
begin

text \<open>
  JSON values, their parser and their printer (\<open>src/third-party/leptjson/leptjson.h\<close> and
  \<open>leptjson.cpp\<close>), which the WebSocket sessions, the JSON responses and the tokens go through. Doubles are
  a parameter: \<open>fmt\<close> is \<open>snprintf\<close> with \<open>%.17g\<close>, and \<open>dconv\<close> the converter of double-conversion, \<open>None\<close> when
  it gives an infinity or NaN. \<open>char\<close> is signed, as it is on the x86-64 targets.

  A position in the text is the rest of the text from there on. The text ends in a NUL and no function
  looks further than one, as the properties below use; reading at the very end gives NUL, as
  \<open>std::string\<close> promises. The mutual recursion of the parser is bounded by fuel, of which \<open>lept_parse\<close>
  supplies enough for every text (\<open>json_parse_total\<close>).
\<close>

unbundle bit_operations_syntax

section \<open>Values\<close>

datatype lept_type = T_null | T_boolean | T_number | T_integer | T_string | T_array | T_object

datatype 'd lept_value =
    L_null
  | L_boolean bool
  | L_number 'd
  | L_integer u32
  | L_string bytes
  | L_array "'d lept_value list"
  | L_object "(bytes \<times> 'd lept_value) list"

fun get_type :: "'d lept_value \<Rightarrow> lept_type" where
  "get_type L_null = T_null"
| "get_type (L_boolean _) = T_boolean"
| "get_type (L_number _) = T_number"
| "get_type (L_integer _) = T_integer"
| "get_type (L_string _) = T_string"
| "get_type (L_array _) = T_array"
| "get_type (L_object _) = T_object"

datatype lept_code =
    LEPT_PARSE_OK
  | LEPT_PARSE_EXPECT_VALUE
  | LEPT_PARSE_INVALID_VALUE
  | LEPT_PARSE_ROOT_NOT_SINGULAR
  | LEPT_PARSE_NUMBER_TOO_BIG
  | LEPT_PARSE_MISS_QUOTATION_MARK
  | LEPT_PARSE_INVALID_STRING_ESCAPE
  | LEPT_PARSE_INVALID_STRING_CHAR
  | LEPT_PARSE_INVALID_UNICODE_HEX
  | LEPT_PARSE_INVALID_UNICODE_SURROGATE
  | LEPT_PARSE_MISS_COMMA_OR_SQUARE_BRACKET
  | LEPT_PARSE_MISS_KEY
  | LEPT_PARSE_MISS_COLON
  | LEPT_PARSE_MISS_COMMA_OR_CURLY_BRACKET

text \<open>
  \<open>std::map\<close>: the entries in the order of the keys, which is that of unsigned characters. \<open>insert\<close> keeps
  the entry that is there.
\<close>

fun obj_insert :: "bytes \<Rightarrow> 'v \<Rightarrow> (bytes \<times> 'v) list \<Rightarrow> (bytes \<times> 'v) list" where
  "obj_insert k v [] = [(k, v)]"
| "obj_insert k v ((k', v') # kvs) =
     (if k = k' then (k', v') # kvs
      else if ord_class.lexordp k k' then (k, v) # (k', v') # kvs
      else (k', v') # obj_insert k v kvs)"

text \<open>The constructor from a braced list: an object when every element is a pair that starts with a string.\<close>

fun pair_of :: "'d lept_value \<Rightarrow> (bytes \<times> 'd lept_value) option" where
  "pair_of (L_array [L_string k, v]) = Some (k, v)"
| "pair_of _ = None"

definition lept_value_of_list :: "'d lept_value list \<Rightarrow> 'd lept_value" where
  "lept_value_of_list xs =
     (if list_all (\<lambda>x. pair_of x \<noteq> None) xs
      then L_object (fold (\<lambda>x mp. case pair_of x of None \<Rightarrow> mp | Some (k, v) \<Rightarrow> obj_insert k v mp) xs [])
      else L_array xs)"

section \<open>Printing\<close>

abbreviation (input) QUOTE :: byte where "QUOTE \<equiv> 0x22"
abbreviation (input) BACKSLASH :: byte where "BACKSLASH \<equiv> 0x5C"
abbreviation (input) COMMA :: byte where "COMMA \<equiv> 0x2C"

definition hex_digit :: "nat \<Rightarrow> byte" where
  "hex_digit n = (if n < 10 then 48 + of_nat n else 55 + of_nat n)"

fun hex_text :: "nat \<Rightarrow> bytes" where
  "hex_text n = (if n < 16 then [hex_digit n] else hex_text (n div 16) @ [hex_digit (n mod 16)])"

declare hex_text.simps [simp del]

text \<open>\<open>snprintf(buff, 7, "\\u%04X", ch)\<close>, where \<open>ch\<close> is promoted to \<open>int\<close> and read as unsigned.\<close>

definition unicode_escape :: "byte \<Rightarrow> bytes" where
  "unicode_escape ch =
     (let h = hex_text (unat (scast ch :: u32))
      in take 6 ([BACKSLASH, 0x75] @ replicate (4 - length h) 48 @ h))"

definition stringify_char :: "byte \<Rightarrow> bytes" where
  "stringify_char ch =
     (if ch = QUOTE then [BACKSLASH, QUOTE]
      else if ch = 0x2F then [BACKSLASH, 0x2F]
      else if ch = BACKSLASH then [BACKSLASH, BACKSLASH]
      else if ch = 8 then [BACKSLASH, 0x62]
      else if ch = 9 then [BACKSLASH, 0x74]
      else if ch = 13 then [BACKSLASH, 0x72]
      else if ch = 12 then [BACKSLASH, 0x66]
      else if ch = 10 then [BACKSLASH, 0x6E]
      else if sint ch < 0x20 then unicode_escape ch
      else [ch])"

definition stringify_string :: "bytes \<Rightarrow> bytes" where
  "stringify_string s = QUOTE # concat (map stringify_char s) @ [QUOTE]"

text \<open>\<open>snprintf\<close> with \<open>%d\<close>\<close>

definition int_text :: "u32 \<Rightarrow> bytes" where
  "int_text i = (if sint i < 0 then 0x2D # to_string (nat (- sint i)) else to_string (nat (sint i)))"

text \<open>The items of an array or object: each but the first is preceded by a comma.\<close>

fun items :: "bool \<Rightarrow> bytes list \<Rightarrow> bytes" where
  "items flag [] = []"
| "items flag (x # xs) = (if flag then [COMMA] else []) @ x @ items True xs"

fun stringify_value :: "('d \<Rightarrow> bytes) \<Rightarrow> 'd lept_value \<Rightarrow> bytes" where
  "stringify_value fmt L_null = bstr ''null''"
| "stringify_value fmt (L_boolean b) = (if b then bstr ''true'' else bstr ''false'')"
| "stringify_value fmt (L_number d) = fmt d"
| "stringify_value fmt (L_integer i) = int_text i"
| "stringify_value fmt (L_string s) = stringify_string s"
| "stringify_value fmt (L_array vs) = 0x5B # items False (map (stringify_value fmt) vs) @ [0x5D]"
| "stringify_value fmt (L_object kvs) =
     0x7B # items False (map (\<lambda>(k, v). QUOTE # k @ [QUOTE, 0x3A] @ stringify_value fmt v) kvs) @ [0x7D]"

section \<open>The parser's context\<close>

record lept_context =
  jrest :: bytes
  str_top :: nat
  stk_str :: bytes

definition peek :: "bytes \<Rightarrow> byte" where
  "peek xs = (case xs of [] \<Rightarrow> 0 | x # _ \<Rightarrow> x)"

definition push_char :: "byte \<Rightarrow> lept_context \<Rightarrow> lept_context" where
  "push_char ch c = c\<lparr>str_top := str_top c + 1, stk_str := stk_str c @ [ch]\<rparr>"

definition blank :: "byte \<Rightarrow> bool" where
  "blank ch \<longleftrightarrow> ch = 32 \<or> ch = 9 \<or> ch = 10 \<or> ch = 13"

definition parse_whitespace :: "lept_context \<Rightarrow> lept_context" where
  "parse_whitespace c = c\<lparr>jrest := dropWhile blank (jrest c)\<rparr>"

type_synonym 'a parsed = "(lept_code + 'a) \<times> lept_context"

definition parse_literal :: "bytes \<Rightarrow> 'd lept_value \<Rightarrow> lept_context \<Rightarrow> 'd lept_value parsed" where
  "parse_literal lit v c =
     (if take (length lit) (jrest c) = lit then (Inr v, c\<lparr>jrest := drop (length lit) (jrest c)\<rparr>)
      else (Inl LEPT_PARSE_INVALID_VALUE, c))"

section \<open>Numbers\<close>

definition ISDIGIT :: "byte \<Rightarrow> bool" where "ISDIGIT ch \<longleftrightarrow> 48 \<le> ch \<and> ch \<le> 57"

definition ISDIGIT1TO9 :: "byte \<Rightarrow> bool" where "ISDIGIT1TO9 ch \<longleftrightarrow> 49 \<le> ch \<and> ch \<le> 57"

text \<open>The lexical scan: whether the number is an integer, and what follows it.\<close>

definition scan_int :: "bytes \<Rightarrow> bytes option" where
  "scan_int xs =
     (let xs = (if peek xs = 0x2D then tl xs else xs)
      in if peek xs = 48 then Some (tl xs)
         else if \<not> ISDIGIT1TO9 (peek xs) then None
         else Some (dropWhile ISDIGIT (tl xs)))"

definition scan_frac :: "bool \<times> bytes \<Rightarrow> (bool \<times> bytes) option" where
  "scan_frac = (\<lambda>(is_int, xs).
     if peek xs = 0x2E then
       (let xs = tl xs in if \<not> ISDIGIT (peek xs) then None else Some (False, dropWhile ISDIGIT (tl xs)))
     else Some (is_int, xs))"

definition scan_exp :: "bool \<times> bytes \<Rightarrow> (bool \<times> bytes) option" where
  "scan_exp = (\<lambda>(is_int, xs).
     if peek xs = 0x65 \<or> peek xs = 0x45 then
       (let xs = tl xs; xs = (if peek xs = 0x2B \<or> peek xs = 0x2D then tl xs else xs)
        in if \<not> ISDIGIT (peek xs) then None else Some (False, dropWhile ISDIGIT (tl xs)))
     else Some (is_int, xs))"

definition scan_number :: "bytes \<Rightarrow> (bool \<times> bytes) option" where
  "scan_number xs =
     (case scan_int xs of
        None \<Rightarrow> None
      | Some xs \<Rightarrow> (case scan_frac (True, xs) of None \<Rightarrow> None | Some r \<Rightarrow> scan_exp r))"

text \<open>\<open>std::stoll\<close> of an optional minus sign and digits; \<open>None\<close> is \<open>out_of_range\<close>.\<close>

definition stoll :: "bytes \<Rightarrow> int option" where
  "stoll l =
     (let n = (if peek l = 0x2D then - int (parse_dec (tl l)) else int (parse_dec l))
      in if - (2 ^ 63) \<le> n \<and> n < 2 ^ 63 then Some n else None)"

text \<open>\<open>set_integer\<close> takes an \<open>int\<close>: the \<open>long long\<close> is truncated.\<close>

definition parse_number :: "(bytes \<Rightarrow> 'd option) \<Rightarrow> lept_context \<Rightarrow> 'd lept_value parsed" where
  "parse_number dconv c =
     (case scan_number (jrest c) of
        None \<Rightarrow> (Inl LEPT_PARSE_INVALID_VALUE, c)
      | Some (is_integer, xs) \<Rightarrow>
          let lexeme = take (length (jrest c) - length xs) (jrest c)
          in if is_integer then
               (case stoll lexeme of
                  None \<Rightarrow> (Inl LEPT_PARSE_NUMBER_TOO_BIG, c)
                | Some n \<Rightarrow> (Inr (L_integer (word_of_int n)), c\<lparr>jrest := xs\<rparr>))
             else
               (case dconv lexeme of
                  None \<Rightarrow> (Inl LEPT_PARSE_NUMBER_TOO_BIG, c)
                | Some d \<Rightarrow> (Inr (L_number d), c\<lparr>jrest := xs\<rparr>)))"

section \<open>Strings\<close>

text \<open>The digits accepted run to \<open>Z\<close> and \<open>z\<close>.\<close>

definition hex_value :: "byte \<Rightarrow> u32 option" where
  "hex_value ch =
     (if 48 \<le> ch \<and> ch \<le> 57 then Some (ucast (ch - 48))
      else if 65 \<le> ch \<and> ch \<le> 90 then Some (ucast (ch - 55))
      else if 97 \<le> ch \<and> ch \<le> 122 then Some (ucast (ch - 87))
      else None)"

fun hex_loop :: "nat \<Rightarrow> u32 \<Rightarrow> bytes \<Rightarrow> (u32 \<times> bytes) option" where
  "hex_loop 0 u xs = Some (u, xs)"
| "hex_loop (Suc i) u xs =
     (case hex_value (peek xs) of
        None \<Rightarrow> None
      | Some d \<Rightarrow> hex_loop i (push_bit 4 u OR d) (tl xs))"

definition parse_hex4 :: "bytes \<Rightarrow> (u32 \<times> bytes) option" where
  "parse_hex4 xs = hex_loop 4 0 xs"

text \<open>The assertion that \<open>u\<close> is at most 0x10FFFF is left out: no result of \<open>parse_unicode\<close> is above.\<close>

definition encode_utf8 :: "u32 \<Rightarrow> lept_context \<Rightarrow> lept_context" where
  "encode_utf8 u c =
     (if u \<le> 0x7F then push_char (ucast u) c
      else if u \<le> 0x7FF then
        push_char (ucast (0x80 OR u AND 0x3F)) (push_char (ucast (0xC0 OR (drop_bit 6 u AND 0xFF))) c)
      else if u \<le> 0xFFFF then
        push_char (ucast (0x80 OR u AND 0x3F)) (push_char (ucast (0x80 OR drop_bit 6 u AND 0x3F))
          (push_char (ucast (0xE0 OR drop_bit 12 u AND 0xFF)) c))
      else
        push_char (ucast (0x80 OR u AND 0x3F)) (push_char (ucast (0x80 OR drop_bit 6 u AND 0x3F))
          (push_char (ucast (0x80 OR drop_bit 12 u AND 0x3F)) (push_char (ucast (0xF0 OR drop_bit 18 u AND 0xFF)) c))))"

text \<open>The code point after \<open>\u\<close>, with its second half when it is a high surrogate.\<close>

definition parse_unicode :: "bytes \<Rightarrow> lept_code + u32 \<times> bytes" where
  "parse_unicode xs =
     (case parse_hex4 xs of
        None \<Rightarrow> Inl LEPT_PARSE_INVALID_UNICODE_HEX
      | Some (u, xs) \<Rightarrow>
          if 0xD800 \<le> u \<and> u \<le> 0xDBFF then
            (if peek xs \<noteq> BACKSLASH then Inl LEPT_PARSE_INVALID_UNICODE_SURROGATE
             else if peek (tl xs) \<noteq> 0x75 then Inl LEPT_PARSE_INVALID_UNICODE_SURROGATE
             else case parse_hex4 (tl (tl xs)) of
                    None \<Rightarrow> Inl LEPT_PARSE_INVALID_UNICODE_HEX
                  | Some (u2, xs) \<Rightarrow>
                      if u2 < 0xDC00 \<or> 0xDFFF < u2 then Inl LEPT_PARSE_INVALID_UNICODE_SURROGATE
                      else Inr ((push_bit 10 (u - 0xD800) OR (u2 - 0xDC00)) + 0x10000, xs))
          else Inr (u, xs))"

definition simple_escape :: "byte \<Rightarrow> byte option" where
  "simple_escape e =
     (if e = QUOTE then Some QUOTE else if e = BACKSLASH then Some BACKSLASH else if e = 0x2F then Some 0x2F
      else if e = 0x62 then Some 8 else if e = 0x74 then Some 9 else if e = 0x6E then Some 10
      else if e = 0x72 then Some 13 else if e = 0x66 then Some 12 else None)"

lemma hex_loop_length: "hex_loop i u xs = Some (v, ys) \<Longrightarrow> length ys \<le> length xs"
  by (induction i u xs rule: hex_loop.induct) (fastforce split: option.splits)+

lemma parse_unicode_length: "parse_unicode xs = Inr (u, ys) \<Longrightarrow> length ys \<le> length xs"
  by (fastforce simp: parse_unicode_def parse_hex4_def split: option.splits if_splits dest: hex_loop_length)

text \<open>
  The loop of \<open>parse_string\<close>, where \<open>head\<close> is \<open>str_top\<close> at its start. Only some of its error exits clear
  the string stack; none moves the position.
\<close>

function str_loop :: "nat \<Rightarrow> bytes \<Rightarrow> lept_context \<Rightarrow> bytes parsed" where
  "str_loop hd_top xs c =
     (let ch = peek xs; clear = c\<lparr>str_top := 0, stk_str := []\<rparr>
      in if ch = QUOTE then
           (Inr (stk_str c), c\<lparr>jrest := tl xs, str_top := hd_top, stk_str := []\<rparr>)
         else if ch = BACKSLASH then
           (let e = peek (tl xs)
            in case simple_escape e of
                 Some b \<Rightarrow> str_loop hd_top (tl (tl xs)) (push_char b c)
               | None \<Rightarrow>
                   if e = 0x75 then
                     (case parse_unicode (tl (tl xs)) of
                        Inl err \<Rightarrow> (Inl err, c)
                      | Inr (u, ys) \<Rightarrow> str_loop hd_top ys (encode_utf8 u c))
                   else (Inl LEPT_PARSE_INVALID_STRING_CHAR, c))
         else if ch = 0 then (Inl LEPT_PARSE_MISS_QUOTATION_MARK, clear)
         else if ch < 0x20 then (Inl LEPT_PARSE_INVALID_STRING_CHAR, clear)
         else str_loop hd_top (tl xs) (push_char ch c))"
  by pat_completeness auto
termination
  by (relation "measure (\<lambda>(_, xs, _). length xs)")
    (auto simp: peek_def split: list.splits dest!: parse_unicode_length)

declare str_loop.simps [simp del]

definition parse_string :: "lept_context \<Rightarrow> bytes parsed" where
  "parse_string c = str_loop (str_top c) (tl (jrest c)) c"

section \<open>Values, arrays and objects\<close>

definition jnext :: "lept_context \<Rightarrow> lept_context" where
  "jnext c = c\<lparr>jrest := tl (jrest c)\<rparr>"

fun parse_value :: "(bytes \<Rightarrow> 'd option) \<Rightarrow> nat \<Rightarrow> lept_context \<Rightarrow> 'd lept_value parsed option"
  and parse_array :: "(bytes \<Rightarrow> 'd option) \<Rightarrow> nat \<Rightarrow> 'd lept_value list \<Rightarrow> lept_context \<Rightarrow> 'd lept_value parsed option"
  and parse_object ::
    "(bytes \<Rightarrow> 'd option) \<Rightarrow> nat \<Rightarrow> (bytes \<times> 'd lept_value) list \<Rightarrow> lept_context \<Rightarrow> 'd lept_value parsed option" where
  "parse_value dconv 0 c = None"
| "parse_value dconv (Suc n) c =
     (let ch = peek (jrest c)
      in if ch = 0x74 then Some (parse_literal (bstr ''true'') (L_boolean True) c)
         else if ch = 0x66 then Some (parse_literal (bstr ''false'') (L_boolean False) c)
         else if ch = 0x6E then Some (parse_literal (bstr ''null'') L_null c)
         else if ch = 0 then Some (Inl LEPT_PARSE_EXPECT_VALUE, c)
         else if ch = QUOTE then
           (case parse_string c of (Inl e, c) \<Rightarrow> Some (Inl e, c) | (Inr s, c) \<Rightarrow> Some (Inr (L_string s), c))
         else if ch = 0x5B then
           (let c = parse_whitespace (jnext c)
            in if peek (jrest c) = 0x5D then Some (Inr (L_array []), jnext c) else parse_array dconv n [] c)
         else if ch = 0x7B then
           (let c = parse_whitespace (jnext c)
            in if peek (jrest c) = 0x7D then Some (Inr (L_object []), jnext c) else parse_object dconv n [] c)
         else Some (parse_number dconv c))"
| "parse_array dconv 0 arr c = None"
| "parse_array dconv (Suc n) arr c =
     (case parse_value dconv n c of
        None \<Rightarrow> None
      | Some (Inl e, c) \<Rightarrow> Some (Inl e, c)
      | Some (Inr v, c) \<Rightarrow>
          let arr = arr @ [v]; c = parse_whitespace c
          in if peek (jrest c) = COMMA then parse_array dconv n arr (parse_whitespace (jnext c))
             else if peek (jrest c) = 0x5D then Some (Inr (L_array arr), jnext c)
             else Some (Inl LEPT_PARSE_MISS_COMMA_OR_SQUARE_BRACKET, c))"
| "parse_object dconv 0 mp c = None"
| "parse_object dconv (Suc n) mp c =
     (if peek (jrest c) \<noteq> QUOTE then Some (Inl LEPT_PARSE_MISS_KEY, c)
      else case parse_string c of
             (Inl e, c) \<Rightarrow> Some (Inl e, c)
           | (Inr str, c) \<Rightarrow>
               let c = parse_whitespace c
               in if peek (jrest c) \<noteq> 0x3A then Some (Inl LEPT_PARSE_MISS_COLON, c)
                  else case parse_value dconv n (parse_whitespace (jnext c)) of
                         None \<Rightarrow> None
                       | Some (Inl e, c) \<Rightarrow> Some (Inl e, c)
                       | Some (Inr v, c) \<Rightarrow>
                           let mp = obj_insert str v mp; c = parse_whitespace c
                           in if peek (jrest c) = 0x7D then Some (Inr (L_object mp), jnext c)
                              else if peek (jrest c) = COMMA then parse_object dconv n mp (parse_whitespace (jnext c))
                              else Some (Inl LEPT_PARSE_MISS_COMMA_OR_CURLY_BRACKET, c))"

datatype 'd parse_outcome = Parsed lept_code "'d lept_value" | Assertion_failed | Out_of_fuel

text \<open>\<open>lept_value::parse\<close>. What follows a value is only looked at when the value was not parsed.\<close>

definition lept_parse :: "(bytes \<Rightarrow> 'd option) \<Rightarrow> bytes \<Rightarrow> 'd parse_outcome" where
  "lept_parse dconv json =
     (let c = parse_whitespace \<lparr>jrest = json @ [0], str_top = 0, stk_str = []\<rparr>
      in case parse_value dconv (2 * length json + 4) c of
           None \<Rightarrow> Out_of_fuel
         | Some (Inr v, c) \<Rightarrow> (if str_top c = 0 then Parsed LEPT_PARSE_OK v else Assertion_failed)
         | Some (Inl e, c) \<Rightarrow>
             let c = parse_whitespace c; e = (if length (jrest c) \<noteq> 1 then LEPT_PARSE_ROOT_NOT_SINGULAR else e)
             in if str_top c = 0 then Parsed e L_null else Assertion_failed)"

section \<open>Every text is parsed in bounded time\<close>

lemma peek_simps [simp]: "peek [] = 0" "peek (x # xs) = x"
  by (simp_all add: peek_def)

lemma parse_whitespace_simps [simp]:
  "str_top (parse_whitespace c) = str_top c" "stk_str (parse_whitespace c) = stk_str c"
  "jrest (parse_whitespace c) = dropWhile blank (jrest c)"
  by (simp_all add: parse_whitespace_def)

lemma jnext_simps [simp]:
  "jrest (jnext c) = tl (jrest c)" "str_top (jnext c) = str_top c" "stk_str (jnext c) = stk_str c"
  by (simp_all add: jnext_def)

lemma str_loop_length: "str_loop h xs c = (Inr s, c') \<Longrightarrow> length (jrest c') < length xs"
proof (induction h xs c rule: str_loop.induct)
  case (1 h xs c)
  show ?case
  proof (cases xs)
    case Nil
    with 1(4) show ?thesis by (subst (asm) str_loop.simps) (simp add: Let_def)
  next
    case (Cons ch ys)
    then show ?thesis
      using 1 by (subst (asm) (4) str_loop.simps)
        (force simp: Let_def split: if_splits option.splits sum.splits prod.splits dest: parse_unicode_length)
  qed
qed

lemma parse_string_length:
  assumes "parse_string c = (Inr s, c')" "peek (jrest c) = QUOTE"
  shows "length (jrest c') < length (jrest c)"
  using str_loop_length [OF assms(1) [unfolded parse_string_def]] assms(2) by (cases "jrest c") auto

lemma dropWhile_length [simp]: "length (dropWhile P xs) \<le> length xs"
  by (induction xs) auto

lemma scan_int_length: "scan_int xs = Some ys \<Longrightarrow> length ys < length xs"
  by (cases xs; cases "tl xs")
    (auto simp: scan_int_def Let_def ISDIGIT1TO9_def less_Suc_eq_le le_SucI split: if_splits)

lemma scan_frac_length: "scan_frac (b, xs) = Some (b', ys) \<Longrightarrow> length ys \<le> length xs"
  by (cases xs; cases "tl xs") (auto simp: scan_frac_def le_SucI split: if_splits)

lemma scan_exp_length: "scan_exp (b, xs) = Some (b', ys) \<Longrightarrow> length ys \<le> length xs"
  by (cases xs; cases "tl xs"; cases "tl (tl xs)") (auto simp: scan_exp_def Let_def le_SucI split: if_splits)

declare dropWhile_length [simp del]

lemma parse_number_length:
  assumes "parse_number dconv c = (Inr v, c')"
  shows "length (jrest c') < length (jrest c)"
proof -
  obtain b xs where s: "scan_number (jrest c) = Some (b, xs)" "jrest c' = xs"
    using assms by (auto simp: parse_number_def Let_def split: option.splits if_splits)
  then obtain ys b' zs where "scan_int (jrest c) = Some ys" "scan_frac (True, ys) = Some (b', zs)" "scan_exp (b', zs) = Some (b, xs)"
    by (auto simp: scan_number_def split: option.splits)
  with s(2) show ?thesis using scan_int_length scan_frac_length scan_exp_length by fastforce
qed

lemma parse_literal_length:
  "parse_literal lit v c = (Inr w, c') \<Longrightarrow> lit \<noteq> [] \<Longrightarrow> length (jrest c') < length (jrest c)"
  by (auto simp: parse_literal_def split: if_splits)
    (metis diff_less length_greater_0_conv take_eq_Nil)

text \<open>With enough fuel the parser returns, and a value takes at least one character.\<close>

definition returns :: "nat \<Rightarrow> 'a parsed option \<Rightarrow> bool" where
  "returns k r \<longleftrightarrow> (\<exists>x c. r = Some (x, c) \<and> (\<forall>v. x = Inr v \<longrightarrow> length (jrest c) < k))"

lemma returns_Some [simp]: "returns k (Some (x, c)) \<longleftrightarrow> (\<forall>v. x = Inr v \<longrightarrow> length (jrest c) < k)"
  by (auto simp: returns_def)

lemma returns_mono: "returns k r \<Longrightarrow> k \<le> l \<Longrightarrow> returns l r"
  by (auto simp: returns_def)

lemma returns_token:
  "lit \<noteq> [] \<Longrightarrow> returns (length (jrest c)) (Some (parse_literal lit v c))"
  "returns (length (jrest c)) (Some (parse_number dconv c))"
  "peek (jrest c) = QUOTE \<Longrightarrow> returns (length (jrest c))
     (case parse_string c of (Inl e, c) \<Rightarrow> Some (Inl e, c) | (Inr s, c) \<Rightarrow> Some (Inr (f s), c))"
proof -
  have r: "returns k (Some p) \<longleftrightarrow> (\<forall>v. fst p = Inr v \<longrightarrow> length (jrest (snd p)) < k)" for k and p :: "'x parsed"
    by (cases p) simp
  show "returns (length (jrest c)) (Some (parse_number dconv c))" by (auto simp: r) (metis parse_number_length prod.collapse)
  show "lit \<noteq> [] \<Longrightarrow> returns (length (jrest c)) (Some (parse_literal lit v c))"
    by (auto simp: r) (metis parse_literal_length prod.collapse)
  show "peek (jrest c) = QUOTE \<Longrightarrow> returns (length (jrest c))
     (case parse_string c of (Inl e, c) \<Rightarrow> Some (Inl e, c) | (Inr s, c) \<Rightarrow> Some (Inr (f s), c))"
    by (auto split: prod.splits sum.splits dest: parse_string_length)
qed

lemma tl_blank: "length (dropWhile blank (tl xs)) \<le> length xs - 1"
  using dropWhile_length [of blank "tl xs"] by simp

lemma parse_returns:
  fixes dconv :: "bytes \<Rightarrow> 'd option"
  shows "2 * length (jrest c) + 1 \<le> n \<Longrightarrow> returns (length (jrest c)) (parse_value dconv n c)"
    and "2 * length (jrest c) + 2 \<le> n \<Longrightarrow> returns (length (jrest c)) (parse_array dconv n arr c)"
    and "2 * length (jrest c) + 2 \<le> n \<Longrightarrow> returns (length (jrest c)) (parse_object dconv n mp c)"
proof (induction dconv n c and dconv n arr c and dconv n mp c
    rule: parse_value_parse_array_parse_object.induct)
  case (2 dconv n c)
  let ?c = "parse_whitespace (jnext c)"
  show ?case
  proof (cases "peek (jrest c) = 0 \<or> jrest c = []")
    case True
    then show ?thesis by (auto simp: Let_def)
  next
    case False
    then obtain ch xs where pos: "jrest c = ch # xs" by (cases "jrest c") auto
    have len: "length (dropWhile blank xs) \<le> length xs" by (rule dropWhile_length)
    then have close: "length (jrest (jnext ?c)) < length (jrest c)" by (simp add: pos)
    have a: "returns (length (jrest c)) (parse_array dconv n [] ?c)" if "peek (jrest c) = 0x5B" "peek (jrest ?c) \<noteq> 0x5D"
      by (rule returns_mono [OF "2.IH"(1)]) (use that len pos "2.prems" in \<open>simp_all\<close>)
    have o: "returns (length (jrest c)) (parse_object dconv n [] ?c)" if "peek (jrest c) = 0x7B" "peek (jrest ?c) \<noteq> 0x7D"
      by (rule returns_mono [OF "2.IH"(2)]) (use that len pos "2.prems" in \<open>simp_all\<close>)
    show ?thesis
      using False a o close by (simp add: Let_def returns_token)
  qed
next
  case (4 dconv n arr c)
  from "4.IH"(1) "4.prems" obtain x d where v: "parse_value dconv n c = Some (x, d)"
    "\<And>w. x = Inr w \<Longrightarrow> length (jrest d) < length (jrest c)"
    by (auto simp: returns_def)
  show ?case
  proof (cases x)
    case (Inl e)
    with v show ?thesis by simp
  next
    case (Inr w)
    let ?d = "parse_whitespace d" and ?e = "parse_whitespace (jnext (parse_whitespace d))"
    have l: "length (jrest d) < length (jrest c)" "length (jrest ?d) \<le> length (jrest d)" using v(2) Inr dropWhile_length by simp_all
    have e: "length (jrest ?e) \<le> length (jrest d)" using l(2) tl_blank [of "jrest ?d"] by simp
    have "returns (length (jrest c)) (parse_array dconv n (arr @ [w]) ?e)" if "peek (jrest ?d) = COMMA"
    proof -
      have "jrest ?d \<noteq> []" using that by (cases "jrest ?d") (simp_all del: parse_whitespace_simps)
      then have "0 < length (jrest ?d)" by (simp del: parse_whitespace_simps)
      then have "length (jrest ?e) < length (jrest d)"
        using l(2) tl_blank [of "jrest ?d"] unfolding parse_whitespace_simps(3) jnext_simps(1) by linarith
      with that l "4.prems" show ?thesis
        by (intro returns_mono [OF "4.IH"(2) [OF v(1) [unfolded Inr] refl refl refl]]) simp_all
    qed
    with v Inr l show ?thesis by (auto simp: Let_def)
  qed
next
  case (6 dconv n mp c)
  obtain x d where s: "parse_string c = (x, d)" by (cases "parse_string c")
  let ?v = "parse_whitespace (jnext (parse_whitespace d))"
  show ?case
  proof (cases "peek (jrest c) = QUOTE \<and> (\<exists>str. x = Inr str) \<and> peek (dropWhile blank (jrest d)) = 0x3A")
    case False
    with s show ?thesis by (cases x) (auto simp: Let_def)
  next
    case True
    then obtain str where q: "peek (jrest c) = QUOTE" "x = Inr str" "peek (dropWhile blank (jrest d)) = 0x3A" by blast
    have d: "length (jrest d) < length (jrest c)" using parse_string_length s q(1,2) by blast
    then have l: "length (jrest ?v) < length (jrest c)"
      using tl_blank [of "dropWhile blank (jrest d)"] dropWhile_length [of blank "jrest d"] by simp
    have ih: "returns (length (jrest ?v)) (parse_value dconv n ?v)"
      by (rule "6.IH"(1) [OF _ s [symmetric] q(2) refl]) (use q l "6.prems" in simp_all)
    then obtain y e where v: "parse_value dconv n ?v = Some (y, e)"
      "\<And>w. y = Inr w \<Longrightarrow> length (jrest e) < length (jrest ?v)"
      by (auto simp: returns_def)
    show ?thesis
    proof (cases y)
      case (Inl err)
      with v s q show ?thesis by (simp add: Let_def)
    next
      case (Inr w)
      let ?e = "parse_whitespace e" and ?f = "parse_whitespace (jnext (parse_whitespace e))"
      have e: "length (jrest e) < length (jrest c)" "length (jrest ?e) \<le> length (jrest e)" using v(2) Inr l dropWhile_length by simp_all
      have "returns (length (jrest c)) (parse_object dconv n (obj_insert str w mp) ?f)"
        if "peek (jrest ?e) \<noteq> 0x7D" "peek (jrest ?e) = COMMA"
      proof -
        have "length (jrest ?f) \<le> length (jrest e)" using e(2) tl_blank [of "jrest ?e"] by simp
        with e(1) "6.prems" l v(2) Inr that q show ?thesis
          by (intro returns_mono [OF "6.IH"(2) [OF _ s [symmetric] q(2) refl _ v(1) [unfolded Inr] refl refl refl]]) simp_all
      qed
      with v s q Inr e show ?thesis by (auto simp: Let_def)
    qed
  qed
qed (simp_all add: returns_def)

text \<open>
  C25. The JSON parser returns on every text: the fuel \<open>lept_parse\<close> supplies, twice the length and a constant,
  is never used up.
\<close>

theorem json_parse_total:
  "lept_parse dconv json \<noteq> Out_of_fuel"
proof -
  let ?c = "parse_whitespace \<lparr>jrest = json @ [0], str_top = 0, stk_str = []\<rparr>"
  have "length (jrest ?c) \<le> length json + 1" using dropWhile_length [of blank "json @ [0]"] by simp
  then have "returns (length (jrest ?c)) (parse_value dconv (2 * length json + 4) ?c)"
    by (intro parse_returns(1)) linarith
  then show ?thesis
    by (auto simp: lept_parse_def Let_def returns_def simp del: parse_whitespace_simps split: sum.splits if_splits)
qed

end
