(* ===== verification/Json_Text.thy ===== *)
theory Json_Text
  imports Lept_Json
begin

text \<open>
  What becomes of a value that is printed and parsed again, by \<open>stringify\<close> and \<open>parse\<close> of \<open>lept_value\<close>.
\<close>

section \<open>Strings\<close>

text \<open>
  A character that is negative as a signed \<open>char\<close> is below 0x20, so it is printed as an escape, of which the
  buffer holds \<open>\uFFFF\<close>; this reads back as the encoding of U+FFFF.
\<close>

definition garble :: "byte \<Rightarrow> bytes" where
  "garble b = (if b < 0x80 then [b] else [0xEF, 0xBF, 0xBF])"

definition push_all :: "bytes \<Rightarrow> lept_context \<Rightarrow> lept_context" where
  "push_all bs c = c\<lparr>str_top := str_top c + length bs, stk_str := stk_str c @ bs\<rparr>"

lemma push_all_simps [simp]:
  "push_all [] c = c" "push_char b c = push_all [b] c" "push_all ys (push_all xs c) = push_all (xs @ ys) c"
  "jrest (push_all xs c) = jrest c" "stk_str (push_all xs c) = stk_str c @ xs" "str_top (push_all xs c) = str_top c + length xs"
  by (simp_all add: push_all_def push_char_def)

lemma hex_value_NUL [simp]: "hex_value 0 = None"
  by (simp add: hex_value_def)

lemma hex_loop_append: "hex_loop i u ys = Some (v, zs) \<Longrightarrow> hex_loop i u (ys @ xs) = Some (v, zs @ xs)"
proof (induction i u ys rule: hex_loop.induct)
  case (2 i u ys)
  then show ?case by (cases ys) (auto split: option.splits)
qed simp

lemma sint_byte: "sint (b :: byte) = (if b < 0x80 then uint b else uint b - 256)"
proof -
  have b: "0 \<le> uint b" "uint b < 256" using unsigned_less [where ?'a = int, of b] by simp_all
  have "(uint b + 128) mod 256 = (if uint b < 128 then uint b + 128 else uint b - 128)"
  proof (cases "uint b < 128")
    case False
    have "(uint b + 128) mod 256 = (uint b - 128 + 256) mod 256" by (simp add: algebra_simps)
    also have "\<dots> = uint b - 128" unfolding mod_add_self2 using False b by (intro mod_pos_pos_trivial) linarith+
    finally show ?thesis using False by simp
  qed (use b in simp)
  then show ?thesis
    by (simp add: sint_uint signed_take_bit_eq_take_bit_shift take_bit_eq_mod word_less_def)
qed

lemma hex_text_step: "16 \<le> n \<Longrightarrow> hex_text n = hex_text (n div 16) @ [hex_digit (n mod 16)]"
  by (subst hex_text.simps) simp

lemma hex_text_base: "n < 16 \<Longrightarrow> hex_text n = [hex_digit n]"
  by (subst hex_text.simps) simp

lemma hex_text_prefix:
  assumes "65536 \<le> n"
  obtains ds where "hex_text n = hex_text (n div 65536) @ ds"
proof -
  have "n div 16 div 16 div 16 div 16 = n div 65536" by (simp flip: div_mult2_eq)
  then have "hex_text n = hex_text (n div 65536) @ [hex_digit (n div 16 div 16 div 16 mod 16), hex_digit (n div 16 div 16 mod 16),
      hex_digit (n div 16 mod 16), hex_digit (n mod 16)]"
    using assms hex_text_step [of n] hex_text_step [of "n div 16"] hex_text_step [of "n div 16 div 16"]
      hex_text_step [of "n div 16 div 16 div 16"] by simp
  then show thesis by (rule that)
qed

lemma escape_high:
  assumes "0x80 \<le> b"
  shows "unicode_escape b = [BACKSLASH, 0x75, 0x46, 0x46, 0x46, 0x46]"
proof -
  have u: "128 \<le> uint b" "uint b < 256"
    using assms unsigned_less [where ?'a = int, of b] by (simp_all add: word_le_def)
  have "\<not> b < 0x80" using assms by simp
  then have "unat (scast b :: u32) = nat ((uint b - 256) mod 4294967296)"
    unfolding scast_eq unat_eq_nat_uint uint_word_of_int sint_byte by simp
  also have "(uint b - 256) mod 4294967296 = (uint b - 256 + 4294967296) mod 4294967296" by (simp only: mod_add_self2)
  also have "\<dots> = uint b + 4294967040" using u by (subst mod_pos_pos_trivial) simp_all
  finally have n: "unat (scast b :: u32) = nat (uint b + 4294967040)" .
  have "(uint b + 4294967040) div 65536 = 65535" using u by (simp add: div_pos_pos_trivial)
  then have "nat (uint b + 4294967040) div 65536 = 65535" using u by (simp add: nat_div_distrib [symmetric])
  moreover have "hex_text 65535 = [0x46, 0x46, 0x46, 0x46]" by (simp add: hex_text.simps hex_digit_def)
  ultimately have f: "hex_text (nat (uint b + 4294967040) div 65536) = [0x46, 0x46, 0x46, 0x46]" by simp
  obtain ds where "hex_text (nat (uint b + 4294967040)) = hex_text (nat (uint b + 4294967040) div 65536) @ ds"
    by (rule hex_text_prefix [of "nat (uint b + 4294967040)"]) (use u in linarith)
  then have "hex_text (unat (scast b :: u32)) = [0x46, 0x46, 0x46, 0x46] @ ds" by (simp only: f n)
  then show ?thesis by (simp add: unicode_escape_def)
qed

lemma escape_low:
  assumes "b < 0x20"
  shows "unicode_escape b = [BACKSLASH, 0x75, 48, 48, hex_digit (unat b div 16), hex_digit (unat b mod 16)]"
proof -
  have n: "unat b < 32" using assms by (simp add: word_less_nat_alt)
  have "b < 0x80" using assms by (rule less_trans) simp
  then have "unat (scast b :: u32) = unat b"
  proof -
    have "uint b mod 4294967296 = uint b"
      using unsigned_less [where ?'a = int, of b] by (intro mod_pos_pos_trivial) simp_all
    with \<open>b < 0x80\<close> show ?thesis
      unfolding scast_eq unat_eq_nat_uint uint_word_of_int sint_byte by simp
  qed
  moreover have "hex_text (unat b) = (if unat b < 16 then [hex_digit (unat b)] else [hex_digit (unat b div 16), hex_digit (unat b mod 16)])"
    using n hex_text_step [of "unat b"] by (simp add: hex_text_base)
  moreover have "unat b < 16 \<Longrightarrow> hex_digit (unat b div 16) = 48" by (simp add: hex_digit_def)
  ultimately show ?thesis by (simp add: unicode_escape_def Let_def numeral_3_eq_3 numeral_2_eq_2)
qed

lemma hex_value_digit: "n < 16 \<Longrightarrow> hex_value (hex_digit n) = Some (of_nat n)"
proof -
  have "list_all (\<lambda>n. hex_value (hex_digit n) = Some (of_nat n)) [0..<16]" by code_simp
  then show "n < 16 \<Longrightarrow> hex_value (hex_digit n) = Some (of_nat n)" by (simp only: list_all_iff set_upt) simp
qed

lemma nibbles: "n < 32 \<Longrightarrow> push_bit 4 (of_nat (n div 16)) OR of_nat (n mod 16) = (of_nat n :: u32)"
proof -
  have "list_all (\<lambda>n. push_bit 4 (of_nat (n div 16)) OR of_nat (n mod 16) = (of_nat n :: u32)) [0..<32]" by code_simp
  then show "n < 32 \<Longrightarrow> push_bit 4 (of_nat (n div 16)) OR of_nat (n mod 16) = (of_nat n :: u32)"
    by (simp only: list_all_iff set_upt) simp
qed

lemma parse_hex4_digits:
  assumes "hex_value a = Some p" "hex_value b = Some q" "hex_value c = Some r" "hex_value d = Some s"
  shows "parse_hex4 (a # b # c # d # xs)
    = Some (push_bit 4 (push_bit 4 (push_bit 4 p OR q) OR r) OR s, xs)"
proof -
  have "hex_loop (Suc (Suc (Suc (Suc 0)))) 0 (a # b # c # d # xs)
    = Some (push_bit 4 (push_bit 4 (push_bit 4 p OR q) OR r) OR s, xs)"
    using assms by simp
  moreover have "Suc (Suc (Suc (Suc 0))) = 4" by simp
  ultimately show ?thesis unfolding parse_hex4_def by metis
qed

lemma unicode_high: "parse_unicode (0x46 # 0x46 # 0x46 # 0x46 # xs) = Inr (0xFFFF, xs)"
proof -
  have "hex_value 0x46 = Some 0xF" by (simp add: hex_value_def)
  from parse_hex4_digits [OF this this this this] show ?thesis by (simp add: parse_unicode_def)
qed

lemma unicode_low:
  fixes b :: byte
  assumes "b < 0x20"
  shows "parse_unicode (48 # 48 # hex_digit (unat b div 16) # hex_digit (unat b mod 16) # xs) = Inr (ucast b, xs)"
proof -
  have n: "unat b < 32" using assms by (simp add: word_less_nat_alt)
  have d: "hex_value (hex_digit (unat b div 16)) = Some (of_nat (unat b div 16))"
    "hex_value (hex_digit (unat b mod 16)) = Some (of_nat (unat b mod 16))" "hex_value 48 = Some 0"
    using n by (simp_all add: hex_value_digit) (simp add: hex_value_def)
  have "of_nat (unat b) = (ucast b :: u32)" by simp
  with nibbles [OF n] have u: "push_bit 4 (of_nat (unat b div 16)) OR of_nat (unat b mod 16) = (ucast b :: u32)" by simp
  have "(ucast b :: u32) < 0x20" using n by (simp add: word_less_nat_alt unsigned_ucast_eq take_bit_nat_eq_self)
  then have "\<not> 0xD800 \<le> (ucast b :: u32)" unfolding not_le by (rule less_trans) simp
  moreover have "parse_hex4 (48 # 48 # hex_digit (unat b div 16) # hex_digit (unat b mod 16) # xs) = Some (ucast b, xs)"
    using parse_hex4_digits [OF d(3) d(3) d(1,2)] u by simp
  ultimately show ?thesis by (simp add: parse_unicode_def)
qed

lemma str_loop_char: "str_loop h (stringify_char b @ xs) c = str_loop h xs (push_all (garble b) c)"
proof -
  consider "b \<in> {QUOTE, 0x2F, BACKSLASH, 8, 9, 13, 12, 10}" | "b < 0x20" "b \<notin> {QUOTE, 0x2F, BACKSLASH, 8, 9, 13, 12, 10}"
    | "0x80 \<le> b" | "0x20 \<le> b" "b < 0x80" "b \<notin> {QUOTE, 0x2F, BACKSLASH, 8, 9, 13, 12, 10}"
    by fastforce
  then show ?thesis
  proof cases
    case 1
    then show ?thesis
      by (elim insertE) (simp_all add: stringify_char_def str_loop.simps [of h "_ # _"] simple_escape_def garble_def)
  next
    case 2
    have s: "b < 0x80" using 2(1) by (rule less_trans) simp
    have "uint b < 32" using 2(1) by (simp add: word_less_def)
    with 2 s have e: "stringify_char b = unicode_escape b" by (simp add: stringify_char_def sint_byte)
    have "(ucast b :: u32) \<le> 0x7F" using s by (simp add: word_le_nat_alt word_less_nat_alt unsigned_ucast_eq take_bit_nat_eq_self)
    moreover have "(ucast (ucast b :: u32) :: byte) = b" by transfer (simp add: take_bit_take_bit)
    ultimately show ?thesis
      unfolding e escape_low [OF 2(1)]
      by (simp add: str_loop.simps [of h "_ # _"] simple_escape_def unicode_low [OF 2(1)] encode_utf8_def garble_def s)
  next
    case 3
    then have "\<not> b < 0x80" by simp
    then have "sint b < 0x20" using unsigned_less [where ?'a = int, of b] by (simp add: sint_byte)
    moreover have "b \<notin> {QUOTE, 0x2F, BACKSLASH, 8, 9, 13, 12, 10}" using 3 by (auto simp: word_le_nat_alt)
    ultimately have e: "stringify_char b = unicode_escape b" by (simp add: stringify_char_def)
    show ?thesis
      unfolding e escape_high [OF 3]
      using \<open>\<not> b < 0x80\<close> by (simp add: str_loop.simps [of h "_ # _"] simple_escape_def unicode_high encode_utf8_def garble_def)
  next
    case 4
    then have "\<not> sint b < 0x20" by (simp add: sint_byte word_le_def)
    with 4 have e: "stringify_char b = [b]" by (simp add: stringify_char_def)
    have "b \<noteq> 0" "\<not> b < 0x20" using 4(1) by auto
    with 4 show ?thesis
      unfolding e by (simp add: str_loop.simps [of h "_ # _"] garble_def)
  qed
qed

lemma str_loop_end: "str_loop h (QUOTE # rest) c = (Inr (stk_str c), c\<lparr>jrest := rest, str_top := h, stk_str := []\<rparr>)"
  by (simp add: str_loop.simps [of h "_ # _"])

lemma push_all_end [simp]:
  "push_all xs c\<lparr>jrest := rest, str_top := h, stk_str := []\<rparr> = c\<lparr>jrest := rest, str_top := h, stk_str := []\<rparr>"
  by (simp add: push_all_def)

lemma str_loop_text:
  "str_loop h (concat (map stringify_char s) @ QUOTE # rest) c
    = (Inr (stk_str c @ concat (map garble s)), c\<lparr>jrest := rest, str_top := h, stk_str := []\<rparr>)"
  by (induction s arbitrary: c) (simp_all add: str_loop_end str_loop_char)

text \<open>A character that a key may contain: keys are printed as they are.\<close>

definition key_char :: "byte \<Rightarrow> bool" where
  "key_char b \<longleftrightarrow> 0x20 \<le> b \<and> b \<noteq> QUOTE \<and> b \<noteq> BACKSLASH"

lemma str_loop_plain: "list_all key_char k \<Longrightarrow> str_loop h (k @ xs) c = str_loop h xs (push_all k c)"
proof (induction k arbitrary: c)
  case (Cons b k)
  then have "b \<noteq> 0" "\<not> b < 0x20" by (auto simp: key_char_def)
  with Cons show ?case by (simp add: str_loop.simps [of h "_ # _"] key_char_def)
qed simp

lemma str_loop_key:
  "list_all key_char k \<Longrightarrow>
    str_loop h (k @ QUOTE # rest) c = (Inr (stk_str c @ k), c\<lparr>jrest := rest, str_top := h, stk_str := []\<rparr>)"
  by (simp add: str_loop_plain str_loop_end)

text \<open>A context between two tokens.\<close>

definition ready :: "lept_context \<Rightarrow> bool" where
  "ready c \<longleftrightarrow> str_top c = 0 \<and> stk_str c = []"

lemma ready_simps [simp]:
  "ready (c\<lparr>jrest := xs\<rparr>) = ready c" "ready (parse_whitespace c) = ready c" "ready (jnext c) = ready c"
  by (simp_all add: ready_def)

lemma ready_end: "ready c \<Longrightarrow> c\<lparr>jrest := rest, str_top := str_top c, stk_str := []\<rparr> = c\<lparr>jrest := rest\<rparr>"
  by (cases c) (simp add: ready_def)

lemma parse_string_text:
  assumes "ready c" "jrest c = stringify_string s @ rest"
  shows "parse_string c = (Inr (concat (map garble s)), c\<lparr>jrest := rest\<rparr>)"
  using assms ready_end [OF assms(1)]
  by (simp add: parse_string_def stringify_string_def str_loop_text ready_def)

lemma parse_string_key:
  assumes "ready c" "list_all key_char k" "jrest c = QUOTE # k @ QUOTE # rest"
  shows "parse_string c = (Inr k, c\<lparr>jrest := rest\<rparr>)"
  using assms ready_end [OF assms(1)] by (simp add: parse_string_def str_loop_key ready_def)

section \<open>Numbers\<close>

text \<open>What may follow a number: nothing that would continue it.\<close>

definition ends_number :: "bytes \<Rightarrow> bool" where
  "ends_number xs \<longleftrightarrow> \<not> ISDIGIT (peek xs) \<and> peek xs \<notin> {0x2E, 0x65, 0x45}"

lemma dropWhile_digits: "list_all ISDIGIT ds \<Longrightarrow> \<not> ISDIGIT (peek rest) \<Longrightarrow> dropWhile ISDIGIT (ds @ rest) = rest"
  by (induction ds) (cases rest, simp_all)

lemma ISDIGIT_48 [simp]: "ISDIGIT (48 + of_nat n)" if "n < 10"
proof -
  have "unat (of_nat n :: byte) = n" using that by (simp add: unat_of_nat take_bit_nat_eq_self)
  then have "unat (48 + of_nat n :: byte) = 48 + n" using that by (subst unat_add_lem [THEN iffD1]) simp_all
  with that show ?thesis by (simp add: ISDIGIT_def word_le_nat_alt)
qed

lemma to_string_all_digits: "list_all ISDIGIT (to_string n)"
proof (induction n rule: to_string.induct)
  case (1 n)
  then show ?case by (subst to_string.simps) simp
qed

lemma to_string_head:
  "\<exists>d ds. to_string n = d # ds \<and> (if n = 0 then d = 48 \<and> ds = [] else ISDIGIT1TO9 d)"
proof (induction n rule: to_string.induct)
  case (1 n)
  show ?case
  proof (cases "n < 10")
    case True
    have "ISDIGIT1TO9 (48 + of_nat n)" if "n \<noteq> 0"
    proof -
      have "unat (of_nat n :: byte) = n" using True by (simp add: unat_of_nat take_bit_nat_eq_self)
      then have "unat (48 + of_nat n :: byte) = 48 + n" using True by (subst unat_add_lem [THEN iffD1]) simp_all
      with that True show ?thesis by (simp add: ISDIGIT1TO9_def word_le_nat_alt)
    qed
    with True show ?thesis by (simp add: to_string.simps [of n])
  next
    case False
    with 1 obtain d ds where "to_string (n div 10) = d # ds" "ISDIGIT1TO9 d" by (auto split: if_splits)
    with False show ?thesis by (simp add: to_string.simps [of n])
  qed
qed

lemma digit_not: "ISDIGIT1TO9 d \<Longrightarrow> d \<noteq> 48 \<and> d \<noteq> 0x2D \<and> ISDIGIT d"
  by (auto simp: ISDIGIT1TO9_def ISDIGIT_def word_le_nat_alt)

lemma scan_to_string:
  assumes "\<not> ISDIGIT (peek rest)" "x \<in> {[], [0x2D]}"
  shows "scan_int (x @ to_string n @ rest) = Some rest"
proof -
  obtain d ds where d: "to_string n = d # ds" "if n = 0 then d = 48 \<and> ds = [] else ISDIGIT1TO9 d"
    using to_string_head by blast
  have "list_all ISDIGIT ds" using to_string_all_digits [of n] d(1) by simp
  with d assms dropWhile_digits [of ds rest] digit_not [of d] show ?thesis
    by (cases "n = 0") (auto simp: scan_int_def Let_def)
qed

lemma scan_integer:
  assumes "ends_number rest"
  shows "scan_number (int_text i @ rest) = Some (True, rest)"
proof -
  have "scan_int (int_text i @ rest) = Some rest"
    using scan_to_string [of rest "[0x2D]"] scan_to_string [of rest "[]"] assms
    by (simp add: int_text_def ends_number_def)
  then show ?thesis using assms by (simp add: scan_number_def scan_frac_def scan_exp_def ends_number_def)
qed

lemma stoll_int_text: "stoll (int_text i) = Some (sint i)"
proof -
  have s: "- (2 ^ 31) \<le> sint i" "sint i < 2 ^ 31" using sint_greater_eq [of i] sint_less [of i] by simp_all
  obtain d ds where d: "to_string (nat (sint i)) = d # ds" "if nat (sint i) = 0 then d = 48 \<and> ds = [] else ISDIGIT1TO9 d"
    using to_string_head by blast
  then have "d \<noteq> 0x2D" using digit_not [of d] by (auto split: if_splits)
  then have "peek (to_string (nat (sint i))) \<noteq> 0x2D" using d(1) by simp
  with s show ?thesis by (auto simp: stoll_def int_text_def parse_dec_to_string Let_def)
qed

lemma parse_number_integer:
  assumes "ends_number rest" "jrest c = int_text i @ rest"
  shows "parse_number dconv c = (Inr (L_integer i), c\<lparr>jrest := rest\<rparr>)"
  using assms by (simp add: parse_number_def scan_integer stoll_int_text)

text \<open>A double whose text has a decimal point and is read back as the same double.\<close>

definition decimal_text :: "bytes \<Rightarrow> bool" where
  "decimal_text l \<longleftrightarrow> (\<exists>x n f fs. l = x @ to_string n @ 0x2E # f # fs \<and> x \<in> {[], [0x2D]} \<and> list_all ISDIGIT (f # fs))"

lemma scan_decimal:
  assumes "ends_number rest" "decimal_text l"
  shows "scan_number (l @ rest) = Some (False, rest)"
proof -
  obtain x n f fs where l: "l = x @ to_string n @ 0x2E # f # fs" "x \<in> {[], [0x2D]}" "list_all ISDIGIT (f # fs)"
    using assms(2) by (auto simp: decimal_text_def)
  have "scan_int (x @ to_string n @ 0x2E # f # fs @ rest) = Some (0x2E # f # fs @ rest)"
    using l(2) by (intro scan_to_string) (simp_all add: ISDIGIT_def)
  moreover have "dropWhile ISDIGIT (fs @ rest) = rest"
    using l(3) assms(1) by (intro dropWhile_digits) (simp_all add: ends_number_def)
  ultimately show ?thesis
    using assms(1) l by (simp add: scan_number_def scan_frac_def scan_exp_def ends_number_def)
qed

lemma parse_number_double:
  assumes "ends_number rest" "decimal_text l" "dconv l = Some d" "jrest c = l @ rest"
  shows "parse_number dconv c = (Inr (L_number d), c\<lparr>jrest := rest\<rparr>)"
  using assms by (simp add: parse_number_def scan_decimal)

section \<open>Values\<close>

text \<open>
  The values considered: the keys of an object are sorted, as \<open>std::map\<close> keeps them, and contain no quote,
  backslash or control character; doubles print with a decimal point and read back.
\<close>

fun json_ok :: "('d \<Rightarrow> bytes) \<Rightarrow> (bytes \<Rightarrow> 'd option) \<Rightarrow> 'd lept_value \<Rightarrow> bool" where
  "json_ok fmt dconv (L_number d) \<longleftrightarrow> decimal_text (fmt d) \<and> dconv (fmt d) = Some d"
| "json_ok fmt dconv (L_array vs) \<longleftrightarrow> list_all (json_ok fmt dconv) vs"
| "json_ok fmt dconv (L_object kvs) \<longleftrightarrow>
     sorted_wrt ord_class.lexordp (map fst kvs) \<and> list_all (list_all key_char) (map fst kvs)
     \<and> list_all (\<lambda>(k, v). json_ok fmt dconv v) kvs"
| "json_ok fmt dconv _ \<longleftrightarrow> True"

text \<open>What comes back.\<close>

fun received :: "'d lept_value \<Rightarrow> 'd lept_value" where
  "received (L_string s) = L_string (concat (map garble s))"
| "received (L_array vs) = L_array (map received vs)"
| "received (L_object kvs) = L_object (map (\<lambda>(k, v). (k, received v)) kvs)"
| "received v = v"

definition reads :: "('d \<Rightarrow> bytes) \<Rightarrow> (bytes \<Rightarrow> 'd option) \<Rightarrow> 'd lept_value \<Rightarrow> bool" where
  "reads fmt dconv v \<longleftrightarrow> (\<forall>c n rest. ready c \<and> ends_number rest \<and> jrest c = stringify_value fmt v @ rest
     \<and> 2 * length (jrest c) + 1 \<le> n
     \<longrightarrow> parse_value dconv n c = Some (Inr (received v), c\<lparr>jrest := rest\<rparr>))"

lemma readsD:
  "reads fmt dconv v \<Longrightarrow> ready c \<Longrightarrow> ends_number rest \<Longrightarrow> jrest c = stringify_value fmt v @ rest
   \<Longrightarrow> 2 * length (jrest c) + 1 \<le> n \<Longrightarrow> parse_value dconv n c = Some (Inr (received v), c\<lparr>jrest := rest\<rparr>)"
  by (simp add: reads_def)

lemma readsI:
  assumes "\<And>c n rest. ready c \<Longrightarrow> ends_number rest \<Longrightarrow> jrest c = stringify_value fmt v @ rest
    \<Longrightarrow> 2 * length (jrest c) \<le> n \<Longrightarrow> parse_value dconv (Suc n) c = Some (Inr (received v), c\<lparr>jrest := rest\<rparr>)"
  shows "reads fmt dconv v"
  unfolding reads_def
proof (intro allI impI, elim conjE)
  fix c :: lept_context and n rest
  assume "ready c" "ends_number rest" "jrest c = stringify_value fmt v @ rest" "2 * length (jrest c) + 1 \<le> n"
  then show "parse_value dconv n c = Some (Inr (received v), c\<lparr>jrest := rest\<rparr>)"
    using assms by (cases n) (simp_all del: parse_value.simps)
qed

lemma ends_number_simps [simp]:
  "ends_number (COMMA # xs)" "ends_number (0x5D # xs)" "ends_number (0x7D # xs)" "ends_number [0]"
  by (simp_all add: ends_number_def ISDIGIT_def)

lemma items_True: "xs \<noteq> [] \<Longrightarrow> items True xs = COMMA # items False xs"
  by (cases xs) simp_all

text \<open>The first character of a printed value is not blank, and says which kind it is.\<close>

definition number_start :: "byte \<Rightarrow> bool" where
  "number_start b \<longleftrightarrow> b = 0x2D \<or> ISDIGIT b"

lemma number_start_parse:
  "number_start (peek (jrest c)) \<Longrightarrow> parse_value dconv (Suc n) c = Some (parse_number dconv c)"
  by (auto simp: number_start_def ISDIGIT_def Let_def)

lemma number_start_to_string: "number_start (peek (to_string n @ xs))"
  using to_string_head [of n] digit_not by (auto simp: number_start_def split: if_splits) (auto simp: ISDIGIT_def)

lemma number_start_int: "number_start (peek (int_text i @ xs))"
  by (simp add: int_text_def number_start_to_string) (simp add: number_start_def)

lemma number_start_decimal: "decimal_text l \<Longrightarrow> number_start (peek (l @ xs))"
  by (auto simp: decimal_text_def number_start_to_string) (simp add: number_start_def)

lemma not_blank_number: "number_start b \<Longrightarrow> \<not> blank b"
  by (auto simp: number_start_def ISDIGIT_def blank_def)

lemma stringify_not_blank:
  assumes "json_ok fmt dconv v"
  shows "\<exists>x xs. stringify_value fmt v = x # xs \<and> \<not> blank x \<and> x \<noteq> 0x5D \<and> x \<noteq> 0x7D"
proof -
  have n: "\<exists>x xs. l = x # xs \<and> \<not> blank x \<and> x \<noteq> 0x5D \<and> x \<noteq> 0x7D" if "number_start (peek (l @ []))" for l
    using that not_blank_number by (cases l) (auto simp: number_start_def ISDIGIT_def)
  show ?thesis
    using assms n [OF number_start_int] n [OF number_start_decimal]
    by (cases v) (auto simp: blank_def stringify_string_def)
qed

lemma dropWhile_head: "\<not> blank x \<Longrightarrow> dropWhile blank (x # xs) = x # xs"
  by simp

lemma reads_array:
  assumes "list_all (reads fmt dconv) vs" "list_all (json_ok fmt dconv) vs" "vs \<noteq> []" "ready c"
    "jrest c = items False (map (stringify_value fmt) vs) @ 0x5D # rest" "2 * length (jrest c) + 2 \<le> n"
  shows "parse_array dconv n arr c = Some (Inr (L_array (arr @ map received vs)), c\<lparr>jrest := rest\<rparr>)"
  using assms
proof (induction vs arbitrary: n arr c)
  case (Cons v vs)
  obtain m where m: "n = Suc m" using Cons.prems(6) by (cases n) simp_all
  let ?rest = "if vs = [] then 0x5D # rest else COMMA # items False (map (stringify_value fmt) vs) @ 0x5D # rest"
  have j: "jrest c = stringify_value fmt v @ ?rest" using Cons.prems(5) by (simp add: items_True)
  have v: "parse_value dconv m c = Some (Inr (received v), c\<lparr>jrest := ?rest\<rparr>)"
    using Cons.prems(1,4,6) m by (intro readsD [OF _ Cons.prems(4) _ j]) auto
  show ?case
  proof (cases "vs = []")
    case True
    with v m show ?thesis by (simp add: Let_def parse_whitespace_def jnext_def blank_def)
  next
    case False
    then obtain w ws where vs: "vs = w # ws" by (cases vs) auto
    obtain x xs where x: "stringify_value fmt w = x # xs" "\<not> blank x"
      using stringify_not_blank [of fmt dconv w] Cons.prems(2) vs by auto
    let ?d = "c\<lparr>jrest := items False (map (stringify_value fmt) vs) @ 0x5D # rest\<rparr>"
    have n: "parse_whitespace (jnext (parse_whitespace (c\<lparr>jrest := ?rest\<rparr>))) = ?d"
      using False x vs by (simp add: parse_whitespace_def jnext_def blank_def)
    have "2 * length (jrest ?d) + 2 \<le> m" using Cons.prems(6) j m False by simp
    then have "parse_array dconv m (arr @ [received v]) ?d
        = Some (Inr (L_array ((arr @ [received v]) @ map received vs)), ?d\<lparr>jrest := rest\<rparr>)"
      using Cons.prems False by (intro Cons.IH) simp_all
    with v m False n show ?thesis by (simp add: Let_def) (simp add: blank_def)
  qed
qed simp

lemma obj_insert_last:
  assumes "list_all (\<lambda>k'. ord_class.lexordp k' k) (map fst mp)"
  shows "obj_insert k v mp = mp @ [(k, v)]"
  using assms
proof (induction mp)
  case (Cons e mp)
  have "k \<noteq> fst e" "\<not> ord_class.lexordp k (fst e)"
    using Cons.prems lexordp_irreflexive' lexordp_trans by (auto simp: less_le_not_le)
  with Cons show ?case by (cases e) simp
qed simp

text \<open>The text of a member.\<close>

definition member_text :: "('d \<Rightarrow> bytes) \<Rightarrow> bytes \<times> 'd lept_value \<Rightarrow> bytes" where
  "member_text fmt kv = QUOTE # fst kv @ [QUOTE, 0x3A] @ stringify_value fmt (snd kv)"

lemma member_text_pair: "member_text fmt (k, v) = QUOTE # k @ QUOTE # 0x3A # stringify_value fmt v"
  by (simp add: member_text_def)

lemma stringify_object:
  "stringify_value fmt (L_object kvs) = 0x7B # items False (map (member_text fmt) kvs) @ [0x7D]"
  by (simp add: member_text_def case_prod_unfold cong: map_cong)

lemma reads_object:
  assumes "list_all (\<lambda>kv. reads fmt dconv (snd kv) \<and> json_ok fmt dconv (snd kv) \<and> list_all key_char (fst kv)) kvs"
    "sorted_wrt ord_class.lexordp (map fst mp @ map fst kvs)" "kvs \<noteq> []" "ready c"
    "jrest c = items False (map (member_text fmt) kvs) @ 0x7D # rest" "2 * length (jrest c) + 2 \<le> n"
  shows "parse_object dconv n mp c
    = Some (Inr (L_object (mp @ map (\<lambda>kv. (fst kv, received (snd kv))) kvs)), c\<lparr>jrest := rest\<rparr>)"
  using assms
proof (induction kvs arbitrary: n mp c)
  case (Cons kv kvs)
  obtain k v where kv: "kv = (k, v)" by (cases kv)
  obtain m where m: "n = Suc m" using Cons.prems(6) by (cases n) simp_all
  let ?rest = "if kvs = [] then 0x7D # rest else COMMA # items False (map (member_text fmt) kvs) @ 0x7D # rest"
  have j: "jrest c = QUOTE # k @ QUOTE # 0x3A # stringify_value fmt v @ ?rest"
    using Cons.prems(5) by (simp add: items_True kv member_text_pair)
  let ?k = "c\<lparr>jrest := 0x3A # stringify_value fmt v @ ?rest\<rparr>" and ?v = "c\<lparr>jrest := stringify_value fmt v @ ?rest\<rparr>"
  have s: "parse_string c = (Inr k, ?k)"
    using Cons.prems(1,4) j by (intro parse_string_key) (simp_all add: kv)
  obtain x xs where x: "stringify_value fmt v = x # xs" "\<not> blank x"
    using stringify_not_blank [of fmt dconv v] Cons.prems(1) kv by auto
  have b: "parse_whitespace ?k = ?k" "parse_whitespace (jnext ?k) = ?v"
    using x by (simp_all add: parse_whitespace_def jnext_def blank_def)
  have "parse_value dconv m ?v = Some (Inr (received v), ?v\<lparr>jrest := ?rest\<rparr>)"
    using Cons.prems(1,4,6) m j by (intro readsD [where fmt = fmt]) (auto simp: kv)
  then have v: "parse_value dconv m ?v = Some (Inr (received v), c\<lparr>jrest := ?rest\<rparr>)" by simp
  have i: "obj_insert k (received v) mp = mp @ [(k, received v)]"
    using Cons.prems(2) by (intro obj_insert_last) (auto simp: kv sorted_wrt_append list_all_iff)
  show ?case
  proof (cases "kvs = []")
    case True
    with v m s b j i show ?thesis by (simp add: Let_def parse_whitespace_def jnext_def blank_def kv)
  next
    case False
    then obtain w ws where vs: "kvs = w # ws" by (cases kvs) auto
    let ?d = "c\<lparr>jrest := items False (map (member_text fmt) kvs) @ 0x7D # rest\<rparr>"
    have n: "parse_whitespace (jnext (parse_whitespace (c\<lparr>jrest := ?rest\<rparr>))) = ?d"
      using False vs by (cases w) (simp add: parse_whitespace_def jnext_def blank_def member_text_pair)
    have l: "2 * length (jrest ?d) + 2 \<le> m" using Cons.prems(6) j m False by simp
    have "parse_object dconv m (mp @ [(k, received v)]) ?d
        = Some (Inr (L_object ((mp @ [(k, received v)]) @ map (\<lambda>kv. (fst kv, received (snd kv))) kvs)), ?d\<lparr>jrest := rest\<rparr>)"
      using Cons.prems(1,2,4) False l by (intro Cons.IH) (simp_all add: kv)
    moreover have "peek (jrest (parse_whitespace (c\<lparr>jrest := ?rest\<rparr>))) = COMMA" using False by (simp add: blank_def)
    ultimately show ?thesis
      using v m s b j i n by (simp add: Let_def kv del: parse_whitespace_simps jnext_simps)
  qed
qed simp

lemma json_ok_reads: "json_ok fmt dconv v \<Longrightarrow> reads fmt dconv v"
proof (induction v)
  case L_null
  show ?case by (rule readsI) (auto simp: Let_def parse_literal_def)
next
  case (L_boolean b)
  show ?case by (rule readsI) (auto simp: Let_def parse_literal_def)
next
  case (L_number d)
  then show ?case
    by (intro readsI) (auto simp: number_start_parse number_start_decimal simp del: parse_value.simps intro!: parse_number_double)
next
  case (L_integer i)
  show ?case
    by (intro readsI) (simp add: number_start_parse number_start_int parse_number_integer del: parse_value.simps)
next
  case (L_string s)
  have "parse_value dconv (Suc n) c = Some (Inr (received (L_string s)), c\<lparr>jrest := rest\<rparr>)"
    if "ready c" "jrest c = stringify_string s @ rest" for c n rest
  proof -
    have "peek (jrest c) = QUOTE" using that(2) by (simp add: stringify_string_def)
    then show ?thesis by (simp add: Let_def parse_string_text [OF that])
  qed
  then show ?case by (intro readsI) (simp_all only: stringify_value.simps(5))
next
  case (L_array vs)
  have vs: "list_all (reads fmt dconv) vs" "list_all (json_ok fmt dconv) vs"
    using L_array by (auto simp: list_all_iff)
  have "parse_value dconv (Suc n) c = Some (Inr (received (L_array vs)), c\<lparr>jrest := rest\<rparr>)"
    if c: "ready c" "jrest c = stringify_value fmt (L_array vs) @ rest" "2 * length (jrest c) \<le> n" for c n rest
  proof (cases vs)
    case Nil
    with c show ?thesis by (simp add: Let_def blank_def parse_whitespace_def jnext_def)
  next
    case (Cons w ws)
    obtain x xs where x: "stringify_value fmt w = x # xs" "\<not> blank x" "x \<noteq> 0x5D"
      using stringify_not_blank [of fmt dconv w] vs Cons by auto
    let ?d = "c\<lparr>jrest := items False (map (stringify_value fmt) vs) @ 0x5D # rest\<rparr>"
    have d: "parse_whitespace (jnext c) = ?d" using c(2) x Cons by (simp add: parse_whitespace_def jnext_def)
    have "2 * length (jrest ?d) + 2 \<le> n" using c(2,3) by simp
    with vs Cons c(1) have "parse_array dconv n [] ?d = Some (Inr (L_array (map received vs)), ?d\<lparr>jrest := rest\<rparr>)"
      using reads_array [where vs = vs and c = ?d and n = n and arr = "[]" and rest = rest] by simp
    with d c(2) x Cons show ?thesis by (simp add: Let_def del: parse_whitespace_simps jnext_simps)
  qed
  then show ?case by (intro readsI)
next
  case (L_object kvs)
  have kvs: "list_all (\<lambda>kv. reads fmt dconv (snd kv) \<and> json_ok fmt dconv (snd kv) \<and> list_all key_char (fst kv)) kvs"
    "sorted_wrt ord_class.lexordp (map fst kvs)"
    using L_object by (auto simp: list_all_iff)
  have r: "received (L_object kvs) = L_object (map (\<lambda>kv. (fst kv, received (snd kv))) kvs)"
    by (simp add: case_prod_unfold)
  have "parse_value dconv (Suc n) c = Some (Inr (received (L_object kvs)), c\<lparr>jrest := rest\<rparr>)"
    if c: "ready c" "jrest c = stringify_value fmt (L_object kvs) @ rest" "2 * length (jrest c) \<le> n" for c n rest
  proof (cases kvs)
    case Nil
    with c show ?thesis by (simp add: Let_def blank_def parse_whitespace_def jnext_def)
  next
    case (Cons w ws)
    let ?d = "c\<lparr>jrest := items False (map (member_text fmt) kvs) @ 0x7D # rest\<rparr>"
    have j: "jrest c = 0x7B # items False (map (member_text fmt) kvs) @ 0x7D # rest"
      using c(2) unfolding stringify_object by simp
    have d: "parse_whitespace (jnext c) = ?d"
      using j Cons by (cases w) (simp add: parse_whitespace_def jnext_def member_text_pair blank_def)
    have p: "peek (jrest ?d) = QUOTE" using Cons by (cases w) (simp add: member_text_pair)
    have "2 * length (jrest ?d) + 2 \<le> n" using j c(3) by simp
    with kvs Cons c(1) have "parse_object dconv n [] ?d = Some (Inr (received (L_object kvs)), ?d\<lparr>jrest := rest\<rparr>)"
      unfolding r using reads_object [where kvs = kvs and c = ?d and n = n and mp = "[]" and rest = rest] by simp
    with d j p show ?thesis by (simp add: Let_def del: parse_whitespace_simps jnext_simps received.simps)
  qed
  then show ?case by (intro readsI)
qed

lemma lept_parse_head:
  assumes "json = x # xs" "\<not> blank x"
    "parse_value dconv (2 * length json + 4) \<lparr>jrest = json @ [0], str_top = 0, stk_str = []\<rparr> = Some (r, c)"
  shows "lept_parse dconv json =
    (if str_top c \<noteq> 0 then Assertion_failed
     else case r of
            Inr v \<Rightarrow> Parsed LEPT_PARSE_OK v
          | Inl e \<Rightarrow> Parsed (if length (dropWhile blank (jrest c)) \<noteq> 1 then LEPT_PARSE_ROOT_NOT_SINGULAR else e) L_null)"
proof -
  let ?c = "\<lparr>jrest = json @ [0], str_top = 0, stk_str = []\<rparr>"
  have "parse_whitespace ?c = ?c" using assms(1,2) by (simp add: parse_whitespace_def)
  then have "lept_parse dconv json = (case Some (r, c) of
           None \<Rightarrow> Out_of_fuel
         | Some (Inr v, c) \<Rightarrow> (if str_top c = 0 then Parsed LEPT_PARSE_OK v else Assertion_failed)
         | Some (Inl e, c) \<Rightarrow>
             let c = parse_whitespace c; e = (if length (jrest c) \<noteq> 1 then LEPT_PARSE_ROOT_NOT_SINGULAR else e)
             in if str_top c = 0 then Parsed e L_null else Assertion_failed)"
    unfolding lept_parse_def Let_def assms(3) [symmetric] by simp
  then show ?thesis by (simp add: Let_def split: sum.split)
qed

text \<open>
  A printed value is parsed, also with text behind it: \<open>parse\<close> looks at what follows only when it has failed.
\<close>

lemma parse_printed:
  assumes "json_ok fmt dconv v" "ends_number junk"
  shows "lept_parse dconv (stringify_value fmt v @ junk) = Parsed LEPT_PARSE_OK (received v)"
proof -
  let ?json = "stringify_value fmt v @ junk"
  let ?c = "\<lparr>jrest = ?json @ [0], str_top = 0, stk_str = []\<rparr>"
  obtain x xs where x: "stringify_value fmt v = x # xs" "\<not> blank x" using stringify_not_blank [OF assms(1)] by blast
  have "ends_number (junk @ [0])" using assms(2) by (cases junk) (simp_all add: ends_number_def)
  then have "parse_value dconv (2 * length ?json + 4) ?c = Some (Inr (received v), ?c\<lparr>jrest := junk @ [0]\<rparr>)"
    by (intro readsD [OF json_ok_reads [OF assms(1)]]) (simp_all add: ready_def)
  from lept_parse_head [OF _ x(2) this] x(1) show ?thesis by simp
qed

text \<open>The strings of a value have no character above 0x7F.\<close>

fun ascii :: "'d lept_value \<Rightarrow> bool" where
  "ascii (L_string s) \<longleftrightarrow> list_all (\<lambda>b. b < 0x80) s"
| "ascii (L_array vs) \<longleftrightarrow> list_all ascii vs"
| "ascii (L_object kvs) \<longleftrightarrow> list_all (\<lambda>(k, v). ascii v) kvs"
| "ascii _ \<longleftrightarrow> True"

lemma map_same: "map f xs = xs \<longleftrightarrow> list_all (\<lambda>x. f x = x) xs"
  by (induction xs) auto

lemma garble_same: "concat (map garble s) = s \<longleftrightarrow> list_all (\<lambda>b. b < 0x80) s"
proof -
  have "length s \<le> length (concat (map garble s)) \<and> (concat (map garble s) = s \<longleftrightarrow> list_all (\<lambda>b. b < 0x80) s)"
  proof (induction s)
    case (Cons b s)
    then show ?case
      by (cases "b < 0x80") (auto simp: garble_def dest: arg_cong [where f = length])
  qed simp
  then show ?thesis ..
qed

lemma received_same: "received v = v \<longleftrightarrow> ascii v"
proof (induction v)
  case (L_object kvs)
  then have "list_all (\<lambda>kv. (fst kv, received (snd kv)) = kv) kvs \<longleftrightarrow> list_all (\<lambda>kv. ascii (snd kv)) kvs"
    by (force simp: list_all_iff prod_eq_iff)
  then show ?case by (simp add: map_same case_prod_unfold)
qed (simp_all add: garble_same map_same list_all_iff)

text \<open>
  C18. Printing and parsing JSON. What \<open>stringify\<close> prints for a value (of any nesting; keys without quotes,
  backslashes and control characters; doubles printed with a decimal point) \<open>parse\<close> accepts, and gives back
  the same value except for its strings, in which every byte above 0x7F has become the three bytes of
  U+FFFF: the value survives exactly when its strings are ASCII.
\<close>

theorem json_roundtrip:
  assumes "json_ok fmt dconv v"
  shows "lept_parse dconv (stringify_value fmt v) = Parsed LEPT_PARSE_OK (received v) \<and> (received v = v) = ascii v"
proof -
  have "ends_number []" by (simp add: ends_number_def ISDIGIT_def)
  from parse_printed [OF assms this] show ?thesis by (simp add: received_same)
qed

text \<open>The object \<open>{"a":[-5,0.5,"\/"],"b":"\u00e9"}\<close>, with one double.\<close>

definition sample :: "unit lept_value" where
  "sample = L_object [([0x61], L_array [L_integer (- 5), L_number (), L_string [0x2F]]), ([0x62], L_string [0xC3, 0xA9])]"

lemma sample_ok: "json_ok (\<lambda>_. bstr ''0.5'') (\<lambda>l. if l = bstr ''0.5'' then Some () else None) sample"
proof -
  have "decimal_text (bstr ''0.5'')"
    unfolding decimal_text_def
    by (rule exI [of _ "[]"], rule exI [of _ 0]) (simp add: to_string.simps ISDIGIT_def)
  then show ?thesis by (simp add: sample_def key_char_def)
qed

theorem json_roundtrip_witness:
  "lept_parse (\<lambda>l. if l = bstr ''0.5'' then Some () else None) (stringify_value (\<lambda>_. bstr ''0.5'') sample)
    = Parsed LEPT_PARSE_OK
        (L_object [([0x61], L_array [L_integer (- 5), L_number (), L_string [0x2F]]),
                   ([0x62], L_string [0xEF, 0xBF, 0xBF, 0xEF, 0xBF, 0xBF])])"
  using json_roundtrip [OF sample_ok] by (simp add: sample_def garble_def)

text \<open>
  A string with an escape the parser does not know leaves the characters before the escape on its stack, on
  which \<open>parse\<close> asserts, whatever the rest of the text; when the escape comes first it is an error like others.
\<close>

lemma bad_escape:
  assumes "list_all key_char s" "simple_escape e = None" "e \<noteq> 0x75"
  obtains ret where "ret \<noteq> LEPT_PARSE_OK"
    "lept_parse dconv (QUOTE # s @ BACKSLASH # e # rest) = (if s = [] then Parsed ret L_null else Assertion_failed)"
proof -
  let ?json = "QUOTE # s @ BACKSLASH # e # rest"
  let ?c = "\<lparr>jrest = ?json @ [0], str_top = 0, stk_str = []\<rparr>"
  have "str_loop 0 (BACKSLASH # e # rest @ [0]) (push_all s ?c) = (Inl LEPT_PARSE_INVALID_STRING_CHAR, push_all s ?c)"
    using assms(2,3) by (simp add: str_loop.simps [of 0 "_ # _"])
  then have "parse_string ?c = (Inl LEPT_PARSE_INVALID_STRING_CHAR, push_all s ?c)"
    using assms(1) by (simp add: parse_string_def str_loop_plain)
  then have "parse_value dconv (Suc n) ?c = Some (Inl LEPT_PARSE_INVALID_STRING_CHAR, push_all s ?c)" for n
    by (simp add: Let_def)
  moreover have "Suc (2 * length ?json + 3) = 2 * length ?json + 4" by simp
  ultimately have "parse_value dconv (2 * length ?json + 4) ?c = Some (Inl LEPT_PARSE_INVALID_STRING_CHAR, push_all s ?c)"
    by metis
  from lept_parse_head [OF refl _ this] show thesis
    by (intro that [of "if length (dropWhile blank (jrest (push_all s ?c))) \<noteq> 1 then LEPT_PARSE_ROOT_NOT_SINGULAR
        else LEPT_PARSE_INVALID_STRING_CHAR"]) (simp_all add: blank_def)
qed

end
