(* ===== verification/Ws_Content.thy ===== *)
theory Ws_Content
  imports Ws_Server File_Reader Json_Text
begin

text \<open>
  What a \<open>WsSession\<close> sends and receives beside strings: JSON values and files (\<open>src/core/WebSocket.cpp\<close>),
  the write context they share and the accessors of the session (\<open>include/WebSocket.h\<close>).
\<close>

section \<open>The write context\<close>

text \<open>\<open>m_reader\<close> is not initialised by the constructor.\<close>

record WriteCtx =
  m_str :: bytes
  m_head :: bytes
  isFile :: bool
  m_reader :: "FileReader option"
  m_buffers :: "uv_buf_t list"

definition WriteCtx_init :: WriteCtx where
  "WriteCtx_init = \<lparr>m_str = [], m_head = [], isFile = False, m_reader = None, m_buffers = []\<rparr>"

text \<open>\<open>setMsg\<close> for a constant string, for one that is moved or a C string, and for a reader.\<close>

definition setMsg_copy :: "bytes \<Rightarrow> WriteCtx \<Rightarrow> WriteCtx" where
  "setMsg_copy str ctx = ctx\<lparr>m_str := str\<rparr>"

definition setMsg_move :: "bytes \<Rightarrow> WriteCtx \<Rightarrow> WriteCtx" where
  "setMsg_move str ctx = ctx\<lparr>m_str := str, isFile := False\<rparr>"

definition setMsg_reader :: "FileReader \<Rightarrow> WriteCtx \<Rightarrow> WriteCtx" where
  "setMsg_reader reader ctx = ctx\<lparr>m_reader := Some reader, isFile := True\<rparr>"

definition clearMsg :: "WriteCtx \<Rightarrow> WriteCtx" where
  "clearMsg ctx = ctx\<lparr>m_str := []\<rparr>"

definition whole_buf :: "bytes \<Rightarrow> uv_buf_t" where
  "whole_buf bs = \<lparr>base = bs, blen = length bs\<rparr>"

text \<open>
  \<open>inter_send\<close> on a context: the header for the length of the file or of the string, and the buffers that
  are written. The write callback is \<open>write_done\<close>.
\<close>

definition fill_ctx :: "byte \<Rightarrow> WriteCtx \<Rightarrow> WriteCtx" where
  "fill_ctx opc ctx =
     (let reader = (case m_reader ctx of Some r \<Rightarrow> r | None \<Rightarrow> FileReader_init);
          payload_len = (if isFile ctx then of_nat (getReadByte reader) else of_nat (length (m_str ctx)));
          ctx = ctx\<lparr>m_head := inter_send_header opc payload_len\<rparr>;
          ctx = ctx\<lparr>m_buffers := m_buffers ctx @ [whole_buf (m_head ctx)]\<rparr>
      in if isFile ctx then ctx\<lparr>m_buffers := appendToBuff reader (m_buffers ctx)\<rparr>
         else ctx\<lparr>m_buffers := m_buffers ctx @ [whole_buf (m_str ctx)]\<rparr>)"

definition inter_send_ctx :: "WriteCtx \<Rightarrow> byte \<Rightarrow> WsSession \<Rightarrow> WsSession" where
  "inter_send_ctx ctx opc s = emit [Io_UvWrite (concat (map buf_data (m_buffers (fill_ctx opc ctx))))] s"

text \<open>A context that holds a string or a file that has been read writes what \<open>inter_send\<close> writes for its bytes.\<close>

lemma buf_data_whole [simp]: "buf_data (whole_buf bs) = bs"
  by (simp add: buf_data_def whole_buf_def)

lemma inter_send_ctx_string:
  "inter_send_ctx (setMsg_copy str WriteCtx_init) opc s = inter_send str opc s"
  "inter_send_ctx (setMsg_move str WriteCtx_init) opc s = inter_send str opc s"
  by (simp_all add: inter_send_ctx_def inter_send_def fill_ctx_def setMsg_copy_def setMsg_move_def
      WriteCtx_init_def Let_def)

lemma inter_send_ctx_file:
  assumes "getReadByte r = length (buffered r)"
  shows "inter_send_ctx (setMsg_reader r WriteCtx_init) opc s = inter_send (buffered r) opc s"
  using assms
  by (simp add: inter_send_ctx_def inter_send_def fill_ctx_def setMsg_reader_def WriteCtx_init_def Let_def
      appendToBuff_def buffered_def)

section \<open>JSON\<close>

definition ws_send_json :: "('d \<Rightarrow> bytes) \<Rightarrow> 'd lept_value \<Rightarrow> WsSession \<Rightarrow> WsSession" where
  "ws_send_json fmt json s = inter_send_ctx (setMsg_move (stringify_value fmt json) WriteCtx_init) WS_TEXT s"

text \<open>\<open>None\<close> when the parser's assertion ends the process.\<close>

definition getJsonMessage :: "(bytes \<Rightarrow> 'd option) \<Rightarrow> WsSession \<Rightarrow> 'd lept_value option" where
  "getJsonMessage dconv s =
     (case lept_parse dconv (getStrMessage s) of
        Parsed ret json \<Rightarrow> Some (if ret \<noteq> LEPT_PARSE_OK then L_null else json)
      | _ \<Rightarrow> None)"

section \<open>Files\<close>

text \<open>
  The callbacks of the reader of \<open>sendFile\<close>, on the session: an error deletes the reader, the end of the file
  sends it. Nothing deletes the reader after that.
\<close>

definition file_callbacks :: "WsSession reader_callbacks" where
  "file_callbacks =
     \<lparr>m_onClose = Some (\<lambda>ins ss. (False, inter_send_ctx (setMsg_reader ins WriteCtx_init) WS_TEXT ss)),
      m_onError = Some (\<lambda>ins ss. (True, ss))\<rparr>"

definition ws_sendFile :: "bytes \<Rightarrow> WsSession \<Rightarrow> WsSession reader_state" where
  "ws_sendFile path ss = fileRead path (new_reader ss)"

section \<open>Accessors\<close>

definition getReadyState :: "WsSession \<Rightarrow> WsStatus" where
  "getReadyState s = readyState s"

definition set_onConnect :: "(WsSession \<Rightarrow> ws_cmd list) \<Rightarrow> ws_callbacks \<Rightarrow> ws_callbacks" where
  "set_onConnect callback cbs = cbs\<lparr>m_onConnectCb := Some callback\<rparr>"

definition set_onClose :: "(WsSession \<Rightarrow> ws_cmd list) \<Rightarrow> ws_callbacks \<Rightarrow> ws_callbacks" where
  "set_onClose callback cbs = cbs\<lparr>m_onCloseCb := Some callback\<rparr>"

definition set_onMessage :: "(WsSession \<Rightarrow> ws_cmd list) \<Rightarrow> ws_callbacks \<Rightarrow> ws_callbacks" where
  "set_onMessage callback cbs = cbs\<lparr>m_onMessageCb := Some callback\<rparr>"

definition set_onError :: "(WsSession \<Rightarrow> ws_cmd list) \<Rightarrow> ws_callbacks \<Rightarrow> ws_callbacks" where
  "set_onError callback cbs = cbs\<lparr>m_onErrorCb := Some callback\<rparr>"

section \<open>The contract of the session's operations\<close>

text \<open>Sending a value or a file is an operation the server's table can rely on.\<close>

interpretation send_ctx: session_operation "inter_send_ctx ctx opc"
  by unfold_locales (simp add: inter_send_ctx_def tracked_emit)

text \<open>The completion of a file is one of the steps of the server's runs: it is the send of the content.\<close>

lemma file_completion_is_send:
  assumes "0 \<le> fd" "0 \<le> close_res"
  shows "\<exists>r io'. finish_read file_callbacks fd content close_res (ws_sendFile path s)
    = Ok \<lparr>self = r, alive = True, client = ws_send content s, rio = io'\<rparr>"
proof -
  obtain r io where r: "buffered r = content" "getReadByte r = length content"
    "read_file file_callbacks path fd content close_res (new_reader s) =
       Ok (FILE_CALLBACK (m_onClose file_callbacks) Cb_Close \<lparr>self = r, alive = True, client = s, rio = io\<rparr>)"
    using read_file_buffers [OF assms(1), of content file_callbacks path s] assms(2) by metis
  then have "inter_send_ctx (setMsg_reader r WriteCtx_init) WS_TEXT s = ws_send content s"
    by (simp add: inter_send_ctx_file ws_send_def)
  with r(3) show ?thesis
    by (auto simp: read_file_def ws_sendFile_def FILE_CALLBACK_def file_callbacks_def fr_io_def)
qed

lemma ws_send_reads_back:
  assumes "content \<noteq> []" "length content \<le> 1024 * 1024" "between_frames False p"
  shows "\<exists>w q g. io (ws_send content s) = io s @ [Io_UvWrite w] \<and> parse cb p f w u = (SUCCESS, q, g, cb g u)
    \<and> opcode g = WS_TEXT \<and> payload g = content"
proof -
  have "0 < WS_TEXT" "WS_TEXT < 16" by (simp_all add: WS_TEXT_def)
  from inter_send_reads_back [OF assms(3) this assms(1,2), where cb = cb and f = f and s = u] obtain q g where
    "parse cb p f (inter_send_header WS_TEXT (of_nat (length content)) @ content) u = (SUCCESS, q, g, cb g u)"
    "opcode g = WS_TEXT" "payload g = content" by blast
  then show ?thesis by (simp add: ws_send_def inter_send_def emit_def)
qed

text \<open>
  C20. Sending a file. For every file of 1 byte to 1 MiB, when the open and the close succeed, the session
  writes, when the reader closes, one text frame from which a parser recovers exactly the content of the
  file. This holds in every state of the session: also after it has been CLOSED, when its socket is closing,
  the frame is written. The reader is still allocated at the end.
\<close>

theorem ws_file_roundtrip:
  assumes "0 \<le> fd" "0 \<le> close_res" "content \<noteq> []" "length content \<le> 1024 * 1024" "between_frames False p"
  shows "\<exists>st w q g. finish_read file_callbacks fd content close_res (ws_sendFile path s) = Ok st \<and> alive st
    \<and> io (client st) = io s @ [Io_UvWrite w] \<and> readyState (client st) = readyState s
    \<and> parse cb p f w u = (SUCCESS, q, g, cb g u) \<and> opcode g = WS_TEXT \<and> payload g = content"
proof -
  obtain r io' where r: "finish_read file_callbacks fd content close_res (ws_sendFile path s)
    = Ok \<lparr>self = r, alive = True, client = ws_send content s, rio = io'\<rparr>"
    using file_completion_is_send [OF assms(1,2)] by blast
  have "readyState (ws_send content s) = readyState s" by (simp add: ws_send_def inter_send_def emit_def)
  with r ws_send_reads_back [OF assms(3-5), of s cb f u] show ?thesis by auto
qed

theorem ws_file_roundtrip_witness:
  "\<exists>st w q g. finish_read file_callbacks 5 [104, 105] 0 (ws_sendFile [47] (WsSession_init 65536)) = Ok st \<and> alive st
    \<and> io (client st) = [Io_UvWrite w] \<and> readyState (client st) = CLOSED
    \<and> parse collect websocket_parser_init WsFrame_init w [] = (SUCCESS, q, g, collect g []) \<and> opcode g = WS_TEXT \<and> payload g = [104, 105]"
  using ws_file_roundtrip [of 5 0 "[104, 105]" websocket_parser_init "[47]" "WsSession_init 65536" collect WsFrame_init "[]"]
  by (simp add: WsSession_init_def between_frames_def websocket_parser_init_def)

text \<open>
  C19. JSON messages. A value whose JSON text has at most 1 MiB (its object keys sorted and without quotes,
  backslashes and control characters, its doubles printed with a decimal point and read back, \<open>json_ok\<close>) is
  sent as one text frame. A session that holds the payload of that frame as its message, alone or with text
  behind it that does not begin with a digit, a point, \<open>e\<close> or \<open>E\<close> (which could continue a number), gives the
  application the value \<open>received v\<close>: that is the value sent when all its strings are ASCII and otherwise not,
  as every byte above 0x7F of a string comes back as U+FFFF. A message that begins a string with plain
  characters and then an unknown escape ends the process of the session that asks for it, by the assertion
  in \<open>parse\<close>; when the escape comes first, the application is given null.
\<close>

theorem ws_json_messages:
  assumes "json_ok fmt dconv v" "length (stringify_value fmt v) \<le> 1024 * 1024" "between_frames False p"
    "ends_number junk" "list_all key_char a" "simple_escape e = None" "e \<noteq> 0x75"
  shows "(\<exists>w q g. io (ws_send_json fmt v s) = io s @ [Io_UvWrite w] \<and> parse cb p f w u = (SUCCESS, q, g, cb g u)
      \<and> opcode g = WS_TEXT
      \<and> getJsonMessage dconv (t\<lparr>m_frame := g\<lparr>payload := payload g @ junk\<rparr>\<rparr>) = Some (received v))
    \<and> (received v = v) = ascii v
    \<and> getJsonMessage dconv (t\<lparr>m_frame := h\<lparr>payload := QUOTE # a @ BACKSLASH # e # rest\<rparr>\<rparr>)
        = (if a = [] then Some L_null else None)"
proof -
  have ne: "stringify_value fmt v \<noteq> []" using stringify_not_blank [OF assms(1)] by auto
  obtain ret where "ret \<noteq> LEPT_PARSE_OK" "lept_parse dconv (QUOTE # a @ BACKSLASH # e # rest) = (if a = [] then Parsed ret L_null else Assertion_failed)"
    using bad_escape [OF assms(5-7), of dconv rest] by blast
  moreover have "ws_send_json fmt v s = ws_send (stringify_value fmt v) s"
    by (simp add: ws_send_json_def ws_send_def inter_send_ctx_string)
  ultimately show ?thesis
    using ws_send_reads_back [OF ne assms(2,3), of s cb f u] parse_printed [OF assms(1,4)]
    by (auto simp: getJsonMessage_def getStrMessage_def received_same)
qed

lemma sample_text:
  "stringify_value (\<lambda>_. bstr ''0.5'') sample =
     [0x7B, QUOTE, 0x61, QUOTE, 0x3A, 0x5B, 0x2D, 0x35, COMMA] @ bstr ''0.5''
     @ [COMMA, QUOTE, BACKSLASH, 0x2F, QUOTE, 0x5D, COMMA, QUOTE, 0x62, QUOTE, 0x3A, QUOTE]
     @ unicode_escape 0xC3 @ unicode_escape 0xA9 @ [QUOTE, 0x7D]"
  by (simp add: sample_def int_text_def to_string.simps stringify_string_def stringify_char_def sint_byte)

theorem ws_json_messages_witness:
  "(\<exists>w q g. io (ws_send_json (\<lambda>_. bstr ''0.5'') sample (WsSession_init 65536)) = [Io_UvWrite w]
      \<and> parse collect websocket_parser_init WsFrame_init w [] = (SUCCESS, q, g, collect g []) \<and> opcode g = WS_TEXT
      \<and> getJsonMessage (\<lambda>l. if l = bstr ''0.5'' then Some () else None)
            ((WsSession_init 65536)\<lparr>m_frame := g\<lparr>payload := payload g @ bstr '' and more''\<rparr>\<rparr>) = Some (received sample))
    \<and> getJsonMessage (\<lambda>l. if l = bstr ''0.5'' then Some () else None)
     ((WsSession_init 65536)\<lparr>m_frame := WsFrame_init\<lparr>payload := [QUOTE, 0x61, BACKSLASH, 0x78, QUOTE]\<rparr>\<rparr>) = None
    \<and> getJsonMessage (\<lambda>l. if l = bstr ''0.5'' then Some () else None)
     ((WsSession_init 65536)\<lparr>m_frame := WsFrame_init\<lparr>payload := [QUOTE, BACKSLASH, 0x78, QUOTE]\<rparr>\<rparr>) = Some L_null"
proof -
  have e: "unicode_escape 0xC3 = [BACKSLASH, 0x75, 0x46, 0x46, 0x46, 0x46]" "unicode_escape 0xA9 = [BACKSLASH, 0x75, 0x46, 0x46, 0x46, 0x46]"
    by (rule escape_high, simp)+
  have l: "length (stringify_value (\<lambda>_. bstr ''0.5'') sample) \<le> 1024 * 1024" unfolding sample_text e by simp
  have p: "between_frames False websocket_parser_init" "ends_number (bstr '' and more'')" "list_all key_char [0x61]" "list_all key_char []"
    "simple_escape 0x78 = None" "(0x78 :: byte) \<noteq> 0x75"
    by (simp_all add: between_frames_def websocket_parser_init_def ends_number_def ISDIGIT_def key_char_def simple_escape_def)
  have i: "io (WsSession_init 65536) = []" by (simp add: WsSession_init_def)
  note json = ws_json_messages [OF sample_ok l p(1,2) _ p(5,6), where s = "WsSession_init 65536" and t = "WsSession_init 65536"
      and h = WsFrame_init and f = WsFrame_init and cb = collect and u = "[]" and rest = "[QUOTE]"]
  from json [OF p(3)] json [OF p(4)] show ?thesis unfolding i append_Nil append_Cons by simp
qed

end
