(* ===== verification/Ws_Decoder.thy ===== *)
theory Ws_Decoder
  imports Ws_Session
begin

text \<open>
  A reference decoder for streams of WebSocket frames, after the picture in \<open>websocket_parser.h\<close>: it takes a
  whole frame from the front of the stream at a time, reads its length as a number, and knows nothing of
  states and buffers. The incremental parser of \<open>websocket_parser.cpp\<close> agrees with it on every input,
  well-formed or not.
\<close>

unbundle bit_operations_syntax

section \<open>The reference decoder\<close>

text \<open>The size of the extended length, of the whole header, and the length it announces.\<close>

definition ext_size :: "byte \<Rightarrow> nat" where
  "ext_size b1 = (let l = b1 AND 0x7F in if l = 127 then 8 else if l = 126 then 2 else 0)"

definition header_size :: "byte \<Rightarrow> nat" where
  "header_size b1 = 2 + ext_size b1 + (if bit b1 7 then 4 else 0)"

definition big_endian :: "bytes \<Rightarrow> nat" where
  "big_endian bs = foldl (\<lambda>n b. 256 * n + unat b) 0 bs"

definition announced :: "bytes \<Rightarrow> nat" where
  "announced bs = (if ext_size (bs ! 1) = 0 then unat (bs ! 1 AND 0x7F)
                   else big_endian (take (ext_size (bs ! 1)) (drop 2 bs)))"

definition xor_key :: "bytes \<Rightarrow> bytes \<Rightarrow> bytes" where
  "xor_key key pl = map (\<lambda>i. pl ! i XOR key ! (i mod 4)) [0..<length pl]"

text \<open>The payload of the frame at the front of \<open>bs\<close>, which has \<open>n\<close> bytes.\<close>

definition frame_data :: "bytes \<Rightarrow> nat \<Rightarrow> bytes" where
  "frame_data bs n =
     (let pl = take n (drop (header_size (bs ! 1)) bs)
      in if bit (bs ! 1) 7 then xor_key (take 4 (drop (2 + ext_size (bs ! 1)) bs)) pl else pl)"

text \<open>
  The messages of a stream (code, mask bit of the last frame, content) and whether it ends in a frame that is
  too long. \<open>cont\<close> tells that the last frame was not the final one of its message and \<open>m\<close> is the message
  read so far. A frame without payload is taken when the byte behind it is there.
\<close>

function ws_decode ::
  "bool \<Rightarrow> byte \<times> bytes \<Rightarrow> bytes \<Rightarrow> (byte \<times> bool \<times> bytes) list \<times> bool" where
  "ws_decode cont m bs =
     (if length bs < 2 \<or> length bs \<le> header_size (bs ! 1) then ([], False)
      else let n = announced bs; h = header_size (bs ! 1); final = bit (bs ! 0) 7; opc = bs ! 0 AND 0x0F
      in if 1024 * 1024 < n then ([], True)
         else if length bs < h + n then ([], False)
         else let m = (if \<not> cont \<and> opc \<noteq> 0 then (opc, []) else m);
                  m = (fst m, snd m @ frame_data bs n);
                  r = ws_decode (\<not> final) m (drop (h + n) bs)
              in (if final then (fst m, bit (bs ! 1) 7, snd m) # fst r else fst r, snd r))"
  by pat_completeness auto

termination
  by (relation "measure (\<lambda>(cont, m, bs). length bs)") (auto simp: header_size_def)

declare ws_decode.simps [simp del]

section \<open>Reading the header\<close>

lemma unat_byte: "unat (b :: byte) < 256"
  using unsigned_less [of b, where ?'a = nat] by simp

lemma big_endian_step:
  assumes "unat w < 2 ^ 56"
  shows "unat (push_bit 8 w OR ucast (b :: byte) :: size_t) = 256 * unat w + unat b"
proof -
  have "\<not> (bit (push_bit 8 w) i \<and> bit (ucast b :: size_t) i)" for i
    using bit_imp_le_length [of b i] by (auto simp: bit_simps)
  then have "push_bit 8 w OR ucast b = push_bit 8 w + (ucast b :: size_t)"
    by (simp add: disjunctive_add)
  moreover have "unat (push_bit 8 w) = 256 * unat w"
    using assms by (simp add: push_bit_eq_mult unat_word_ariths)
  moreover have b: "unat b < 256" by (rule unat_byte)
  moreover have "unat (ucast b :: size_t) = unat b" using b by (simp add: unsigned_ucast_eq take_bit_nat_eq_self)
  ultimately show ?thesis using assms by (simp add: unat_word_ariths)
qed

lemma big_endian_word:
  fixes bs :: bytes
  shows "unat w < 2 ^ (64 - 8 * length bs) \<Longrightarrow> length bs \<le> 8 \<Longrightarrow>
     unat (foldl (\<lambda>n b. push_bit 8 n OR ucast b) w bs :: size_t) = foldl (\<lambda>n b. 256 * n + unat b) (unat w) bs"
proof (induction bs arbitrary: w)
  case (Cons b bs)
  let ?e = "64 - 8 * length (b # bs)" and ?w = "push_bit 8 w OR ucast b :: size_t"
  have "(2 :: nat) ^ ?e \<le> 2 ^ 56" by (rule power_increasing) simp_all
  with Cons.prems(1) have lt: "unat w < 2 ^ 56" by (rule order.strict_trans2)
  have "64 - 8 * length bs = ?e + 8" using Cons.prems(2) by simp
  then have e: "2 ^ (64 - 8 * length bs) = 256 * (2 :: nat) ^ ?e" by (simp only: power_add) simp
  have "unat b < 256" by (rule unat_byte)
  with Cons.prems(1) have "256 * unat w + unat b < 256 * 2 ^ ?e" by linarith
  then have "unat ?w < 2 ^ (64 - 8 * length bs)" by (simp only: big_endian_step [OF lt] e)
  moreover have "length bs \<le> 8" using Cons.prems(2) by simp
  ultimately have "unat (foldl (\<lambda>n b. push_bit 8 n OR ucast b) ?w bs) = foldl (\<lambda>n b. 256 * n + unat b) (unat ?w) bs"
    by (rule Cons.IH)
  then show ?case by (simp only: foldl.simps big_endian_step [OF lt])
qed simp

lemma parse_length_field:
  assumes "m_status p = St_payloadLen" "unat (m_byteNeed p) = length bs" "bs \<noteq> []"
  shows "parse_loop cb p f (bs @ rest) s =
    (let (q, g) = SWITCH_TO_MASK p (f\<lparr>payload_len := foldl (\<lambda>n b. push_bit 8 n OR ucast b) (payload_len f) bs\<rparr>)
     in parse_loop cb q g rest s)"
  using assms
proof (induction bs arbitrary: p f)
  case (Cons b bs)
  have nz: "m_byteNeed p \<noteq> 0" using Cons.prems(2) by auto
  have pred: "unat (m_byteNeed p - 1) = length bs"
    using Cons.prems(2) unat_sub_of_nat [of 1 "m_byteNeed p"] by simp
  show ?case
  proof (cases "bs = []")
    case True
    with pred have "m_byteNeed p - 1 = 0" by (simp add: unat_eq_0)
    with nz True Cons.prems(1) show ?thesis by (simp add: on_payloadLen_def Let_def)
  next
    case False
    with pred have n1: "m_byteNeed p - 1 \<noteq> 0" by auto
    then show ?thesis
      using Cons.IH [of "p\<lparr>m_byteNeed := m_byteNeed p - 1\<rparr>" "f\<lparr>payload_len := push_bit 8 (payload_len f) OR ucast b\<rparr>"]
        Cons.prems(1) nz pred False
      by (simp add: on_payloadLen_def Let_def)
  qed
qed simp

lemma parse_length_short:
  assumes "m_status p = St_payloadLen" "length bs < unat (m_byteNeed p)"
  shows "\<exists>q g. parse_loop cb p f bs s = (SUCCESS, q, g, s)"
  using assms
proof (induction bs arbitrary: p f)
  case (Cons b bs)
  then have nz: "m_byteNeed p \<noteq> 0" by auto
  have pred: "length bs < unat (m_byteNeed p - 1)"
    using Cons.prems(2) unat_sub_of_nat [of 1 "m_byteNeed p"] by simp
  then have "m_byteNeed p - 1 \<noteq> 0" by auto
  with nz pred Cons.IH [of "p\<lparr>m_byteNeed := m_byteNeed p - 1\<rparr>"] Cons.prems(1) show ?case
    by (simp add: on_payloadLen_def Let_def)
qed simp

lemma parse_key_short:
  assumes "m_status p = St_maskKey" "length bs < unat (m_byteNeed p)"
  shows "\<exists>q g. parse_loop cb p f bs s = (SUCCESS, q, g, s)"
  using assms
proof (induction bs arbitrary: p f)
  case (Cons b bs)
  then have nz: "m_byteNeed p \<noteq> 0" by auto
  have pred: "length bs < unat (m_byteNeed p - 1)"
    using Cons.prems(2) unat_sub_of_nat [of 1 "m_byteNeed p"] by simp
  then have "m_byteNeed p - 1 \<noteq> 0" by auto
  with nz pred Cons.IH [of "p\<lparr>m_byteNeed := m_byteNeed p - 1\<rparr>"] Cons.prems(1) show ?case
    by (simp add: on_maskKey_def Let_def)
qed simp

lemma parse_switched:
  assumes "mask_bit f \<longrightarrow> 4 \<le> length bs"
  shows "(let (q, g) = SWITCH_TO_MASK p f in parse_loop cb q g bs s) =
    parse_loop cb (p\<lparr>m_byteNeed := payload_len f, m_status := St_payload\<rparr>)
      (if mask_bit f then f\<lparr>mask_key := take 4 bs\<rparr> else f) (drop (if mask_bit f then 4 else 0) bs) s"
proof (cases "mask_bit f")
  case True
  with assms have "length (take 4 bs) = 4" by simp
  from parse_mask_key [OF this, where rest = "drop 4 bs"] True show ?thesis by (simp add: SWITCH_TO_MASK_def)
next
  case False
  then show ?thesis by (cases p) (simp add: SWITCH_TO_MASK_def)
qed

lemma parse_switched_short:
  assumes "mask_bit f" "length bs < 4"
  shows "\<exists>q g. (let (q, g) = SWITCH_TO_MASK p f in parse_loop cb q g bs s) = (SUCCESS, q, g, s)"
  using assms parse_key_short [of "p\<lparr>m_status := St_maskKey, m_byteNeed := 4\<rparr>" bs cb "f\<lparr>mask_key := []\<rparr>" s]
  by (simp add: SWITCH_TO_MASK_def)

text \<open>The first two bytes, and the length behind them.\<close>

lemma ext_size_values: "ext_size b1 \<in> {0, 2, 8}"
  by (simp add: ext_size_def Let_def)

lemma seven_bits: "unat ((b1 :: byte) AND 0x7F) < 128"
proof -
  have "b1 AND 0x7F = take_bit 7 b1" by (simp add: take_bit_eq_mask mask_eq_exp_minus_1)
  then show ?thesis using take_bit_nat_less_exp [of 7 "unat b1"] by (simp add: unsigned_take_bit_eq)
qed

lemma payloadLenAndMask_cases:
  assumes "m_status p = St_payloadLenAndMask"
  shows "parse_loop cb p f (b1 # bs) s =
    (let g = f\<lparr>mask_bit := bit b1 7, payload_len := (if ext_size b1 = 0 then ucast (b1 AND 0x7F) else 0)\<rparr>
     in if ext_size b1 = 0 then let (q, g) = SWITCH_TO_MASK p g in parse_loop cb q g bs s
        else parse_loop cb (p\<lparr>m_status := St_payloadLen, m_byteNeed := of_nat (ext_size b1)\<rparr>) g bs s)"
proof -
  let ?l = "b1 AND 0x7F"
  have u: "unat (ucast ?l :: size_t) = unat ?l"
    using unat_byte [of ?l] by (simp add: unsigned_ucast_eq take_bit_nat_eq_self)
  have eq: "(ucast ?l :: size_t) = 126 \<longleftrightarrow> ?l = 126" "(ucast ?l :: size_t) = 127 \<longleftrightarrow> ?l = 127"
    using u by (simp_all add: word_unat_eq_iff)
  have le: "(ucast ?l :: size_t) \<le> 125 \<longleftrightarrow> unat ?l \<le> 125" using u by (simp add: word_le_nat_alt)
  have "unat ?l \<le> 125 \<longleftrightarrow> ?l \<noteq> 126 \<and> ?l \<noteq> 127"
    using seven_bits [of b1] by (auto simp: word_unat_eq_iff)
  then show ?thesis
    using assms le eq
    by (auto simp: on_payloadLenAndMask_def GET_MASK_def GET_PAYLOAD_LEN_def byte_top_bit ext_size_def Let_def split: prod.splits)
qed

lemma frame_first_byte:
  assumes "between_frames cont p"
  shows "parse_loop cb p f (b0 # bs) s = parse_loop cb (p\<lparr>m_status := St_payloadLenAndMask\<rparr>) (frame_begin p f b0) bs s"
    and "fin (frame_begin p f b0) = bit b0 7"
    and "(opcode (frame_begin p f b0), payload (frame_begin p f b0))
      = (if \<not> cont \<and> b0 AND 0x0F \<noteq> 0 then (b0 AND 0x0F, []) else (opcode f, payload f))"
  using assms by (simp_all add: between_frames_def frame_begin_def on_finAndOpcode_def GET_FIN_def GET_OPCODE_def
      byte_top_bit Let_def)

declare parse_loop.simps(2) [simp del]

text \<open>What the frame record holds when the header has been read.\<close>

definition header_read :: "bool \<Rightarrow> byte \<times> bytes \<Rightarrow> bytes \<Rightarrow> WsFrame \<Rightarrow> bool" where
  "header_read cont m bs g \<longleftrightarrow> mask_bit g = bit (bs ! 1) 7
     \<and> (mask_bit g \<longrightarrow> mask_key g = take 4 (drop (2 + ext_size (bs ! 1)) bs))
     \<and> fin g = bit (bs ! 0) 7 \<and> unat (payload_len g) = announced bs
     \<and> (opcode g, payload g) = (if \<not> cont \<and> bs ! 0 AND 0x0F \<noteq> 0 then (bs ! 0 AND 0x0F, []) else m)"

lemma parse_header:
  assumes b: "between_frames cont p" and len: "2 \<le> length bs" "header_size (bs ! 1) \<le> length bs"
  obtains q g where "parse_loop cb p f bs s = parse_loop cb q g (drop (header_size (bs ! 1)) bs) s"
    "m_status q = St_payload" "m_byteNeed q = payload_len g" "m_maskIndex q = 0"
    "header_read cont (opcode f, payload f) bs g"
proof -
  obtain b0 b1 r where bs: "bs = b0 # b1 # r" using len(1) by (cases bs; cases "tl bs") auto
  let ?e = "ext_size b1" and ?p = "p\<lparr>m_status := St_payloadLenAndMask\<rparr>"
  let ?w = "if ?e = 0 then ucast (b1 AND 0x7F) else foldl (\<lambda>n b. push_bit 8 n OR ucast b) 0 (take ?e r) :: size_t"
  let ?f = "(frame_begin p f b0)\<lparr>mask_bit := bit b1 7, payload_len := ?w\<rparr>"
  have r: "?e \<le> length r" "bit b1 7 \<longrightarrow> 4 \<le> length (drop ?e r)" using len(2) by (auto simp: bs header_size_def)
  have e: "?e \<noteq> 0 \<Longrightarrow> take ?e r \<noteq> []" "unat (of_nat ?e :: size_t) = ?e" "?e \<le> 8"
    using r(1) ext_size_values [of b1] by auto
  have sw: "SWITCH_TO_MASK (q\<lparr>m_status := x, m_byteNeed := y\<rparr>) g = SWITCH_TO_MASK q g" for q x y g
    by (simp add: SWITCH_TO_MASK_def)
  have "parse_loop cb ?p (frame_begin p f b0) (b1 # r) s
      = (let (q, g) = SWITCH_TO_MASK ?p ?f in parse_loop cb q g (drop ?e r) s)"
  proof (cases "?e = 0")
    case True
    then show ?thesis by (simp add: payloadLenAndMask_cases Let_def)
  next
    case False
    let ?p1 = "?p\<lparr>m_status := St_payloadLen, m_byteNeed := of_nat ?e\<rparr>"
    let ?f1 = "(frame_begin p f b0)\<lparr>mask_bit := bit b1 7, payload_len := 0\<rparr>"
    have "parse_loop cb ?p1 ?f1 (take ?e r @ drop ?e r) s = (let (q, g) = SWITCH_TO_MASK ?p1 (?f1\<lparr>payload_len
        := foldl (\<lambda>n b. push_bit 8 n OR ucast b) (payload_len ?f1) (take ?e r)\<rparr>) in parse_loop cb q g (drop ?e r) s)"
      by (rule parse_length_field) (use r(1) e False in simp_all)
    with False show ?thesis by (simp add: payloadLenAndMask_cases sw Let_def)
  qed
  also have "\<dots> = parse_loop cb (?p\<lparr>m_byteNeed := ?w, m_status := St_payload\<rparr>)
      (if bit b1 7 then ?f\<lparr>mask_key := take 4 (drop ?e r)\<rparr> else ?f) (drop (if bit b1 7 then 4 else 0) (drop ?e r)) s"
    by (subst parse_switched) (use r(2) in simp_all)
  finally have run: "parse_loop cb p f bs s = parse_loop cb (?p\<lparr>m_byteNeed := ?w, m_status := St_payload\<rparr>)
      (if bit b1 7 then ?f\<lparr>mask_key := take 4 (drop ?e r)\<rparr> else ?f) (drop (header_size (bs ! 1)) bs) s"
    unfolding frame_first_byte(1) [OF b, of cb f b0 "b1 # r" s, folded bs] by (simp add: bs header_size_def add.commute)
  have "unat ?w = announced bs"
    using big_endian_word [of 0 "take ?e r"] e(3) r(1) unat_byte [of "b1 AND 0x7F"]
    by (simp add: bs announced_def big_endian_def unsigned_ucast_eq take_bit_nat_eq_self)
  then have read: "header_read cont (opcode f, payload f) bs (if bit b1 7 then ?f\<lparr>mask_key := take 4 (drop ?e r)\<rparr> else ?f)"
    using frame_first_byte(2,3) [OF b, of f b0] by (simp add: header_read_def bs)
  show ?thesis by (rule that [OF run _ _ _ read]) (use b in \<open>simp_all add: between_frames_def\<close>)
qed

lemma parse_header_short:
  assumes b: "between_frames cont p" and len: "length bs < 2 \<or> length bs < header_size (bs ! 1)"
  shows "\<exists>q g. parse_loop cb p f bs s = (SUCCESS, q, g, s)"
proof (cases "length bs < 2")
  case True
  then consider "bs = []" | b0 where "bs = [b0]" by (cases bs; cases "tl bs") auto
  then show ?thesis by cases (simp_all add: frame_first_byte(1) [OF b])
next
  case False
  then obtain b0 b1 r where bs: "bs = b0 # b1 # r" by (cases bs; cases "tl bs") auto
  let ?e = "ext_size b1" and ?p = "p\<lparr>m_status := St_payloadLenAndMask\<rparr>"
  let ?p1 = "?p\<lparr>m_status := St_payloadLen, m_byteNeed := of_nat ?e\<rparr>"
  let ?f1 = "(frame_begin p f b0)\<lparr>mask_bit := bit b1 7, payload_len := 0\<rparr>"
  have len: "length r < ?e + (if bit b1 7 then 4 else 0)" using len False by (simp add: bs header_size_def)
  have e: "unat (of_nat ?e :: size_t) = ?e" using ext_size_values [of b1] by auto
  have run: "parse_loop cb p f bs s = parse_loop cb ?p (frame_begin p f b0) (b1 # r) s"
    unfolding bs by (rule frame_first_byte(1) [OF b])
  consider (zero) "?e = 0" | (len) "?e \<noteq> 0" "length r < ?e" | (key) "?e \<noteq> 0" "?e \<le> length r" by linarith
  then show ?thesis
  proof cases
    case zero
    with len have "bit b1 7" "length r < 4" by (simp_all split: if_splits)
    then show ?thesis unfolding run using zero
      by (simp add: Let_def payloadLenAndMask_cases) (rule parse_switched_short [unfolded Let_def]; simp)
  next
    case len
    then show ?thesis unfolding run using parse_length_short [of ?p1 r cb ?f1 s] e
      by (simp add: payloadLenAndMask_cases Let_def)
  next
    case key
    with len have m: "bit b1 7" "length (drop ?e r) < 4" by (simp_all split: if_splits)
    have "parse_loop cb ?p1 ?f1 (take ?e r @ drop ?e r) s = (let (q, g) = SWITCH_TO_MASK ?p1 (?f1\<lparr>payload_len
        := foldl (\<lambda>n b. push_bit 8 n OR ucast b) (payload_len ?f1) (take ?e r)\<rparr>) in parse_loop cb q g (drop ?e r) s)"
      by (rule parse_length_field) (use key e in auto)
    moreover have "\<exists>q g. \<dots> = (SUCCESS, q, g, s)" by (rule parse_switched_short) (use m in simp_all)
    ultimately show ?thesis unfolding run using key(1) by (simp add: payloadLenAndMask_cases Let_def)
  qed
qed

section \<open>Reading the payload\<close>

lemma unmask_xor:
  "i < 4 \<Longrightarrow> fst (unmask key i pl) = map (\<lambda>j. pl ! j XOR key ! ((i + j) mod 4)) [0..<length pl]"
proof (induction key i pl rule: unmask.induct)
  case (2 key i b bs)
  have "[0..<length (b # bs)] = 0 # map Suc [0..<length bs]" by (simp add: map_Suc_upt upt_conv_Cons del: upt_Suc)
  then have "map (\<lambda>j. (b # bs) ! j XOR key ! ((i + j) mod 4)) [0..<length (b # bs)]
      = (b XOR key ! i) # map (\<lambda>j. bs ! j XOR key ! (((i + 1) mod 4 + j) mod 4)) [0..<length bs]"
    using "2.prems" by (simp add: mod_add_left_eq del: upt_Suc)
  with "2.IH" show ?case by (simp add: prod.case_eq_if Let_def del: upt_Suc)
qed simp

lemma unmask_xor_key: "fst (unmask key 0 pl) = xor_key key pl"
  by (simp add: unmask_xor xor_key_def)

lemma parse_data_short:
  assumes "m_status q = St_payload" "m_byteNeed q = payload_len g" "payload_len g \<le> LIMIT_PAYLOAD_LEN"
    "length bs < unat (payload_len g)"
  shows "\<exists>q' g'. parse_loop cb q g bs s = (SUCCESS, q', g', s)"
proof (cases "bs = []")
  case False
  obtain q' g' n where r: "read_payload q g bs = (q', g', n)" by (cases "read_payload q g bs") auto
  have "length bs < unat (m_byteNeed q)" using assms(2,4) by simp
  note sp = read_payload_split(2,3) [OF this r]
  have "parse_loop cb q g bs s = (SUCCESS, q', g', s)"
    using parse_loop_payload [OF assms(1) _ False r] assms(3) sp by (simp add: not_less)
  then show ?thesis by blast
qed simp

lemma parse_data:
  assumes st: "m_status q = St_payload" "m_byteNeed q = payload_len g" "m_maskIndex q = 0"
    and len: "payload_len g \<le> LIMIT_PAYLOAD_LEN" "unat (payload_len g) \<le> length bs" "bs \<noteq> []"
  obtains q' g' where "parse_loop cb q g bs s
      = parse_loop cb q' g' (drop (unat (payload_len g)) bs) (if fin g then cb g' s else s)"
    "between_frames (\<not> fin g) q'" "opcode g' = opcode g" "mask_bit g' = mask_bit g"
    "payload g' = payload g @ (let pl = take (unat (payload_len g)) bs in if mask_bit g then xor_key (mask_key g) pl else pl)"
proof -
  obtain q1 g1 n where r: "read_payload q g bs = (q1, g1, n)" by (cases "read_payload q g bs") auto
  note f = read_payload_fields [OF r]
  have n: "n = unat (payload_len g)" using read_payload_taken [OF r] st(2) len(2) by simp
  then have z: "m_byteNeed q1 = 0" by (simp add: f(1) st(2))
  obtain q2 s2 where c: "on_complete cb (q1\<lparr>m_status := St_complete\<rparr>) g1 s = (q2, s2)"
    by (cases "on_complete cb (q1\<lparr>m_status := St_complete\<rparr>) g1 s") auto
  then have q2: "between_frames (\<not> fin g) q2" "s2 = (if fin g then cb g1 s else s)"
    using f(9) by (auto simp: on_complete_def between_frames_def Let_def split: if_splits)
  have "parse_loop cb q g bs s = parse_loop cb q2 g1 (drop (unat (payload_len g)) bs) (if fin g then cb g1 s else s)"
    using parse_loop_payload [OF st(1) _ len(3) r, of cb s] len(1) z c q2(2) n by (simp add: not_less)
  then show ?thesis by (rule that [OF _ q2(1)]) (simp_all add: f n st(3) unmask_xor_key Let_def)
qed

section \<open>The two agree\<close>

text \<open>A callback that looks at the code, the mask bit and the content of a frame, as \<open>handleWsFrame\<close> does.\<close>

definition on_message :: "(byte \<times> bool \<times> bytes \<Rightarrow> 's \<Rightarrow> 's) \<Rightarrow> WsFrame \<Rightarrow> 's \<Rightarrow> 's" where
  "on_message h g s = h (opcode g, mask_bit g, payload g) s"

lemma parse_loop_decodes:
  "between_frames cont p \<Longrightarrow> \<exists>q g. parse_loop (on_message h) p f bs s =
     (if snd (ws_decode cont (opcode f, payload f) bs) then INVALID_PAYLOAD_LEN else SUCCESS, q, g,
      fold h (fst (ws_decode cont (opcode f, payload f) bs)) s)"
proof (induction "length bs" arbitrary: cont p f bs s rule: less_induct)
  case less
  let ?cb = "on_message h" and ?m = "(opcode f, payload f)" and ?h = "header_size (bs ! 1)" and ?n = "announced bs"
  show ?case
  proof (cases "length bs < 2 \<or> length bs < ?h")
    case True
    with parse_header_short [OF less.prems this, of ?cb f s] show ?thesis by (auto simp: ws_decode.simps [of cont ?m bs])
  next
    case False
    then have len: "2 \<le> length bs" "?h \<le> length bs" by simp_all
    obtain q g where run: "parse_loop ?cb p f bs s = parse_loop ?cb q g (drop ?h bs) s"
      and q: "m_status q = St_payload" "m_byteNeed q = payload_len g" "m_maskIndex q = 0" and g: "header_read cont ?m bs g"
      by (rule parse_header [OF less.prems len])
    have n: "unat (payload_len g) = ?n" "payload_len g \<le> LIMIT_PAYLOAD_LEN \<longleftrightarrow> ?n \<le> 1024 * 1024"
      using g by (simp_all add: header_read_def word_le_nat_alt LIMIT_PAYLOAD_LEN_def)
    consider (wait) "length bs = ?h" | (long) "?h < length bs" "1024 * 1024 < ?n"
      | (part) "?h < length bs" "?n \<le> 1024 * 1024" "length bs < ?h + ?n"
      | (whole) "?h < length bs" "?n \<le> 1024 * 1024" "?h + ?n \<le> length bs"
      using len by linarith
    then show ?thesis
    proof cases
      case wait
      then show ?thesis using run by (simp add: ws_decode.simps [of cont ?m bs])
    next
      case long
      obtain b rest where "drop ?h bs = b # rest" using long(1) by (cases "drop ?h bs") auto
      then have "\<exists>q' g'. parse_loop ?cb q g (drop ?h bs) s = (INVALID_PAYLOAD_LEN, q', g', s)"
        using q(1) n(2) long(2) by (simp add: parse_loop.simps(2) not_le)
      with run long len show ?thesis by (simp add: ws_decode.simps [of cont ?m bs] Let_def)
    next
      case part
      with parse_data_short [OF q(1,2), of "drop ?h bs" ?cb s] n have "\<exists>q' g'. parse_loop ?cb q g (drop ?h bs) s = (SUCCESS, q', g', s)"
        by simp
      with run part len show ?thesis by (simp add: ws_decode.simps [of cont ?m bs] Let_def)
    next
      case whole
      have d: "unat (payload_len g) \<le> length (drop ?h bs)" "drop ?h bs \<noteq> []" using whole n(1) by simp_all
      obtain q' g' where next_frame: "parse_loop ?cb q g (drop ?h bs) s
          = parse_loop ?cb q' g' (drop (unat (payload_len g)) (drop ?h bs)) (if fin g then ?cb g' s else s)"
        and q': "between_frames (\<not> fin g) q'" "opcode g' = opcode g" "mask_bit g' = mask_bit g"
        "payload g' = payload g @ (let pl = take (unat (payload_len g)) (drop ?h bs) in if mask_bit g then xor_key (mask_key g) pl else pl)"
        by (rule parse_data [OF q _ d]) (use n(2) whole(2) in simp)
      have fin: "fin g = bit (bs ! 0) 7" using g by (simp add: header_read_def)
      have m: "(opcode g', payload g') = (let m = if \<not> cont \<and> bs ! 0 AND 0x0F \<noteq> 0 then (bs ! 0 AND 0x0F, []) else ?m
          in (fst m, snd m @ frame_data bs ?n))" "mask_bit g' = bit (bs ! 1) 7"
        using g q'(2-4) n(1) by (auto simp: header_read_def frame_data_def Let_def)
      have "length (drop (?h + ?n) bs) < length bs" using len by (simp add: header_size_def)
      from less.hyps [OF this q'(1), of g' "if fin g then ?cb g' s else s"] obtain q2 g2 where
        "parse_loop ?cb q' g' (drop (?h + ?n) bs) (if fin g then ?cb g' s else s) =
          (if snd (ws_decode (\<not> fin g) (opcode g', payload g') (drop (?h + ?n) bs)) then INVALID_PAYLOAD_LEN else SUCCESS, q2, g2,
           fold h (fst (ws_decode (\<not> fin g) (opcode g', payload g') (drop (?h + ?n) bs))) (if fin g then ?cb g' s else s))"
        by blast
      moreover have "ws_decode cont ?m bs = (let r = ws_decode (\<not> fin g) (opcode g', payload g') (drop (?h + ?n) bs)
          in (if fin g then (opcode g', mask_bit g', payload g') # fst r else fst r, snd r))"
        using whole len m by (subst ws_decode.simps) (auto simp: fin Let_def split: if_splits)
      ultimately show ?thesis
        unfolding run next_frame by (simp add: n(1) add.commute on_message_def Let_def)
    qed
  qed
qed

text \<open>
  C5. The parser is the reference decoder. For every input, well-formed or not, and every way it is cut into
  buffers, a session's parser (constructed, on any frame record) completes exactly the messages the
  decoder finds in the whole stream, in that order, with that code, mask bit and content, and reports
  \<open>INVALID_PAYLOAD_LEN\<close> exactly if the decoder meets a frame that announces more than 1 MiB. No other error is
  ever reported: neither the reserved bits nor the operation code are looked at.
\<close>

theorem ws_parser_decodes:
  "\<exists>q g. foldl (parse_next (on_message h)) (SUCCESS, websocket_parser_init, f, s) bufs =
     (if snd (ws_decode False (opcode f, payload f) (concat bufs)) then INVALID_PAYLOAD_LEN else SUCCESS, q, g,
      fold h (fst (ws_decode False (opcode f, payload f) (concat bufs))) s)"
proof -
  have "between_frames False websocket_parser_init" by (simp add: between_frames_def websocket_parser_init_def)
  from parse_loop_decodes [OF this, of h f "concat bufs" s] show ?thesis
    by (simp add: ws_stream.feed_chunks parse_next_def parse_eq_loop)
qed

section \<open>Control frames between fragments\<close>

lemma client_frame_stores:
  assumes "between_frames cont p" "fragment_ok (k, pl)" "opc < 16" "b0 = opc \<or> b0 = 0x80 OR opc"
  obtains q g where "\<And>rest s. parse_loop cb p f (client_frame b0 k pl @ rest) s = parse_loop cb q g rest (if GET_FIN b0 then cb g s else s)"
    "between_frames (\<not> GET_FIN b0) q" "mask_bit g"
    "opcode g = (if \<not> cont \<and> opc \<noteq> 0 then opc else opcode f)"
    "payload g = (if \<not> cont \<and> opc \<noteq> 0 then [] else payload f) @ pl"
proof -
  let ?q = "\<lparr>m_status = St_finAndOpcode, m_byteNeed = 0, m_isContinuation = (\<not> GET_FIN b0), m_maskIndex = 0\<rparr>"
  have "parse_loop cb p f (client_frame b0 k pl @ rest) s
      = parse_loop cb ?q (frame_end p f b0 k pl) rest (if GET_FIN b0 then cb (frame_end p f b0 k pl) s else s)" for rest s
    using assms(1,2) by (intro parse_client_frame) (simp_all add: between_frames_def fragment_ok_def)
  moreover have "between_frames (\<not> GET_FIN b0) ?q" by (simp add: between_frames_def)
  ultimately show ?thesis
    using assms(1) frame_end_fields [OF assms(3,4), of p f k pl]
    by (intro that [of ?q "frame_end p f b0 k pl"]) (simp_all add: between_frames_def)
qed

text \<open>
  C37. A control frame between the fragments of a message. RFC 6455 lets a peer send a ping, a pong or a close
  frame between two fragments. The parser takes it for the last fragment: the session hands the application the
  message cut off there with the data of the control frame at its end, does not answer or act on the control
  frame, and then, for the real last fragment, hands the application the same text once more, continued, as a
  second message.
\<close>

theorem control_frame_joins_message:
  assumes "between_frames False (m_parser s)" "readyState s = OPEN" "opc \<in> {WS_TEXT, WS_BINARY}" "ctl \<in> {WS_CLOSE, WS_PING, WS_PONG}"
    "fragment_ok (k1, a)" "fragment_ok (k2, b)" "fragment_ok (k3, c)"
  shows "io (ws_recv_cb (answering reply) (Read_data
           (client_frame opc k1 a @ client_frame (0x80 OR ctl) k2 b @ client_frame 0x80 k3 c)) s)
     = answer reply (opc, a @ b @ c) (answer reply (opc, a @ b) (io s))
   \<and> readyState (ws_recv_cb (answering reply) (Read_data
           (client_frame opc k1 a @ client_frame (0x80 OR ctl) k2 b @ client_frame 0x80 k3 c)) s) = OPEN"
proof -
  let ?cb = "on_frame (answering reply)"
  have small: "opc < 16" "opc \<noteq> 0" "opc \<noteq> WS_CLOSE" "ctl < 16" using assms(3,4) by (auto simp: WsCode_defs)
  note fins = first_byte_bits(1,2) [OF small(1)] first_byte_bits(1) [OF small(4)]
  obtain q1 g1 where 1: "\<And>rest s'. parse_loop ?cb (m_parser s) (m_frame s) (client_frame opc k1 a @ rest) s' = parse_loop ?cb q1 g1 rest s'"
    "between_frames True q1" "opcode g1 = opc" "payload g1 = a"
    by (rule client_frame_stores [OF assms(1,5) small(1), of opc ?cb "m_frame s"]) (use small fins in simp_all)
  obtain q2 g2 where 2: "\<And>rest s'. parse_loop ?cb q1 g1 (client_frame (0x80 OR ctl) k2 b @ rest) s' = parse_loop ?cb q2 g2 rest (?cb g2 s')"
    "between_frames False q2" "mask_bit g2" "opcode g2 = opc" "payload g2 = a @ b"
    by (rule client_frame_stores [OF 1(2) assms(6) small(4), of "0x80 OR ctl" ?cb g1]) (use 1(3,4) fins in simp_all)
  obtain q3 g3 where 3: "\<And>rest s'. parse_loop ?cb q2 g2 (client_frame 0x80 k3 c @ rest) s' = parse_loop ?cb q3 g3 rest (?cb g3 s')"
    "mask_bit g3" "opcode g3 = opc" "payload g3 = a @ b @ c"
    by (rule client_frame_stores [OF 2(2) assms(7), of 0 "0x80" ?cb g2]) (use 2(4,5) in \<open>simp_all add: GET_FIN_def\<close>)
  let ?buf = "client_frame opc k1 a @ client_frame (0x80 OR ctl) k2 b @ client_frame 0x80 k3 c"
  have "parse_loop ?cb (m_parser s) (m_frame s) (?buf @ []) s = (SUCCESS, q3, g3, ?cb g3 (?cb g2 s))"
    by (simp only: append_assoc 1(1) 2(1) 3(1) parse_loop.simps(1))
  then have "handleMessage (answering reply) ?buf s = (?cb g3 (?cb g2 s))\<lparr>m_parser := q3, m_frame := g3\<rparr>"
    by (simp add: handleMessage_def parse_eq_loop on_frame_def [abs_def] Let_def)
  then show ?thesis using assms(2) small(3) 2(3-5) 3(2-4) by (simp add: on_frame_answering)
qed

theorem control_frame_joins_message_witness:
  "io (ws_recv_cb (answering (\<lambda>_ _. [])) (Read_data (client_frame WS_TEXT [1, 2, 3, 4] [72, 101]
        @ client_frame (0x80 OR WS_PING) [5, 6, 7, 8] [33] @ client_frame 0x80 [9, 9, 9, 9] [108]))
      (connect (answering (\<lambda>_ _. [])) (WsSession_init 65536)))
   = [Io_ReadStart, Io_OnMessage WS_TEXT [72, 101, 33], Io_OnMessage WS_TEXT [72, 101, 33, 108]]"
proof -
  let ?s = "connect (answering (\<lambda>_ _. [])) (WsSession_init 65536)"
  have "between_frames False (m_parser ?s)" "readyState ?s = OPEN" "io ?s = [Io_ReadStart]"
    by (simp_all add: connect_answering WsSession_init_def between_frames_def websocket_parser_init_def)
  from control_frame_joins_message [OF this(1,2), of WS_TEXT WS_PING "[1, 2, 3, 4]" "[72, 101]" "[5, 6, 7, 8]" "[33]"
      "[9, 9, 9, 9]" "[108]" "\<lambda>_ _. []"] this(3)
  show ?thesis by (simp add: fragment_ok_def answer_def WsCode_defs)
qed

end
