(* ===== verification/Jwt.thy ===== *)
theory Jwt
  imports Json_Text
begin

text \<open>
  \<open>JwtUtil\<close> (\<open>src/src/util/jwt.h\<close>, \<open>jwt.cpp\<close>): signing a JSON object as a token and verifying one. The
  libraries jwt-cpp and picojson are parameters: a record of the functions the code calls, with what it
  relies on stated as laws where a property needs them. A point in time is a number of nanoseconds.
\<close>

section \<open>The libraries\<close>



section \<open>The code\<close>













section \<open>What jwt-cpp promises\<close>

text \<open>
  A builder is a table of claims, in which the registered claims \<open>iat\<close> and \<open>exp\<close> have whole seconds; a token
  that was signed decodes to what was signed; its signature is valid for the key. \<open>jwt::verify()\<close> of jwt-cpp
  v0.7.0, the version \<open>src/CMakeLists.txt\<close> names, then makes three checks, without leeway, each of a claim
  that is there: \<open>exp\<close> has not passed, \<open>iat\<close> and \<open>nbf\<close> are not in the future. A claim that is no date throws,
  which is a refusal here.
\<close>











end
