(* ===== verification/Demo.thy ===== *)
theory Demo
  imports Http_Service Json_Text
begin

text \<open>
  The program of \<open>src/main.cpp\<close>: a server with two routes. The static counter of the first handler (an \<open>int\<close> that
  overflows after 2 to the 31 requests; a natural number here) is an argument of it; what the handlers print is left out, the changes they make to the request are not.
\<close>

definition demo_json :: "'d lept_value" where
  "demo_json = lept_value_of_list
     [lept_value_of_list [L_string (bstr ''port''), L_integer 8080],
      lept_value_of_list [L_string (bstr ''ip''), L_string (bstr ''127.0.0.1'')],
      lept_value_of_list [L_string (bstr ''author''), L_string (bstr ''away'')]]"

definition root_handler :: "('d \<Rightarrow> bytes) \<Rightarrow> nat \<Rightarrow> RouterHandler" where
  "root_handler fmt n req =
     (if n = 2 then (req, [Call_sendStr (bstr ''hello world'')], None)
      else if n = 1 then (req, [Call_sendJson (stringify_value fmt (demo_json :: 'd lept_value))], None)
      else if n = 0 then (req, [], Some (bstr ''./index.html''))
      else (req, [Call_sendStr (bstr ''hello world'')], None))"

text \<open>\<open>req->params["id"]\<close> enters an empty string when there is no parameter of that name.\<close>

definition map_index :: "bytes \<Rightarrow> HttpParamMap \<Rightarrow> bytes \<times> HttpParamMap" where
  "map_index k m = (case m k of Some v \<Rightarrow> (v, m) | None \<Rightarrow> ([], m(k \<mapsto> [])))"

definition id_handler :: RouterHandler where
  "id_handler req =
     (let (v, m) = map_index (bstr ''id'') (params req);
          (q, req) = query (req\<lparr>params := m\<rparr>)
      in (req, [Call_sendStr (bstr ''connect'')], None))"

definition demo_env :: "(bytes \<Rightarrow> 'rx option) \<Rightarrow> ('d \<Rightarrow> bytes) \<Rightarrow> nat \<Rightarrow> 'rx http_env \<Rightarrow> 'rx http_env" where
  "demo_env rx_compile fmt n env =
     get rx_compile (bstr ''/id/:id'') id_handler (get rx_compile (bstr ''/'') (root_handler fmt n) env)"

section \<open>What it does\<close>

text \<open>The JSON of the second response: the keys come out in order, and the text reads back.\<close>

lemma demo_json_object:
  "demo_json = L_object [(bstr ''author'', L_string (bstr ''away'')), (bstr ''ip'', L_string (bstr ''127.0.0.1'')),
     (bstr ''port'', L_integer 8080)]"
  by (simp add: demo_json_def lept_value_of_list_def)

lemma demo_json_reads:
  fixes fmt :: "'d \<Rightarrow> bytes" and dconv :: "bytes \<Rightarrow> 'd option"
  shows "lept_parse dconv (stringify_value fmt demo_json) = Parsed LEPT_PARSE_OK demo_json"
proof -
  have ok: "json_ok fmt dconv demo_json" and same: "ascii demo_json"
    by (simp_all add: demo_json_object key_char_def)
  have "ends_number []" by (simp add: ends_number_def ISDIGIT_def)
  from parse_printed [OF ok this] same show ?thesis by (simp flip: received_same)
qed

text \<open>The routes the two templates give.\<close>

lemma demo_templates:
  "parse_path_to_regex (bstr ''/'') = (bstr ''^/$'', [])"
  "parse_path_to_regex (bstr ''/id/:id'') = (bstr ''^/id/([^/]+)$'', [bstr ''id''])"
  by code_simp+

lemma demo_router:
  assumes "rx_compile (bstr ''^/$'') = Some r1" "rx_compile (bstr ''^/id/([^/]+)$'') = Some r2" "m_router env = Map.empty"
  shows "m_router (demo_env rx_compile fmt n env) =
    [HTTP_GET \<mapsto> [\<lparr>pattern = r1, handler = root_handler fmt n, paramNames = []\<rparr>,
                   \<lparr>pattern = r2, handler = id_handler, paramNames = [bstr ''id'']\<rparr>]]"
  using assms by (simp only: demo_env_def get_def addRoute_def demo_templates) simp

lemma demo_env_simps [simp]: "rx_match (demo_env rx_compile fmt n env) = rx_match env" "hdr_order (demo_env rx_compile fmt n env) = hdr_order env"
  by (simp_all add: demo_env_def get_def)

text \<open>
  The second route prints an empty line for every request: the loop over the captures does not bind the only
  parameter, and the index operator then makes an empty one.
\<close>

lemma demo_id_unbound:
  assumes "rx_compile (bstr ''^/$'') = Some r1" "rx_compile (bstr ''^/id/([^/]+)$'') = Some r2" "m_router env = Map.empty"
    "rmethod req = HTTP_GET" "rx_match env r1 (fst (split_at QM (url req))) = None"
    "rx_match env r2 (fst (split_at QM (url req))) = Some [p, x]" "params req = Map.empty"
  shows "\<exists>req'. dispatch (rx_match env) (m_router (demo_env rx_compile fmt n env)) req = (Some id_handler, req')
    \<and> fst (map_index (bstr ''id'') (params req')) = [] \<and> fst (snd (id_handler req')) = [Call_sendStr (bstr ''connect'')]"
  using assms(4-7) demo_router [OF assms(1-3), of fmt n]
  by (simp add: dispatch_def bind_params.simps map_index_def id_handler_def Let_def split_def)

end
