(* ===== verification/Keep_Alive.thy ===== *)
theory Keep_Alive
  imports Http_Service
begin

text \<open>
  A connection that is kept: the client sends a request, waits for the response, and sends the next one. The
  routes and handlers may change between two requests, as those of the demonstration server do.
\<close>

section \<open>One exchange\<close>

record 'rx exchange =
  x_env :: "'rx http_env"
  x_len :: size_t
  x_request :: request
  x_status :: int

text \<open>The request is delivered in one read and the write of its response completes with \<open>x_status\<close>.\<close>

definition serve :: "u32 \<Rightarrow> nat \<Rightarrow> 'rx exchange \<Rightarrow> 'w HttpServer \<Rightarrow> 'w HttpServer" where
  "serve mhs sid x sv =
     (case x_request x of (m, tgt, hs) \<Rightarrow>
        write_complete (x_env x) sid (x_status x) (deliver mhs (x_env x) sid (x_len x) (request_text m tgt hs) sv))"

text \<open>
  A plain request that asks for the connection to be kept and whose target has a handler: it finds \<open>req\<close> in the
  session, is answered with the status and the text \<open>a\<close>, and leaves \<open>req'\<close>.
\<close>

definition exchange_ok :: "u32 \<Rightarrow> 'rx exchange \<Rightarrow> httpReq \<Rightarrow> httpStatus \<times> bytes \<Rightarrow> httpReq \<Rightarrow> bool" where
  "exchange_ok mhs x req a req' \<longleftrightarrow>
     (case x_request x of (m, tgt, hs) \<Rightarrow>
        x_len x \<noteq> 0 \<and> plain_request mhs (m, tgt, hs) \<and> keeps_alive hs \<and> (\<forall>ls. mset (hdr_order (x_env x) ls) = mset ls)
        \<and> answers (x_env x) (request_of m 1 1 tgt hs [] req) req' (fst a) (snd a))"

text \<open>The response, as its client reads it.\<close>

definition replies :: "http_response \<Rightarrow> httpStatus \<times> bytes \<Rightarrow> bool" where
  "replies r a \<longleftrightarrow> (\<exists>x. writes (resp r) = [x]
     \<and> read_response (wire x) = Some (bstr ''HTTP/1.1 '' @ httpStatus_str (fst a),
         [(bstr ''Content-Type'', bstr ''text/plain''), (CL, to_string (length (snd a)))], snd a, []))"

definition reply_of :: "'rx exchange \<Rightarrow> httpStatus \<times> bytes \<Rightarrow> http_response" where
  "reply_of x a = text_reply (fst a) (snd a) (hdr_order (x_env x))"

lemma reply_of_replies: "exchange_ok mhs x req a req' \<Longrightarrow> replies (reply_of x a) a"
  using text_reply_reads [where rest = "[]" and it = "hdr_order (x_env x)"]
  by (auto simp: exchange_ok_def replies_def reply_of_def split: prod.splits)

lemma serve_keeps_alive:
  assumes "conns sv sid = Some c" "\<not> terminated sv" "idle c" "exchange_ok mhs x (m_req (sess c)) a req'"
  obtains c' where "serve mhs sid x sv = sv\<lparr>conns := (conns sv)(sid \<mapsto> c')\<rparr>" "idle c'" "resps c' = resps c @ [reply_of x a]"
    "closes c' = closes c" "m_req (sess c') = req'"
    "m_keepAliveTimer (sess c') = \<lparr>tm_active = True, tm_data = True, tm_timeout = m_keepAliveTimeout (x_env x) * 1000\<rparr>"
proof -
  obtain m tgt hs where x: "x_request x = (m, tgt, hs)" by (cases "x_request x") auto
  let ?e = "x_env x" and ?r = "text_reply (fst a) (snd a) (hdr_order (x_env x))"
  have ok: "x_len x \<noteq> 0" "request_ok mhs m tgt hs" "\<not> wants_upgrade hs" "list_all stays_open hs" "keeps_alive hs"
    "\<And>ls. mset (hdr_order ?e ls) = mset ls" "answers ?e (request_of m 1 1 tgt hs [] (m_req (sess c))) req' (fst a) (snd a)"
    using assms(4) by (simp_all add: exchange_ok_def plain_request_def x)
  obtain c1 where c1: "deliver mhs ?e sid (x_len x) (request_text m tgt hs) sv = sv\<lparr>conns := (conns sv)(sid \<mapsto> c1)\<rparr>"
    "resps c1 = resps c @ [?r]" "wq c1 = [length (resps c)]" "m_isKeepAlive (sess c1) = keeps_alive hs" "live c1"
    "\<not> crashed c1" "closes c1 = closes c" "m_req (sess c1) = req'" "list_all stays_open hs \<longrightarrow> between_requests (m_hparser (sess c1))"
    by (rule deliver_request [OF assms(1-3) ok(1-3,7)])
  let ?c2 = "startKeepAliveTimer ?e (c1\<lparr>wq := []\<rparr>)"
  have on: "m_onSent (resps c1 ! length (resps c)) = Sent_session" by (simp add: c1(2) text_reply_def)
  have "write_complete ?e sid (x_status x) (sv\<lparr>conns := (conns sv)(sid \<mapsto> c1)\<rparr>) = sv\<lparr>conns := (conns sv)(sid \<mapsto> ?c2)\<rparr>"
    using write_complete_session [where sv = "sv\<lparr>conns := (conns sv)(sid \<mapsto> c1)\<rparr>" and sid = sid and c = c1 and env = ?e
        and status = "x_status x", OF _ c1(3) on c1(5)] c1(4,6) ok(5) assms(2) by (simp add: Let_def still_running)
  then have sv: "serve mhs sid x sv = sv\<lparr>conns := (conns sv)(sid \<mapsto> ?c2)\<rparr>" by (simp add: serve_def x c1(1))
  show ?thesis
    by (rule that [OF sv]) (use c1 ok(4) in \<open>simp_all add: reply_of_def idle_def startKeepAliveTimer_def upd_sess_def\<close>)
qed

section \<open>A whole conversation\<close>

inductive conversation :: "u32 \<Rightarrow> 'rx exchange list \<Rightarrow> httpReq \<Rightarrow> (httpStatus \<times> bytes) list \<Rightarrow> httpReq \<Rightarrow> bool" for mhs where
  conv_end: "conversation mhs [] req [] req"
| conv_next: "exchange_ok mhs x req a req1 \<Longrightarrow> conversation mhs xs req1 as req2 \<Longrightarrow> conversation mhs (x # xs) req (a # as) req2"

lemma serve_all:
  assumes "conversation mhs xs req as req'" "conns sv sid = Some c" "\<not> terminated sv" "idle c" "m_req (sess c) = req"
  shows "\<exists>c'. fold (serve mhs sid) xs sv = sv\<lparr>conns := (conns sv)(sid \<mapsto> c')\<rparr> \<and> idle c'
    \<and> resps c' = resps c @ map2 reply_of xs as \<and> closes c' = closes c \<and> m_req (sess c') = req'
    \<and> (xs \<noteq> [] \<or> tm_active (m_keepAliveTimer (sess c)) \<longrightarrow> tm_active (m_keepAliveTimer (sess c')))"
  using assms
proof (induction arbitrary: sv c rule: conversation.induct)
  case (conv_end req)
  then have "(conns sv)(sid \<mapsto> c) = conns sv" by (simp add: fun_upd_idem)
  with conv_end show ?case by (intro exI [of _ c]) (simp del: fun_upd_apply)
next
  case (conv_next x req a req1 xs as req2)
  obtain c1 where 1: "serve mhs sid x sv = sv\<lparr>conns := (conns sv)(sid \<mapsto> c1)\<rparr>" "idle c1" "resps c1 = resps c @ [reply_of x a]"
    "closes c1 = closes c" "m_req (sess c1) = req1" "tm_active (m_keepAliveTimer (sess c1))"
    by (rule serve_keeps_alive [OF conv_next.prems(1-3), unfolded conv_next.prems(4), OF conv_next.hyps(1)]) simp
  have "conns (serve mhs sid x sv) sid = Some c1" "\<not> terminated (serve mhs sid x sv)" using 1(1) conv_next.prems(2) by simp_all
  from conv_next.IH [OF this 1(2,5)] obtain c2 where 2: "fold (serve mhs sid) xs (serve mhs sid x sv)
      = (serve mhs sid x sv)\<lparr>conns := (conns (serve mhs sid x sv))(sid \<mapsto> c2)\<rparr>" "idle c2" "resps c2 = resps c1 @ map2 reply_of xs as"
    "closes c2 = closes c1" "m_req (sess c2) = req2" "tm_active (m_keepAliveTimer (sess c2))"
    using 1(6) by blast
  have "fold (serve mhs sid) (x # xs) sv = sv\<lparr>conns := (conns sv)(sid \<mapsto> c2)\<rparr>"
    using 2(1) by (simp add: 1(1) del: fun_upd_apply)
  with 1(3,4) 2(2-6) show ?case by (intro exI [of _ c2]) (simp del: fun_upd_apply)
qed

text \<open>
  C4. A connection of any length. Let a connection be idle and let the client send any number of requests that
  ask for the connection to be kept, each when the write of the previous response has completed, over routes and
  handlers that may change from one request to the next. Then every request gets exactly one response, with
  the status and the text of its handler, in the order of the requests; the socket is never closed, the
  server is not stopped, and no other connection and no table changes; and after any request at all the
  connection is idle with the keep-alive timer running.
\<close>

theorem connection_kept:
  assumes "conns sv sid = Some c" "\<not> terminated sv" "idle c" "conversation mhs xs (m_req (sess c)) as req'"
  shows "\<exists>c' rs. fold (serve mhs sid) xs sv = sv\<lparr>conns := (conns sv)(sid \<mapsto> c')\<rparr>
    \<and> resps c' = resps c @ rs \<and> list_all2 replies rs as \<and> length rs = length xs
    \<and> idle c' \<and> closes c' = closes c \<and> (xs \<noteq> [] \<longrightarrow> tm_active (m_keepAliveTimer (sess c')))"
proof -
  have "length as = length xs" "list_all2 replies (map2 reply_of xs as) as"
    using assms(4) by (induction rule: conversation.induct) (simp_all add: reply_of_replies)
  moreover obtain c' where "fold (serve mhs sid) xs sv = sv\<lparr>conns := (conns sv)(sid \<mapsto> c')\<rparr>" "idle c'"
    "resps c' = resps c @ map2 reply_of xs as" "closes c' = closes c" "xs \<noteq> [] \<longrightarrow> tm_active (m_keepAliveTimer (sess c'))"
    using serve_all [OF assms(4,1-3) refl] by auto
  ultimately show ?thesis by (intro exI [of _ c'] exI [of _ "map2 reply_of xs as"]) (simp del: fun_upd_apply)
qed

text \<open>Two requests to a server without routes.\<close>

theorem connection_kept_witness:
  "\<exists>c' rs. conns (fold (serve HTTP_MAX_HEADER_SIZE 7) (replicate 2 \<lparr>x_env = plain_env, x_len = 65536,
        x_request = (HTTP_GET, [47], [keep_alive_line]), x_status = 0\<rparr>) (one_client (server0 None ()))) 7 = Some c'
     \<and> resps c' = rs \<and> list_all2 replies rs [(NOT_FOUND, bstr ''404 Not Found''), (NOT_FOUND, bstr ''404 Not Found'')]
     \<and> idle c' \<and> closes c' = 0 \<and> tm_active (m_keepAliveTimer (sess c'))"
proof -
  let ?x = "\<lparr>x_env = plain_env, x_len = 65536, x_request = (HTTP_GET, [47], [keep_alive_line]), x_status = 0\<rparr>"
  let ?c = "(upd_req (set_ip (Peer_Ip4 [49] 80)) conn_init)\<lparr>reading := True\<rparr>"
  let ?r = "request_of HTTP_GET 1 1 [47] [keep_alive_line] []"
  have "answers plain_env (?r req) (?r req) NOT_FOUND (bstr ''404 Not Found'')" for req
    by (rule answers_none) (simp add: dispatch_def plain_env_def)
  then have x: "exchange_ok HTTP_MAX_HEADER_SIZE ?x req (NOT_FOUND, bstr ''404 Not Found'') (?r req)" for req
    using keep_alive_request(1-4) by (simp add: exchange_ok_def plain_request_def) (simp add: plain_env_def)
  have "conversation HTTP_MAX_HEADER_SIZE [?x, ?x] (m_req (sess ?c)) [(NOT_FOUND, bstr ''404 Not Found''), (NOT_FOUND, bstr ''404 Not Found'')]
      (?r (?r (m_req (sess ?c))))"
    by (rule conv_next [OF x conv_next [OF x conv_end]])
  from connection_kept [OF one_client_conn(1,2) [where cb = None and w = "()"] one_client_conn(3) this] show ?thesis
    by (auto simp: numeral_2_eq_2 conn_init_def upd_req_def upd_sess_def)
qed

end
