(* ===== verification/Demo_Pages.thy ===== *)
theory Demo_Pages
  imports Demo Keep_Alive
begin

text \<open>
  What the demonstration server of \<open>src/main.cpp\<close> sends on its first route, from the first request of a fresh
  server on: a file, then a JSON object, then a text.
\<close>

section \<open>Every request for the first route\<close>

text \<open>A request on an idle connection reaches \<open>handle_request\<close> as it was sent.\<close>

lemma recv_plain:
  assumes "between_requests (m_hparser (sess c))" "m_recvBuf (sess c) \<noteq> 0" "plain_request mhs (m, tgt, hs)"
  obtains h' k where "recv_data mhs env (request_text m tgt hs) c = upd_sess (\<lambda>s. s\<lparr>m_hparser := h'\<rparr>)
      (handle_request env False (upd_sess (\<lambda>s. s\<lparr>m_tmpKey := k, m_req := request_of m 1 1 tgt hs [] (m_req s)\<rparr>) (stopped c)))"
    "between_requests h'"
proof -
  have p: "request_ok mhs m tgt hs" "\<not> wants_upgrade hs" "list_all stays_open hs" using assms(3) by (simp_all add: plain_request_def)
  obtain h' where h': "execute_events mhs (m_hparser (sess c)) (request_text m tgt hs)
      = Some (h', message_events (m, tgt, hs), length (request_text m tgt hs))" "between_requests h'"
    using execute_request [OF assms(1) p(1,2)] p(3) by blast
  let ?k = "if hs = [] then m_tmpKey (sess (stopped c)) else map tolower (fst (last hs))"
  have "fold (on_event env) (message_events (m, tgt, hs)) (stopped c)
      = handle_request env False (upd_sess (\<lambda>s. s\<lparr>m_tmpKey := ?k, m_req := request_of m 1 1 tgt hs [] (m_req s)\<rparr>) (stopped c))"
    using fold_message [where bs = "[]" and env = env and u = tgt and hs = hs and m = m and major = 1 and minor = 1
        and upg = False and c = "stopped c"]
    by (simp add: message_events_def request_events_def upd_sess_def)
  with recv_data_events [OF h'(1) assms(2), of env] show thesis
    by (intro that [OF _ h'(2), of ?k]) (simp add: stopped_def)
qed

text \<open>The write of a response that keeps the connection.\<close>

lemma write_keeps:
  assumes "conns sv sid = Some c" "\<not> terminated sv" "wq c = [i]" "m_onSent (resps c ! i) = Sent_session" "live c" "\<not> crashed c"
    "m_isKeepAlive (sess c)" "between_requests (m_hparser (sess c))"
  obtains c' where "write_complete env sid status sv = sv\<lparr>conns := (conns sv)(sid \<mapsto> c')\<rparr>" "idle c'" "resps c' = resps c" "closes c' = closes c"
proof -
  have "write_complete env sid status sv = sv\<lparr>conns := (conns sv)(sid \<mapsto> startKeepAliveTimer env (c\<lparr>wq := []\<rparr>))\<rparr>"
    using write_complete_session [OF assms(1,3,4,5), of env status] assms(2,6,7) by (simp add: Let_def still_running)
  then show thesis
    by (rule that) (use assms(5,6,8) in \<open>simp_all add: idle_def startKeepAliveTimer_def upd_sess_def\<close>)
qed

section \<open>The pages\<close>

text \<open>
  The \<open>n\<close>-th answer, from 0, with its content type: the content \<open>html\<close> of \<open>./index.html\<close>, then the object, then
  the text.
\<close>

definition page :: "bytes \<Rightarrow> nat \<Rightarrow> bytes \<times> bytes" where
  "page html n =
     (if n = 0 then (bstr ''text/html'', html)
      else if n = 1 then (bstr ''application/json'', bstr ''{\"author\":\"away\",\"ip\":\"127.0.0.1\",\"port\":8080}'')
      else (bstr ''text/plain'', bstr ''hello world''))"

definition page_text :: "bytes \<Rightarrow> nat \<Rightarrow> bytes" where
  "page_text html n =
     bstr ''HTTP/1.1 200 OK'' @ CRLF @ bstr ''Content-Type: '' @ fst (page html n) @ CRLF
     @ bstr ''Content-Length: '' @ to_string (length (snd (page html n))) @ CRLF @ CRLF @ snd (page html n)"

lemma response_page: "response_text OK [(bstr ''Content-Type'', fst (page html n))] (snd (page html n)) = page_text html n"
  by (simp add: response_text_def page_text_def header_line_def)

lemma demo_json_text: "stringify_value fmt demo_json = snd (page html 1)"
proof -
  have "stringify_string (bstr ''away'') = QUOTE # bstr ''away'' @ [QUOTE]"
    "stringify_string (bstr ''127.0.0.1'') = QUOTE # bstr ''127.0.0.1'' @ [QUOTE]"
    by (simp_all add: stringify_string_def stringify_char_def)
  moreover have "int_text 8080 = bstr ''8080''" by (simp add: int_text_def to_string.simps)
  ultimately show ?thesis by (simp add: demo_json_object page_def)
qed

text \<open>The response when the handler has run, and when its file, if it has one, has been read.\<close>

definition started :: "header_iter \<Rightarrow> bytes \<Rightarrow> nat \<Rightarrow> http_response" where
  "started it html n =
     (if n = 0 then \<lparr>resp = client (Http_Resp.sendFile (bstr ''./index.html'') httpResp_init), m_onSent = Sent_session,
                     m_reader = Some (Http_Resp.sendFile (bstr ''./index.html'') httpResp_init)\<rparr>
      else \<lparr>resp = (if n = 1 then sendJson it FileReader_init (snd (page html 1)) httpResp_init
                      else sendStr it FileReader_init (bstr ''hello world'') httpResp_init),
             m_onSent = Sent_session, m_reader = None\<rparr>)"

lemma writes_started: "writes (resp (started it html 0)) = []"
  by (simp add: started_def Http_Resp.sendFile_def fileRead_def fr_io_def new_reader_def httpResp_init_def)

text \<open>The handler on the state of a session whose request is for the first route.\<close>

lemma root_handled:
  assumes "dispatch (rx_match env) (m_router env) (m_req (sess c)) = (Some (root_handler fmt n), m_req (sess c))"
    "needKeepConnection (m_req (sess c))"
  shows "handle_request env False c =
    c\<lparr>resps := resps c @ [started (hdr_order env) html n], wq := wq c @ (if n = 0 then [] else [length (resps c)]),
      sess := (sess c)\<lparr>m_isKeepAlive := True\<rparr>\<rparr>"
proof -
  have u: "(resps c @ [r])[length (resps c) := x] = resps c @ [x]" for r x by simp
  have w: "length (writes (sendJson it rd x r)) = length (writes r) + 1" for it rd x r
    by (simp add: sendJson_def writes_send setHeader_def)
  have h: "root_handler fmt n req = (if n = 0 then (req, [], Some (bstr ''./index.html''))
      else (req, [if n = 1 then Call_sendJson (snd (page html 1)) else Call_sendStr (bstr ''hello world'')], None))" for req
    by (simp add: root_handler_def demo_json_text [of fmt html])
  note handle = handle_request_def initResp_def upd_sess_def upd_req_def run_handler_def run_calls_def
    on_resp_def upd_resp_def Let_def reader_of_def start_file_def started_def nth_append u w
  consider "n = 0" | "n = 1" | "n \<noteq> 0" "n \<noteq> 1" by blast
  then show ?thesis using assms h by cases (simp_all add: handle)
qed

text \<open>
  What the client gets: when the file of the first page can be read and closed, the response in place of
  \<open>started\<close> holds one write, the page.
\<close>

definition finished :: "http_response \<Rightarrow> bytes \<Rightarrow> nat \<Rightarrow> bool" where
  "finished r html n \<longleftrightarrow> map wire (writes (resp r)) = [page_text html n] \<and> m_onSent r = Sent_session"

lemma type_order:
  assumes "\<And>hs. mset (it hs) = mset hs"
  shows "it [h] = [h :: bytes \<times> bytes]"
  using assms [of "[h]"] by (simp only: mset_single_iff mset.simps)

lemma sends_page:
  assumes "\<And>hs. mset (it hs) = mset hs" "m_sendType r \<noteq> Send_FILE" "m_body r = snd (page html n)" "m_status r = OK"
    "m_headers r = [(bstr ''Content-Type'', fst (page html n))]" "writes r = []"
  shows "map wire (writes (send it rd r)) = [page_text html n]"
proof -
  obtain w where "writes (send it rd r) = writes r @ [w]"
    "wire w = response_text (m_status r) (it (m_headers r)) (m_body r)"
    using wire_send [of r rd it] assms(2) by auto
  then show ?thesis unfolding assms(3-6) type_order [OF assms(1)] response_page by simp
qed

lemma finished_started:
  assumes "\<And>hs. mset (it hs) = mset hs" "n \<noteq> 0"
  shows "finished (started it html n) html n"
  using assms(2) unfolding finished_def started_def
  by (auto simp: sendStr_def sendJson_def setHeader_def httpResp_init_def page_def intro!: sends_page [OF assms(1)])

lemma finished_file:
  assumes "\<And>hs. mset (it hs) = mset hs" "0 \<le> fd" "0 \<le> close_res" "resps c = rs @ [started it html 0]" "wq c = []"
  obtains r where "file_done it (length rs) (File_content fd html close_res) c = c\<lparr>resps := rs @ [r], wq := [length rs]\<rparr>"
    "finished r html 0"
proof -
  let ?st0 = "Http_Resp.sendFile (bstr ''./index.html'') httpResp_init"
  obtain st w where st: "finish_read (initReader it) fd html close_res ?st0 = Ok st" "writes (client st) = [w]"
    "wire w = response_text OK (it [(bstr ''Content-Type'', getMimeType (bstr ''./index.html''))]) html"
    using sendFile_writes [OF assms(2,3), of it html "bstr ''./index.html''" httpResp_init] by (auto simp: httpResp_init_def)
  have "getMimeType (bstr ''./index.html'') = fst (page html 0)" unfolding page_def by code_simp
  then have "wire w = page_text html 0"
    using st(3) type_order [OF assms(1)] response_page [of html 0] by (simp add: page_def)
  then have f: "finished \<lparr>resp = client st, m_onSent = Sent_session, m_reader = Some st\<rparr> html 0" using st(2) by (simp add: finished_def)
  show thesis
    by (rule that [OF _ f])
      (use assms(4,5) st(1,2) writes_started [of it html] in
        \<open>simp add: file_done_def file_run_def upd_resp_def started_def nth_append\<close>)
qed

section \<open>One round\<close>

text \<open>
  The request is delivered in one read, the file of the newest response, if that has one, is read, and the write
  of the response completes.
\<close>

definition serve_page :: "u32 \<Rightarrow> nat \<Rightarrow> file_result \<Rightarrow> 'rx exchange \<Rightarrow> 'w HttpServer \<Rightarrow> 'w HttpServer" where
  "serve_page mhs sid fr x sv =
     (case x_request x of (m, tgt, hs) \<Rightarrow>
        write_complete (x_env x) sid (x_status x)
          (upd_conn sid (\<lambda>c. file_done (hdr_order (x_env x)) (length (resps c) - 1) fr c)
             (deliver mhs (x_env x) sid (x_len x) (request_text m tgt hs) sv)))"

lemma page_delivered:
  assumes "rx_compile (bstr ''^/$'') = Some r1" "rx_compile (bstr ''^/id/([^/]+)$'') = Some r2" "m_router env = Map.empty"
    "rx_match env r1 [47] = Some [[47]]" "len \<noteq> 0" "plain_request mhs (HTTP_GET, [47], hs)" "keeps_alive hs"
    "conns sv sid = Some c" "\<not> terminated sv" "idle c"
  obtains c1 where "deliver mhs (demo_env rx_compile fmt n env) sid len (request_text HTTP_GET [47] hs) sv = sv\<lparr>conns := (conns sv)(sid \<mapsto> c1)\<rparr>"
    "resps c1 = resps c @ [started (hdr_order env) html n]" "wq c1 = (if n = 0 then [] else [length (resps c)])" "live c1"
    "\<not> crashed c1" "closes c1 = closes c" "m_isKeepAlive (sess c1)" "between_requests (m_hparser (sess c1))"
proof -
  let ?e = "demo_env rx_compile fmt n env"
  have idle: "between_requests (m_hparser (sess (alloc_to len c)))" "m_recvBuf (sess (alloc_to len c)) \<noteq> 0" "wq c = []" "live c" "\<not> crashed c"
    using assms(5,10) by (simp_all add: idle_def)
  obtain h' k where recv: "recv_data mhs ?e (request_text HTTP_GET [47] hs) (alloc_to len c) = upd_sess (\<lambda>s. s\<lparr>m_hparser := h'\<rparr>)
      (handle_request ?e False (upd_sess (\<lambda>s. s\<lparr>m_tmpKey := k, m_req := request_of HTTP_GET 1 1 [47] hs [] (m_req s)\<rparr>)
        (stopped (alloc_to len c))))" "between_requests h'"
    by (rule recv_plain [OF idle(1,2) assms(6)])
  define d where "d = upd_sess (\<lambda>s. s\<lparr>m_tmpKey := k, m_req := request_of HTTP_GET 1 1 [47] hs [] (m_req s)\<rparr>) (stopped (alloc_to len c))"
  have d: "resps d = resps c" "wq d = []" "live d" "\<not> crashed d" "closes d = closes c" "m_req (sess d) = request_of HTTP_GET 1 1 [47] hs [] (m_req (sess c))"
    using idle by (simp_all add: d_def upd_sess_def)
  have "dispatch (rx_match ?e) (m_router ?e) (m_req (sess d)) = (Some (root_handler fmt n), m_req (sess d))"
    using demo_router [OF assms(1-3), of fmt n] assms(4) d(6) by (simp add: dispatch_def request_of_def bind_params.simps Let_def)
  moreover have "needKeepConnection (m_req (sess d))" using assms(7) d(6) by simp
  ultimately have "handle_request ?e False d = d\<lparr>resps := resps d @ [started (hdr_order ?e) html n],
      wq := wq d @ (if n = 0 then [] else [length (resps d)]), sess := (sess d)\<lparr>m_isKeepAlive := True\<rparr>\<rparr>"
    by (rule root_handled)
  note handled = this [unfolded demo_env_simps d(1,2)]
  define c1 where "c1 = upd_sess (\<lambda>s. s\<lparr>m_hparser := h'\<rparr>) (handle_request ?e False d)"
  have c1: "resps c1 = resps c @ [started (hdr_order env) html n]" "wq c1 = (if n = 0 then [] else [length (resps c)])" "live c1" "\<not> crashed c1"
    "closes c1 = closes c" "m_isKeepAlive (sess c1)" "between_requests (m_hparser (sess c1))"
    using d recv(2) by (simp_all add: c1_def handled upd_sess_def)
  have "deliver mhs ?e sid len (request_text HTTP_GET [47] hs) sv = sv\<lparr>conns := (conns sv)(sid \<mapsto> c1)\<rparr>"
    using assms(9) idle(5) c1(4) by (simp add: deliver_eq [OF assms(8)] recv(1) Let_def still_running flip: d_def c1_def)
  then show thesis by (rule that [OF _ c1])
qed

lemma page_served:
  assumes "rx_compile (bstr ''^/$'') = Some r1" "rx_compile (bstr ''^/id/([^/]+)$'') = Some r2" "m_router env = Map.empty"
    "rx_match env r1 [47] = Some [[47]]" "\<And>hs. mset (hdr_order env hs) = mset hs" "len \<noteq> 0" "0 \<le> fd" "0 \<le> close_res"
    "plain_request mhs (HTTP_GET, [47], hs)" "keeps_alive hs" "conns sv sid = Some c" "\<not> terminated sv" "idle c"
    "x_env x = demo_env rx_compile fmt n env" "x_len x = len" "x_request x = (HTTP_GET, [47], hs)"
  obtains c' r where "serve_page mhs sid (File_content fd html close_res) x sv = sv\<lparr>conns := (conns sv)(sid \<mapsto> c')\<rparr>"
    "idle c'" "closes c' = closes c" "resps c' = resps c @ [r]" "map wire (writes (resp r)) = [page_text html n]"
proof -
  let ?e = "demo_env rx_compile fmt n env" and ?it = "hdr_order env"
  obtain c1 where dl: "deliver mhs ?e sid len (request_text HTTP_GET [47] hs) sv = sv\<lparr>conns := (conns sv)(sid \<mapsto> c1)\<rparr>"
    and c1: "resps c1 = resps c @ [started ?it html n]" "wq c1 = (if n = 0 then [] else [length (resps c)])" "live c1" "\<not> crashed c1"
    "closes c1 = closes c" "m_isKeepAlive (sess c1)" "between_requests (m_hparser (sess c1))"
    by (rule page_delivered [OF assms(1-4,6,9-13)])
  obtain r where r: "file_done ?it (length (resps c)) (File_content fd html close_res) c1 = c1\<lparr>resps := resps c @ [r], wq := [length (resps c)]\<rparr>"
    "finished r html n"
  proof (cases "n = 0")
    case True
    then have "resps c1 = resps c @ [started ?it html 0]" "wq c1 = []" using c1(1,2) by simp_all
    from finished_file [OF assms(5,7,8) this] show thesis using True that by metis
  next
    case False
    have "m_reader (resps c1 ! length (resps c)) = None" using False by (simp add: c1(1) started_def)
    then have "file_done ?it (length (resps c)) (File_content fd html close_res) c1 = c1" by (simp add: file_done_def)
    moreover have "c1 = c1\<lparr>resps := resps c @ [started ?it html n], wq := [length (resps c)]\<rparr>" using False c1(1,2) by simp
    ultimately show thesis using finished_started [OF assms(5) False, of html] by (intro that) simp_all
  qed
  define c2 where "c2 = c1\<lparr>resps := resps c @ [r], wq := [length (resps c)]\<rparr>"
  have c2: "resps c2 = resps c @ [r]" "closes c2 = closes c" using c1 by (simp_all add: c2_def)
  let ?sv2 = "sv\<lparr>conns := (conns sv)(sid \<mapsto> c2)\<rparr>"
  have filed: "upd_conn sid (\<lambda>c. file_done ?it (length (resps c) - 1) (File_content fd html close_res) c) (sv\<lparr>conns := (conns sv)(sid \<mapsto> c1)\<rparr>) = ?sv2"
    using r(1) c1(1,4) assms(12) by (simp add: upd_conn_def still_running c2_def)
  obtain c' where c': "write_complete ?e sid (x_status x) ?sv2 = ?sv2\<lparr>conns := (conns ?sv2)(sid \<mapsto> c')\<rparr>" "idle c'" "resps c' = resps c2" "closes c' = closes c2"
    by (rule write_keeps [of ?sv2 sid c2 "length (resps c)" ?e "x_status x"])
      (use c1 r(2) assms(12) in \<open>simp_all add: c2_def finished_def\<close>)
  moreover have "map wire (writes (resp r)) = [page_text html n]" using r(2) unfolding finished_def by (rule conjunct1)
  moreover have "serve_page mhs sid (File_content fd html close_res) x sv = sv\<lparr>conns := (conns sv)(sid \<mapsto> c')\<rparr>"
    using c'(1) filed by (simp add: serve_page_def assms(14-16) dl del: fun_upd_apply)
  ultimately show thesis using c2 by (intro that [of c' r]) (simp_all only:)
qed

end
