(* ===== verification/Client.thy ===== *)
theory Client
  imports Demo_Pages
begin

text \<open>
  The test client of \<open>src/client.cpp\<close>, which writes a fixed request and then once more after every read, and what
  it sees of the server of \<open>src/main.cpp\<close>. The results of the system calls are the arguments of \<open>client_main\<close>;
  the trace holds what it writes to the socket and to the terminal, and how it ends.
\<close>

section \<open>The program\<close>

datatype sys_read = Rd_data bytes | Rd_eof | Rd_error

datatype client_io = C_send bytes | C_show bytes | C_perror bytes | C_close | C_exit int

definition SERVER_IP :: bytes where "SERVER_IP = bstr ''127.0.0.1''"
definition SERVER_PORT :: nat where "SERVER_PORT = 8081"
definition BUFFER_SIZE :: nat where "BUFFER_SIZE = 1024"

definition EXIT_FAILURE :: int where "EXIT_FAILURE = 1"

definition http_request :: bytes where
  "http_request = bstr ''GET / HTTP/1.1'' @ CRLF @ bstr ''Host: 127.0.0.1:8081'' @ CRLF
     @ bstr ''Connection: keep-alive'' @ CRLF @ CRLF"

text \<open>The loop: each element is what a \<open>read\<close> gives and what the \<open>write\<close> behind it returns.\<close>

fun read_loop :: "(sys_read \<times> int) list \<Rightarrow> client_io list" where
  "read_loop [] = []"
| "read_loop ((Rd_data bs, written) # rest) =
     C_show (filter (\<lambda>b. b \<noteq> 13) bs) # C_send http_request
     # (if written < 0 then [C_perror (bstr ''Failed to send request''), C_close, C_exit EXIT_FAILURE] else read_loop rest)"
| "read_loop ((end, _) # _) =
     (if end = Rd_error then [C_perror (bstr ''Read failed'')] else [])
     @ [C_show ([10] @ bstr ''--- End of Response ---'' @ [10]), C_close, C_show (bstr ''Connection closed.'' @ [10]), C_exit 0]"

definition client_main :: "int \<Rightarrow> int \<Rightarrow> int \<Rightarrow> int \<Rightarrow> (sys_read \<times> int) list \<Rightarrow> client_io list" where
  "client_main socket pton connected written rounds =
     C_show (bstr ''http start'' @ [10])
     # (if socket < 0 then [C_perror (bstr ''Socket creation failed''), C_exit EXIT_FAILURE]
        else if pton \<le> 0 then [C_perror (bstr ''Invalid address/ Address not supported''), C_close, C_exit EXIT_FAILURE]
        else if connected < 0 then [C_perror (bstr ''Connection Failed''), C_close, C_exit EXIT_FAILURE]
        else [C_show (bstr ''Successfully connected to server at '' @ SERVER_IP @ [58] @ to_string SERVER_PORT @ [10]),
              C_show http_request, C_send http_request]
          @ (if written < 0 then [C_perror (bstr ''Failed to send request''), C_close, C_exit EXIT_FAILURE]
             else [C_show (bstr ''HTTP request sent.'' @ [10, 10]), C_show (bstr ''--- Server Response ---'' @ [10])]
               @ read_loop rounds))"

section \<open>Its request, as the server sees it\<close>

definition client_headers :: "(bytes \<times> bytes) list" where
  "client_headers = [(bstr ''Host'', bstr ''127.0.0.1:8081''), (bstr ''Connection'', bstr ''keep-alive'')]"

lemma http_request_text: "http_request = request_text HTTP_GET [47] client_headers"
  by code_simp

lemma client_request: "plain_request HTTP_MAX_HEADER_SIZE (HTTP_GET, [47], client_headers)" "keeps_alive client_headers"
proof -
  have "request_ok HTTP_MAX_HEADER_SIZE HTTP_GET [47] client_headers" by (rule request_okI; code_simp)
  moreover have "\<not> wants_upgrade client_headers" "list_all stays_open client_headers" by code_simp+
  ultimately show "plain_request HTTP_MAX_HEADER_SIZE (HTTP_GET, [47], client_headers)" by (simp add: plain_request_def)
  show "keeps_alive client_headers" by (simp add: keeps_alive_def stored_headers_def client_headers_def tolower_def)
qed

section \<open>Client and server\<close>

text \<open>
  What the client writes.
\<close>

definition sent :: "client_io list \<Rightarrow> bytes list" where
  "sent ios = concat (map (\<lambda>x. case x of C_send bs \<Rightarrow> [bs] | _ \<Rightarrow> []) ios)"

lemma sent_simps [simp]:
  "sent [] = []" "sent (C_send bs # ios) = bs # sent ios" "sent (C_show bs # ios) = sent ios"
  "sent (xs @ ys) = sent xs @ sent ys"
  by (simp_all add: sent_def)

text \<open>What the client does before its loop when no system call fails.\<close>

definition client_opening :: "client_io list" where
  "client_opening = [C_show (bstr ''http start'' @ [10]),
     C_show (bstr ''Successfully connected to server at 127.0.0.1:8081'' @ [10]), C_show http_request, C_send http_request,
     C_show (bstr ''HTTP request sent.'' @ [10, 10]), C_show (bstr ''--- Server Response ---'' @ [10])]"

lemma client_main_connected: "0 \<le> fd \<Longrightarrow> client_main fd 1 0 0 rounds = client_opening @ read_loop rounds"
  by (simp add: client_main_def client_opening_def SERVER_IP_def SERVER_PORT_def to_string.simps)

lemma client_rounds:
  "read_loop (map (\<lambda>bs. (Rd_data bs, 0)) bss) = concat (map (\<lambda>bs. [C_show (filter (\<lambda>b. b \<noteq> 13) bs), C_send http_request]) bss)"
  by (induction bss) simp_all

lemma sent_rounds: "sent (concat (map (\<lambda>bs. [C_show (f bs), C_send http_request]) bss)) = replicate (length bss) http_request"
  by (induction bss) simp_all

text \<open>The round of the \<open>n\<close>-th page, from 0.\<close>

definition root_exchange :: "(bytes \<Rightarrow> 'rx option) \<Rightarrow> ('d \<Rightarrow> bytes) \<Rightarrow> 'rx http_env \<Rightarrow> size_t \<Rightarrow> nat \<Rightarrow> 'rx exchange" where
  "root_exchange rx_compile fmt env len n =
     \<lparr>x_env = demo_env rx_compile fmt n env, x_len = len, x_request = (HTTP_GET, [47], client_headers), x_status = 0\<rparr>"

definition serve_root ::
  "nat \<Rightarrow> file_result \<Rightarrow> (bytes \<Rightarrow> 'rx option) \<Rightarrow> ('d \<Rightarrow> bytes) \<Rightarrow> 'rx http_env \<Rightarrow> size_t \<Rightarrow> nat \<Rightarrow> 'w HttpServer \<Rightarrow> 'w HttpServer" where
  "serve_root sid fr rx_compile fmt env len n = serve_page HTTP_MAX_HEADER_SIZE sid fr (root_exchange rx_compile fmt env len n)"

lemma serve_rounds:
  assumes "rx_compile (bstr ''^/$'') = Some r1" "rx_compile (bstr ''^/id/([^/]+)$'') = Some r2" "m_router env = Map.empty"
    "rx_match env r1 [47] = Some [[47]]" "\<And>hs. mset (hdr_order env hs) = mset hs" "len \<noteq> 0" "0 \<le> fd" "0 \<le> close_res"
    "conns sv sid = Some c" "\<not> terminated sv" "idle c"
  shows "\<exists>c' rs. fold (serve_root sid (File_content fd html close_res) rx_compile fmt env len) [n..<n + k] sv = sv\<lparr>conns := (conns sv)(sid \<mapsto> c')\<rparr>
    \<and> idle c' \<and> closes c' = closes c \<and> resps c' = resps c @ rs
    \<and> map (\<lambda>r. map wire (writes (resp r))) rs = map (\<lambda>i. [page_text html i]) [n..<n + k]"
  using assms(9-11)
proof (induction k arbitrary: n sv c)
  case 0
  then have "(conns sv)(sid \<mapsto> c) = conns sv" by (simp add: fun_upd_idem)
  with 0 show ?case by (intro exI [of _ c] exI [of _ "[]"]) (simp del: fun_upd_apply)
next
  case (Suc k)
  let ?serve = "serve_root sid (File_content fd html close_res) rx_compile fmt env len"
  obtain c1 r where 1: "?serve n sv = sv\<lparr>conns := (conns sv)(sid \<mapsto> c1)\<rparr>" "idle c1" "closes c1 = closes c"
    "resps c1 = resps c @ [r]" "map wire (writes (resp r)) = [page_text html n]"
    using page_served [OF assms(1-8) client_request Suc.prems, where x = "root_exchange rx_compile fmt env len n" and fmt = fmt and n = n and html = html]
    by (auto simp: root_exchange_def serve_root_def)
  have "conns (?serve n sv) sid = Some c1" "\<not> terminated (?serve n sv)" using 1(1) Suc.prems(2) by simp_all
  from Suc.IH [OF this 1(2), of "Suc n"] obtain c2 rs where 2:
    "fold ?serve [Suc n..<Suc n + k] (?serve n sv) = (?serve n sv)\<lparr>conns := (conns (?serve n sv))(sid \<mapsto> c2)\<rparr>"
    "idle c2" "closes c2 = closes c1" "resps c2 = resps c1 @ rs"
    "map (\<lambda>r. map wire (writes (resp r))) rs = map (\<lambda>i. [page_text html i]) [Suc n..<Suc n + k]" by blast
  have "[n..<n + Suc k] = n # [Suc n..<Suc n + k]" by (simp add: upt_conv_Cons del: upt_Suc)
  then show ?case using 1 2 by (intro exI [of _ c2] exI [of _ "r # rs"]) (simp del: fun_upd_apply upt_Suc)
qed

lemma page_short: "length html \<le> 900 \<Longrightarrow> length (page_text html n) \<le> BUFFER_SIZE - 1"
  by (simp add: page_text_def page_def BUFFER_SIZE_def to_string.simps)

text \<open>
  C6. The test client and the demonstration server, from the first request on. The client is connected to the
  server on an idle connection; the server has given \<open>n\<close> pages before (none when it is fresh), the file
  \<open>./index.html\<close>, when it is asked for, is opened, read and closed without an error and has at most 900 bytes
  (so that every page fits the client's buffer, as the repository's does); no system call of the client fails,
  each of its reads gives the whole response, and the write of a response completes before the next request
  is read. Then for every number of rounds: what the server is given to read is, request by request, what the
  client writes; the server answers the requests with the pages in turn, the file, then the JSON object, then
  hello world for ever, each in one write, and keeps the connection; and the client shows, after its opening,
  exactly these responses without carriage returns and has always one request more under way.
\<close>

theorem client_meets_server:
  assumes "rx_compile (bstr ''^/$'') = Some r1" "rx_compile (bstr ''^/id/([^/]+)$'') = Some r2" "m_router env = Map.empty"
    "rx_match env r1 [47] = Some [[47]]" "\<And>hs. mset (hdr_order env hs) = mset hs" "len \<noteq> 0" "0 \<le> fd" "0 \<le> close_res"
    "conns sv sid = Some c" "\<not> terminated sv" "idle c" "length html \<le> 900" "0 \<le> sock"
  shows "\<exists>c' rs. fold (serve_root sid (File_content fd html close_res) rx_compile fmt env len) [n..<n + k] sv = sv\<lparr>conns := (conns sv)(sid \<mapsto> c')\<rparr>
    \<and> idle c' \<and> closes c' = closes c \<and> resps c' = resps c @ rs
    \<and> map (\<lambda>r. map wire (writes (resp r))) rs = map (\<lambda>i. [page_text html i]) [n..<n + k]
    \<and> (\<forall>i. length (page_text html i) \<le> BUFFER_SIZE - 1)
    \<and> (case x_request (root_exchange rx_compile fmt env len n) of (m, tgt, hs) \<Rightarrow> request_text m tgt hs) = http_request
    \<and> client_main sock 1 0 0 (map (\<lambda>r. (Rd_data (concat (map wire (writes (resp r)))), 0)) rs)
        = client_opening @ concat (map (\<lambda>i. [C_show (filter (\<lambda>b. b \<noteq> 13) (page_text html i)), C_send http_request]) [n..<n + k])
    \<and> sent (client_main sock 1 0 0 (map (\<lambda>r. (Rd_data (concat (map wire (writes (resp r)))), 0)) rs)) = replicate (Suc k) http_request"
proof -
  obtain c' rs where c': "fold (serve_root sid (File_content fd html close_res) rx_compile fmt env len) [n..<n + k] sv = sv\<lparr>conns := (conns sv)(sid \<mapsto> c')\<rparr>"
    "idle c'" "closes c' = closes c" "resps c' = resps c @ rs"
    "map (\<lambda>r. map wire (writes (resp r))) rs = map (\<lambda>i. [page_text html i]) [n..<n + k]"
    using serve_rounds [OF assms(1-11), of html fmt n k] by blast
  let ?bss = "map (page_text html) [n..<n + k]"
  have "map (\<lambda>r. concat (map wire (writes (resp r)))) rs = map concat (map (\<lambda>r. map wire (writes (resp r))) rs)" by simp
  also have "\<dots> = ?bss" unfolding c'(5) by simp
  finally have "map (\<lambda>bs. (Rd_data bs, 0 :: int)) (map (\<lambda>r. concat (map wire (writes (resp r)))) rs) = map (\<lambda>bs. (Rd_data bs, 0)) ?bss" by simp
  then have "map (\<lambda>r. (Rd_data (concat (map wire (writes (resp r)))), 0 :: int)) rs = map (\<lambda>bs. (Rd_data bs, 0)) ?bss"
    by (simp only: map_map o_def)
  then have main: "client_main sock 1 0 0 (map (\<lambda>r. (Rd_data (concat (map wire (writes (resp r)))), 0)) rs)
      = client_opening @ concat (map (\<lambda>bs. [C_show (filter (\<lambda>b. b \<noteq> 13) bs), C_send http_request]) ?bss)"
    using assms(13) by (simp only: client_main_connected client_rounds)
  moreover have "sent client_opening = [http_request]" by (simp add: client_opening_def)
  ultimately have "sent (client_main sock 1 0 0 (map (\<lambda>r. (Rd_data (concat (map wire (writes (resp r)))), 0)) rs)) = replicate (Suc k) http_request"
    by (simp add: sent_rounds del: map_map)
  moreover have "(case x_request (root_exchange rx_compile fmt env len n) of (m, tgt, hs) \<Rightarrow> request_text m tgt hs) = http_request"
    by (simp add: root_exchange_def http_request_text)
  ultimately show ?thesis
    using c' page_short [OF assms(12)] main [unfolded map_map o_def] by (intro exI [of _ c'] exI [of _ rs] conjI) simp_all
qed

text \<open>Three rounds of a fresh server, with a regular expression that matches the path of the first route.\<close>

abbreviation root_env :: "unit http_env" where
  "root_env \<equiv> plain_env\<lparr>rx_match := (\<lambda>_ path. if path = [47] then Some [[47]] else None)\<rparr>"

theorem client_meets_server_witness:
  "\<exists>c' (rs :: http_response list).
      conns (fold (serve_root 7 (File_content 5 (bstr ''<p>hi</p>'') 0) (\<lambda>_. Some ()) (\<lambda>(d :: unit). []) root_env 65536) [0..<0 + 3]
        (one_client (server0 None ()))) 7 = Some c'
    \<and> idle c' \<and> closes c' = 0
    \<and> map (\<lambda>r. map wire (writes (resp r))) rs = map (\<lambda>i. [page_text (bstr ''<p>hi</p>'') i]) [0..<0 + 3]
    \<and> sent (client_main 3 1 0 0 (map (\<lambda>r. (Rd_data (concat (map wire (writes (resp r)))), 0)) rs)) = replicate (Suc 3) http_request"
proof -
  have e: "m_router root_env = Map.empty" "rx_match root_env () [47] = Some [[47]]" "mset (hdr_order root_env hs) = mset hs" for hs
    by (simp_all add: plain_env_def)
  have z: "closes ((upd_req (set_ip (Peer_Ip4 [49] 80)) conn_init)\<lparr>reading := True\<rparr>) = 0"
    by (simp add: conn_init_def upd_req_def upd_sess_def)
  let ?sv = "one_client (server0 None ()) :: unit HttpServer" and ?html = "bstr ''<p>hi</p>''"
  have n: "(65536 :: size_t) \<noteq> 0" "0 \<le> (5 :: int)" "0 \<le> (0 :: int)" "length ?html \<le> 900" "0 \<le> (3 :: int)" by simp_all
  from client_meets_server [where rx_compile = "\<lambda>_. Some ()" and fmt = "\<lambda>(d :: unit). []" and k = 3 and n = 0,
      OF refl refl e n(1-3) one_client_conn(1,2) [where cb = None and w = "()"] one_client_conn(3) n(4,5)]
  obtain c' and rs :: "http_response list" where
    "fold (serve_root 7 (File_content 5 ?html 0) (\<lambda>_. Some ()) (\<lambda>(d :: unit). []) root_env 65536) [0..<0 + 3] ?sv
      = ?sv\<lparr>conns := (conns ?sv)(7 \<mapsto> c')\<rparr>"
    and c': "idle c'" "closes c' = 0" "map (\<lambda>r. map wire (writes (resp r))) rs = map (\<lambda>i. [page_text ?html i]) [0..<0 + 3]"
    "sent (client_main 3 1 0 0 (map (\<lambda>r. (Rd_data (concat (map wire (writes (resp r)))), 0)) rs)) = replicate (Suc 3) http_request"
    unfolding z by blast
  then have "conns (fold (serve_root 7 (File_content 5 ?html 0) (\<lambda>_. Some ()) (\<lambda>(d :: unit). []) root_env 65536) [0..<0 + 3] ?sv) 7 = Some c'" by simp
  with c' show ?thesis by blast
qed

end
