(* ===== verification/Malformed.thy ===== *)
theory Malformed
  imports Lifecycle
begin

text \<open>
  The runs of the HTTP server as lists of moves, each the choice of what libuv or the application does next,
  and what becomes of a connection on which the parser has reported an error.
\<close>

section \<open>Moves\<close>

text \<open>
  A connection is offered to the listening socket; a read on a socket, with the size libuv suggests; the
  oldest write of a socket, or the file of a response, is done; the keep-alive timer of a session expires;
  the application calls a response it holds.
\<close>

datatype move =
    Connect int int nat peer_name
  | Receive nat size_t uv_read
  | Written nat int
  | Filed nat nat file_result
  | Expired nat
  | Called nat nat "resp_call list"

fun fits :: "uv_read \<Rightarrow> size_t \<Rightarrow> bool" where
  "fits (Read_data buf) len \<longleftrightarrow> length buf \<le> unat len"
| "fits _ len \<longleftrightarrow> True"

text \<open>The state after a move, if it is possible in this state: the sockets it needs are there.\<close>

definition with_conn :: "'w HttpServer \<Rightarrow> nat \<Rightarrow> (conn \<Rightarrow> 'w HttpServer option) \<Rightarrow> 'w HttpServer option" where
  "with_conn sv sid f = (if terminated sv then None else case conns sv sid of None \<Rightarrow> None | Some c \<Rightarrow> f c)"

fun perform :: "u32 \<Rightarrow> 'rx http_env \<Rightarrow> move \<Rightarrow> 'w HttpServer \<Rightarrow> 'w HttpServer option" where
  "perform mhs env (Connect status accept_ret sid peer) sv =
     (if terminated sv \<or> conns sv sid \<noteq> None then None else Some (inter_on_connect status accept_ret sid peer sv))"
| "perform mhs env (Receive sid suggested ev) sv = with_conn sv sid (\<lambda>c.
     if \<not> reading c then None
     else case recv_alloc_cb (m_recvBuf (sess c)) suggested of
            None \<Rightarrow> None
          | Some len \<Rightarrow> if fits ev len then Some (recv_cb mhs env sid ev (upd_conn sid (alloc_to len) sv)) else None)"
| "perform mhs env (Written sid status) sv = with_conn sv sid (\<lambda>c.
     if wq c = [] then None else Some (write_complete env sid status sv))"
| "perform mhs env (Filed sid i fr) sv = with_conn sv sid (\<lambda>c.
     if i < length (resps c) then Some (upd_conn sid (file_done (hdr_order env) i fr) sv) else None)"
| "perform mhs env (Expired sid) sv = with_conn sv sid (\<lambda>c.
     if live c \<and> tm_active (m_keepAliveTimer (sess c)) then Some (keepAliveTimerCb sid (upd_conn sid expire sv)) else None)"
| "perform mhs env (Called sid i calls) sv = with_conn sv sid (\<lambda>c.
     if i < length (resps c) then Some (upd_conn sid (run_calls (hdr_order env) i calls) sv) else None)"

fun perform_all :: "u32 \<Rightarrow> 'rx http_env \<Rightarrow> move list \<Rightarrow> 'w HttpServer \<Rightarrow> 'w HttpServer option" where
  "perform_all mhs env [] sv = Some sv"
| "perform_all mhs env (mv # mvs) sv =
     (case perform mhs env mv sv of None \<Rightarrow> None | Some sv' \<Rightarrow> perform_all mhs env mvs sv')"

lemma with_conn_Some: "with_conn sv sid f = Some sv' \<longleftrightarrow> \<not> terminated sv \<and> (\<exists>c. conns sv sid = Some c \<and> f c = Some sv')"
  by (auto simp: with_conn_def split: option.splits)

lemma fits_iff: "fits ev len \<longleftrightarrow> (\<forall>buf. ev = Read_data buf \<longrightarrow> length buf \<le> unat len)"
  by (cases ev) auto

text \<open>The moves are the steps of the server.\<close>

lemma perform_step: "perform mhs env mv sv = Some sv' \<Longrightarrow> http_step mhs env sv sv'"
  by (cases mv) (auto simp: with_conn_Some fits_iff split: if_splits option.splits intro: http_step.intros)

lemma step_perform: "http_step mhs env sv sv' \<Longrightarrow> \<exists>mv. perform mhs env mv sv = Some sv'"
proof (induction rule: http_step.induct)
  case (connected sv sid status accept_ret peer)
  then show ?case by (intro exI [of _ "Connect status accept_ret sid peer"]) simp
next
  case (received sv sid c suggested len ev)
  then show ?case by (intro exI [of _ "Receive sid suggested ev"]) (simp add: with_conn_def fits_iff)
next
  case (written sv sid c status)
  then show ?case by (intro exI [of _ "Written sid status"]) (simp add: with_conn_def)
next
  case (filed sv sid c i fr)
  then show ?case by (intro exI [of _ "Filed sid i fr"]) (simp add: with_conn_def)
next
  case (timeout sv sid c)
  then show ?case by (intro exI [of _ "Expired sid"]) (simp add: with_conn_def)
next
  case (app sv sid c i calls)
  then show ?case by (intro exI [of _ "Called sid i calls"]) (simp add: with_conn_def)
qed

section \<open>The socket of a move\<close>

fun socket :: "move \<Rightarrow> nat" where
  "socket (Connect _ _ sid _) = sid"
| "socket (Receive sid _ _) = sid"
| "socket (Written sid _) = sid"
| "socket (Filed sid _ _) = sid"
| "socket (Expired sid) = sid"
| "socket (Called sid _ _) = sid"

lemma conns_session_close: "t \<noteq> sid \<Longrightarrow> conns (session_close sid sv) t = conns sv t"
  using evolves_session_close [of sid sv] by (simp add: evolves_def)

lemma conns_upd_conn: "t \<noteq> sid \<Longrightarrow> conns (upd_conn sid f sv) t = conns sv t"
  by (simp add: upd_conn_def split: option.split)

lemma conns_on_sent: "t \<noteq> sid \<Longrightarrow> conns (on_sent env sid cb sv) t = conns sv t"
  using evolves_on_sent [where sid = sid and env = env and cb = cb and sv = sv] by (simp add: evolves_def)

lemma perform_elsewhere:
  assumes "perform mhs env mv sv = Some sv'" "t \<noteq> socket mv"
  shows "conns sv' t = conns sv t"
proof (cases mv)
  case (Receive sid suggested ev)
  with assms show ?thesis
    by (cases ev) (auto simp: with_conn_Some conns_session_close conns_upd_conn split: if_splits option.splits)
qed (use assms in \<open>auto simp: with_conn_Some inter_on_connect_def handle_connect_def Let_def conns_upd_conn conns_session_close
      keepAliveTimerCb_def write_complete_def onWriteEnd_def conns_on_sent split: if_splits option.splits list.splits\<close>)

section \<open>A connection after a parse error\<close>

text \<open>
  The moves that leave it to the server to act on connection \<open>sid\<close>: the client of \<open>sid\<close> may send bytes but not
  end the connection, and the application and the files of earlier responses of \<open>sid\<close> are quiet.
\<close>

fun spares :: "nat \<Rightarrow> move \<Rightarrow> bool" where
  "spares sid (Receive t _ (Read_data _)) \<longleftrightarrow> True"
| "spares sid (Receive t _ _) \<longleftrightarrow> t \<noteq> sid"
| "spares sid (Filed t _ _) \<longleftrightarrow> t \<noteq> sid"
| "spares sid (Called t _ _) \<longleftrightarrow> t \<noteq> sid"
| "spares sid _ \<longleftrightarrow> True"

definition stuck :: "http_response list \<Rightarrow> conn \<Rightarrow> bool" where
  "stuck rs c \<longleftrightarrow> live c \<and> resps c = rs \<and> wq c = [] \<and> \<not> m_isKeepAlive (sess c) \<and> http_errno (m_hparser (sess c)) \<noteq> HPE_OK"

lemma recv_data_error:
  "http_errno (m_hparser (sess c)) \<noteq> HPE_OK \<Longrightarrow> m_recvBuf (sess c) \<noteq> 0 \<Longrightarrow> recv_data mhs env buf c = stopped c"
  by (simp add: recv_data_def http_parser_execute_def stopped_def stopKeepAliveTimer_def upd_sess_def Let_def)

lemma stuck_read: "stuck rs c \<Longrightarrow> len \<noteq> 0 \<Longrightarrow> stuck rs (recv_data mhs env buf (alloc_to len c))"
  by (simp add: stuck_def recv_data_error)

lemma stuck_move:
  assumes "perform mhs env mv sv = Some sv'" "spares sid mv" "server_ok sv" "conns sv sid = Some c" "stuck rs c"
  obtains c' where "conns sv' sid = Some c'" "stuck rs c'"
proof (cases "socket mv = sid")
  case False
  with perform_elsewhere [OF assms(1), of sid] assms(4,5) show thesis by (auto intro: that)
next
  case True
  have ok: "conn_ok c" using assms(3,4) by (simp add: server_ok_def)
  show thesis
  proof (cases mv)
    case (Receive t suggested ev)
    with True assms(2) obtain buf where ev: "ev = Read_data buf" by (cases ev) auto
    with Receive True assms(1,4) obtain len where
      len: "recv_alloc_cb (m_recvBuf (sess c)) suggested = Some len" "sv' = deliver mhs env sid len buf sv"
      by (auto simp: with_conn_Some deliver_def split: if_splits option.splits)
    have "len \<noteq> 0" using alloc_pos [OF len(1)] ok assms(5) by (simp add: conn_ok_def stuck_def)
    from stuck_read [OF assms(5) this] show thesis by (intro that) (simp_all add: len(2) deliver_eq [OF assms(4)] Let_def)
  next
    case (Expired t)
    with True assms(1,4,5) ok show thesis by (auto simp: with_conn_Some stuck_def conn_ok_def split: if_splits)
  qed (use True assms(1,2,4,5) in \<open>auto simp: with_conn_Some stuck_def split: if_splits\<close>)
qed

lemma stuck_moves:
  assumes "perform_all mhs env mvs sv = Some sv'" "list_all (spares sid) mvs" "server_ok sv" "conns sv sid = Some c" "stuck rs c"
  shows "server_ok sv' \<and> (\<exists>c'. conns sv' sid = Some c' \<and> stuck rs c')"
  using assms
proof (induction mvs arbitrary: sv c)
  case (Cons mv mvs)
  from Cons.prems(1) obtain sv1 where sv1: "perform mhs env mv sv = Some sv1" "perform_all mhs env mvs sv1 = Some sv'"
    by (auto split: option.splits)
  obtain c1 where "conns sv1 sid = Some c1" "stuck rs c1"
    using stuck_move [OF sv1(1) _ Cons.prems(3-5)] Cons.prems(2) by auto
  with Cons.IH [OF sv1(2) _ http_step_ok [OF perform_step [OF sv1(1)] Cons.prems(3)]] Cons.prems(2) show ?case by simp
qed auto

text \<open>
  C33. A malformed request is never answered and its connection never closed by the server itself. In any
  reachable state let a connection with no write pending receive bytes on which the parser reports an error
  and in which no message completes: the session only prints the error. Whatever happens afterwards on this
  and on the other connections (more bytes from this client, timers, completions, new clients, calls of the
  application), as long as this client does not end the connection and the application and the files of
  earlier responses of this connection do not act, the connection gets no response, no write and no close, no
  timer runs that could end it, and it stays open, read and in the table.
\<close>

theorem malformed_never_answered:
  assumes "http_reachable mhs env (server0 cb w) sv" "conns sv sid = Some c" "wq c = []"
    "execute_events mhs (m_hparser (sess c)) buf = Some (h, evs, n)" "http_errno h \<noteq> HPE_OK" "\<not> completes evs"
    "perform_all mhs env (Receive sid suggested (Read_data buf) # mvs) sv = Some sv'" "list_all (spares sid) mvs"
  shows "\<exists>d. conns sv' sid = Some d \<and> resps d = resps c \<and> wq d = [] \<and> closes d = 0 \<and> live d \<and> reading d
    \<and> \<not> tm_active (m_keepAliveTimer (sess d)) \<and> sid \<in> set (m_sessions sv')"
proof -
  have ok: "server_ok sv" using http_reachable_ok [OF assms(1) server_ok_server0] .
  then have c: "conn_ok c" using assms(2) by (simp add: server_ok_def)
  from assms(7) obtain sv1 where sv1: "perform mhs env (Receive sid suggested (Read_data buf)) sv = Some sv1"
    "perform_all mhs env mvs sv1 = Some sv'" by (auto split: option.splits)
  from sv1(1) assms(2) obtain len where len: "reading c" "recv_alloc_cb (m_recvBuf (sess c)) suggested = Some len"
    "sv1 = deliver mhs env sid len buf sv"
    by (auto simp: with_conn_Some deliver_def split: if_splits option.splits)
  have lv: "live c" "m_recvBuf (sess c) \<noteq> 0" using c len(1) by (auto simp: conn_ok_def split: if_splits)
  have "len \<noteq> 0" using alloc_pos [OF len(2) lv(2)] .
  then have "same_service (stopped (alloc_to len c)) (recv_data mhs env buf (alloc_to len c))"
    "m_hparser (sess (recv_data mhs env buf (alloc_to len c))) = h"
    using recv_incomplete [of mhs "alloc_to len c" buf h evs n env] assms(4,6) by simp_all
  then have "stuck (resps c) (recv_data mhs env buf (alloc_to len c))"
    using lv(1) assms(3,5) by (simp add: stuck_def same_service_def)
  moreover have "conns sv1 sid = Some (recv_data mhs env buf (alloc_to len c))"
    by (simp add: len(3) deliver_eq [OF assms(2)] Let_def)
  ultimately obtain d where d: "server_ok sv'" "conns sv' sid = Some d" "stuck (resps c) d"
    using stuck_moves [OF sv1(2) assms(8) http_step_ok [OF perform_step [OF sv1(1)] ok]] by blast
  then have "conn_ok d" by (simp add: server_ok_def)
  with d show ?thesis by (auto simp: stuck_def conn_ok_def server_ok_def)
qed

lemma bad_method:
  "\<exists>h. execute_events HTTP_MAX_HEADER_SIZE (http_parser_init HTTP_REQUEST) (bstr ''0'') = Some (h, [], 0)
    \<and> http_errno h = HPE_INVALID_METHOD"
proof -
  have "(case execute_events HTTP_MAX_HEADER_SIZE (http_parser_init HTTP_REQUEST) (bstr ''0'') of
      Some (h, evs, n) \<Rightarrow> evs = [] \<and> n = 0 \<and> http_errno h = HPE_INVALID_METHOD | None \<Rightarrow> False)"
    by code_simp
  then show ?thesis by (auto split: option.splits)
qed

lemma perform_read:
  assumes "\<not> terminated sv" "conns sv sid = Some c" "reading c" "m_recvBuf (sess c) = HTTP_DEFAULT_RECV_BUF_SIZE" "length buf \<le> 65536"
  shows "perform mhs env (Receive sid 65536 (Read_data buf)) sv = Some (deliver mhs env sid HTTP_DEFAULT_RECV_BUF_SIZE buf sv)"
  using assms by (simp add: with_conn_def deliver_def recv_alloc_cb_def HTTP_DEFAULT_RECV_BUF_SIZE_def)

lemma perform_visit:
  assumes "\<not> terminated sv" "conns sv sid = None"
  shows "\<exists>sv'. perform_all mhs env [Connect 0 0 sid peer, Receive sid 65536 Read_eof] sv = Some sv'"
  using assms
  by (simp add: with_conn_def inter_on_connect_def handle_connect_def upd_conn_def Let_def conn_init_def upd_req_def upd_sess_def
      Session_init_def recv_alloc_cb_def HTTP_DEFAULT_RECV_BUF_SIZE_def)

text \<open>A first read of the byte 0, then a good request, then another client and its hang-up: no answer and no close.\<close>

theorem malformed_never_answered_witness:
  "\<exists>sv' d. perform_all HTTP_MAX_HEADER_SIZE plain_env
      [Receive 7 65536 (Read_data (bstr ''0'')), Receive 7 65536 (Read_data (request_text HTTP_GET [47] [])),
       Connect 0 0 8 (Peer_Ip4 [50] 80), Receive 8 65536 Read_eof] (one_client (server0 None ())) = Some sv'
    \<and> conns sv' 7 = Some d \<and> resps d = [] \<and> closes d = 0 \<and> live d \<and> \<not> tm_active (m_keepAliveTimer (sess d))"
proof -
  let ?mhs = HTTP_MAX_HEADER_SIZE and ?sv = "one_client (server0 None ())" and ?len = HTTP_DEFAULT_RECV_BUF_SIZE
  let ?buf = "request_text HTTP_GET [47] []"
  let ?mvs = "[Receive 7 65536 (Read_data ?buf), Connect 0 0 8 (Peer_Ip4 [50] 80), Receive 8 65536 Read_eof]"
  obtain h where h: "execute_events ?mhs (http_parser_init HTTP_REQUEST) (bstr ''0'') = Some (h, [], 0)"
    "http_errno h = HPE_INVALID_METHOD"
    using bad_method by blast
  define c where "c = (upd_req (set_ip (Peer_Ip4 [49] 80)) conn_init)\<lparr>reading := True\<rparr>"
  have c: "m_hparser (sess c) = http_parser_init HTTP_REQUEST" "resps c = []" "wq c = []" "reading c" "m_recvBuf (sess c) = ?len" "\<not> crashed c"
    by (simp_all add: c_def conn_init_def upd_req_def upd_sess_def Session_init_def)
  have sv: "conns ?sv 7 = Some c" "\<not> terminated ?sv" unfolding c_def by (rule one_client_conn(1,2))+
  have none: "conns ?sv 8 = None" by (simp add: one_client_def handle_connect_def upd_conn_def Let_def server0_def)
  define c1 where "c1 = upd_sess (\<lambda>s. s\<lparr>m_hparser := h\<rparr>) (stopped (alloc_to ?len c))"
  define c2 where "c2 = stopped (alloc_to ?len c1)"
  have len: "?len \<noteq> 0" by (simp add: HTTP_DEFAULT_RECV_BUF_SIZE_def)
  have c1: "reading c1" "m_recvBuf (sess c1) = ?len" "\<not> crashed c1" "http_errno (m_hparser (sess c1)) \<noteq> HPE_OK"
    using c(4-6) h(2) by (simp_all add: c1_def upd_sess_def alloc_to_def stopped_def stopKeepAliveTimer_def)
  have c2: "\<not> crashed c2" using c1(3) by (simp add: c2_def)
  have "recv_data ?mhs plain_env (bstr ''0'') (alloc_to ?len c) = c1"
    using recv_data_events [of ?mhs "alloc_to ?len c" "bstr ''0''" h "[]" 0 plain_env] h(1) c(1) len by (simp add: stopped_def c1_def)
  with sv c(6) c1(3) have 1: "deliver ?mhs plain_env 7 ?len (bstr ''0'') ?sv = ?sv\<lparr>conns := (conns ?sv)(7 \<mapsto> c1)\<rparr>" (is "_ = ?sv1")
    by (simp add: deliver_eq Let_def still_running)
  have "recv_data ?mhs plain_env ?buf (alloc_to ?len c1) = c2" unfolding c2_def by (rule recv_data_error) (simp_all add: c1(4) len)
  with sv c1(3) c2 have 2: "deliver ?mhs plain_env 7 ?len ?buf ?sv1 = ?sv\<lparr>conns := (conns ?sv)(7 \<mapsto> c2)\<rparr>" (is "_ = ?sv2")
    by (simp add: deliver_eq Let_def still_running)
  have "length ?buf \<le> 300" by code_simp
  then have short: "length (bstr ''0'') \<le> 65536" "length ?buf \<le> 65536" by simp_all
  have r1: "perform ?mhs plain_env (Receive 7 65536 (Read_data (bstr ''0''))) ?sv = Some ?sv1"
    unfolding 1 [symmetric] by (rule perform_read [OF sv(2,1) c(4,5) short(1)])
  have r2: "perform ?mhs plain_env (Receive 7 65536 (Read_data ?buf)) ?sv1 = Some ?sv2"
    unfolding 2 [symmetric] by (rule perform_read [OF _ _ c1(1,2) short(2)]) (simp_all add: sv(2))
  obtain sv' where "perform_all ?mhs plain_env [Connect 0 0 8 (Peer_Ip4 [50] 80), Receive 8 65536 Read_eof] ?sv2 = Some sv'"
    using perform_visit [of ?sv2 8 ?mhs plain_env] sv(2) none by auto
  then have run: "perform_all ?mhs plain_env (Receive 7 65536 (Read_data (bstr ''0'')) # ?mvs) ?sv = Some sv'"
    by (simp only: perform_all.simps(2) [of _ _ "Receive 7 _ _"] r1 r2 option.case)
  have "http_errno h \<noteq> HPE_OK" "\<not> completes []" "list_all (spares 7) ?mvs" using h(2) by (simp_all add: completes_def)
  from malformed_never_answered [OF one_connection [where cb = None and w = "()", folded one_client_def] sv(1) c(3)
      h(1) [folded c(1)] this(1,2) run this(3)]
  show ?thesis using run c(2) by auto
qed

end
