(* ===== verification/Spec2Isabelle.thy ===== *)
theory Spec2Isabelle
  imports Hp_Url Lifecycle End_To_End Ws_Content Ws_Decoder Jwt Client Malformed
begin

text \<open>
  MyWebSocket is an HTTP/1.1 and WebSocket server in C++ on top of libuv. This development models its code
  and states what makes it correct, and where it is not.

  \<^bold>\<open>The program and how its parts interact.\<close> One event loop runs everything. \<open>HttpServer\<close>
  (\<open>src/include/httpserver.h\<close>, \<open>src/src/core/httpserver.cpp\<close>) accepts connections; each gets a \<open>Session\<close>, which
  feeds the bytes libuv delivers to the vendored \<open>http_parser\<close> (\<open>src/third-party/http-parser\<close>). The parser's
  callbacks assemble an \<open>httpReq\<close> (\<open>httpReq.cpp\<close>); when the message is complete the \<open>httpRouter\<close>
  (\<open>httpRouter.cpp\<close>) finds the handler, which answers through an \<open>httpResp\<close> (\<open>httpResp.cpp\<close>), from a string,
  a JSON value (\<open>src/third-party/leptjson\<close>) or a file read by a \<open>FileReader\<close> (\<open>FileReader.cpp\<close>). The completion
  of the write keeps the connection, with a timer, or closes it. A request that asks for an upgrade is
  answered with the accept key of \<open>src/src/util/ssl.cpp\<close>; the completion of that write hands the socket and
  the receive buffer to \<open>WsServer\<close> (\<open>WsServer.cpp\<close>), whose \<open>WsSession\<close>s (\<open>WebSocket.cpp\<close>) feed the bytes to
  the frame parser (\<open>websocket_parser.cpp\<close>) and run the application's callbacks. \<open>JwtUtil\<close>
  (\<open>src/src/util/jwt.cpp\<close>) signs and verifies tokens beside all this, \<open>src/main.cpp\<close> is a demonstration, and \<open>src/client.cpp\<close> a client for it.

  \<^bold>\<open>The theories.\<close>

  Shared: \<open>Prelude\<close> (machine types, generic lemmas, rule collections), \<open>Incremental\<close> (the locale of a parser
  that is fed buffers), \<open>Registry\<close> (the locale of a session table, with \<open>std::find\<close> and swap-and-pop),
  \<open>Recv_Buffer\<close> (the allocation callbacks of both sessions and the transfer of the buffer).

  WebSocket: \<open>Ws_Parser\<close> (the parser record, one definition per case of the switch of
  \<open>websocket_parser::parse\<close>, the byte loop, the invariant, independence of buffer boundaries), \<open>Ws_Frame\<close> (the
  frame header \<open>inter_send\<close> writes, reading frames and messages back, the locale \<open>frame_handler\<close> of what a
  completion callback does), \<open>Ws_Session\<close> (the session as a record with the trace of what it does to its
  socket, application and server; one definition per method), \<open>Ws_Server\<close> (the table, \<open>onUpgrade\<close>, the contract
  \<open>session_operation\<close>, runs as a step relation), \<open>Ws_Content\<close> (the write context, JSON and files),
  \<open>Ws_Decoder\<close> (a reference decoder that works frame by frame, and that the parser agrees with it on every input).

  HTTP parser: \<open>Hp_Types\<close> (enumerations, struct, tables, character classes), \<open>Hp_Machine\<close> (macros; a case of
  the switch is a function from the locals to an outcome: continue, break, return, failed assertion),
  \<open>Hp_Start\<close>, \<open>Hp_Header\<close>, \<open>Hp_Body\<close> (the cases), \<open>Hp_Exec\<close> (the loop and \<open>http_parser_execute\<close>; positions
  stay in the buffer), \<open>Hp_Safety\<close> (the invariant, and that no assertion fails), \<open>Hp_Sim\<close> (the callbacks may be
  taken as a list of events), \<open>Hp_Request\<close>, \<open>Hp_Names\<close>, \<open>Hp_Fields\<close>, \<open>Hp_Message\<close> (what the parser reports for a
  well-formed request, line by line, then for several in one buffer), \<open>Hp_Url\<close> (\<open>http_parser_parse_url\<close>).

  HTTP server: \<open>Http_Req\<close>, \<open>Http_Router\<close>, \<open>File_Reader\<close>, \<open>Http_Resp\<close>, \<open>Ws_Util\<close> (the accept key), \<open>Http_Session\<close>
  (the session with what belongs to its socket: responses, pending writes, closes), \<open>Http_Server\<close> (the table,
  closing and upgrading, the callbacks of libuv, runs as a step relation), \<open>Http_Service\<close> (the server as its
  client sees it, from bytes to bytes), \<open>Keep_Alive\<close> (a connection over any number of requests).

  Composition: \<open>Upgrade\<close> (the handshake, and the effect of an HTTP step on the sessions handed over),
  \<open>Both_Servers\<close> (runs of the two servers together), \<open>Lifecycle\<close> (the machine of a
  socket's phases that they refine), \<open>Malformed\<close> (the runs of the HTTP server as lists of moves, and a connection
  after a parse error in any of them), \<open>End_To_End\<close> (one client from its request to its messages).

  JSON, tokens, demonstration: \<open>Lept_Json\<close> (values, printer, parser), \<open>Json_Text\<close> (what printing and parsing
  give back), \<open>Jwt\<close>, \<open>Demo\<close>, \<open>Demo_Pages\<close> (what the demonstration's first route sends: a file, JSON, a text),
  \<open>Client\<close> (the client's program and its conversation with the demonstration).

  \<^bold>\<open>What is shown.\<close> Definitions carry the names of the code; a record has the data members,
  errors are values, and a failed assertion, an exception, a use after free or a loop that does not end is a
  result of its own. The lemmas come in these groups. Parsers: their state invariants, that buffers may be cut
  anywhere, what a well-formed input makes them report, that they never fail an assertion or leave the buffer, and
  size limits. Round trips: frames, messages, files, responses, query strings, JSON, base64. Sessions and tables:
  for every interleaving of connections, reads, writes, files, timers and calls of the application, the tables
  list exactly the live sessions, a socket is closed once or handed over, and no socket has two owners. Service:
  one request gets one response with the handler's status and text and then the end or the continuation the
  request asked for, and so on for any number of requests; a client that asks for the upgrade keeps its socket,
  has all its messages delivered in order and disturbs nobody; a handshake ends in exactly the WebSocket server's
  upgrade step. Refinement: the two servers are a machine of socket phases, the frame parser is a decoder of whole
  frames, the dispatch is a first-match search, the tables are sets, the reader yields the content of a file, a
  file that is sent is a string that is sent.

  Some theorems state what the code does where that is not what it should do: the last path parameter is never
  bound, a frame with an empty payload is handled late, a control frame between fragments joins the message, a
  malformed request is neither answered nor closed by the server, a pipelined response is cut off, early bytes end a kept connection, two
  close frames close twice, a failed write frees twice, a failed file is used after it is freed, a JSON string
  with characters before an unknown escape ends the process, non-ASCII text is lost in JSON, and the payload of a token overrides
  its dates.

  \<^bold>\<open>Bounds and fuel.\<close> \<open>size_t\<close> is 64 bits, lengths of frames and chunks are words
  and their wrap-around is part of the definitions; theorems about frames take payloads up to the limit of 1 MiB
  the code sets, and the allocation loop requests up to 2 to the 62. The loops of both protocol parsers are
  structural on the rest of the buffer, the reference decoder's recursion is on its length. The growth of a
  receive buffer is a partial function with value \<open>None\<close> when it does not end, with the exact
  condition. The keep-alive timeout in milliseconds is an unbounded number: the code's \<open>int\<close>
  multiplication by 1000 for timeouts of 0 to 2147483 seconds. The JSON parser's fuel is \<open>2 * length + 4\<close>, which is proved never to run out.

  \<^bold>\<open>What is taken from outside.\<close> Parameters of the definitions are: libuv (what it reports is
  the argument of a callback, and its order of events any order the step relations allow), the regular expressions
  of \<open>std::regex\<close>, the order in which an \<open>std::unordered_map\<close> is visited, SHA-1 and the
  base64 filter of OpenSSL, \<open>snprintf\<close> of a double and double-conversion, jwt-cpp (v0.7.0, with the checks its \<open>verify\<close> makes of \<open>exp\<close>, \<open>iat\<close> and
  \<open>nbf\<close>) and picojson, the
  handlers and callbacks of the application. A file is what its reads give until the first that gives less than
  the buffer holds, where the code stops; a read may fail after any number of whole buffers. Where a property needs more of them, it is a hypothesis there.

  \<^bold>\<open>Not modelled.\<close> What the servers print; the mutexes (each step runs on the event loop, and
  no operation holds a lock across a callback); addresses, allocation and the lifetime of objects, except where a
  definition says so (readers, write contexts, sessions, the receive buffer); the destructors, which only free;
  the constructors and accessors of \<open>lept_value\<close>, which build and read the union that is a datatype
  here; the declarations of the headers, which have no code of their own; the tests.
\<close>

end
